(* ===== verification/IPM_Prelude.thy ===== *)
theory IPM_Prelude
  imports Main "HOL-Library.Word"
begin

text \<open>
  Shared vocabulary of the development: the C integer types as words, the outcome of a C call
  (a returned value, a failed assertion, undefined behaviour, or a call that never returns), and
  \<^verbatim>\<open>memmove\<close> on an array of elements, with the facts about lists, words and outcomes that the
  component theories share.
\<close>

section \<open>C types\<close>

type_synonym size_t = "64 word"
type_synonym ipm_id = "64 word"
type_synonym uint32 = "32 word"

text \<open>
  A pointer is null, the value \<^verbatim>\<open>MAP_FAILED\<close>, a bit pattern that was never an address (the bytes that
  \<^verbatim>\<open>memset(block, 0xCC, ...)\<close> leaves), or the address of one object or mapping, numbered in the order
  of allocation. \<open>errno\<close> holds the error numbers that the sources mention; \<open>ENONE\<close> is 0.
\<close>

datatype ptr = NULL | MAP_FAILED | Wild | Addr nat

datatype errno =
    ENONE | EACCES | EAGAIN | EBADF | EBUSY | EDEADLK | EEXIST | EFBIG | EINVAL | EMFILE
  | ENAMETOOLONG | ENFILE | ENOENT | ENOMEM | ENOTRECOVERABLE | EOWNERDEAD | EPERM | EROFS
  | EOTHER nat

section \<open>Outcomes of a C call\<close>

text \<open>
  \<^item> \<open>Ret v\<close>: the call returns \<open>v\<close>;
  \<^item> \<open>Abort\<close>: an \<^verbatim>\<open>assert\<close> fails in a build without \<^verbatim>\<open>NDEBUG\<close>;
  \<^item> \<open>UB\<close>: undefined behaviour, here an access outside an array or to memory that is not mapped;
  \<^item> \<open>Blocked\<close>: the call waits for another process and nothing more happens.
\<close>

datatype 'a outcome = Ret 'a | Abort | UB | Blocked

primrec bind_outcome :: "'a outcome \<Rightarrow> ('a \<Rightarrow> 'b outcome) \<Rightarrow> 'b outcome" where
  "bind_outcome (Ret v) f = f v"
| "bind_outcome Abort f = Abort"
| "bind_outcome UB f = UB"
| "bind_outcome Blocked f = Blocked"

text \<open>\<^verbatim>\<open>assert(P)\<close> followed by the rest of the function; \<open>nd\<close> says whether \<^verbatim>\<open>NDEBUG\<close> is defined.\<close>

definition c_assert :: "bool \<Rightarrow> bool \<Rightarrow> 'a outcome \<Rightarrow> 'a outcome" where
  "c_assert nd P k = (if nd \<or> P then k else Abort)"

text \<open>
  \<^verbatim>\<open>memmove(xs + d, xs + s, n * sizeof(*xs))\<close>: overlap is allowed, nothing happens for \<open>n = 0\<close>, and
  touching an element outside the array is undefined behaviour.
\<close>

definition memmove :: "'a list \<Rightarrow> nat \<Rightarrow> nat \<Rightarrow> nat \<Rightarrow> 'a list outcome" where
  "memmove xs d s n =
     (if n = 0 then Ret xs
      else if d + n \<le> length xs \<and> s + n \<le> length xs
      then Ret (take d xs @ take n (drop s xs) @ drop (d + n) xs)
      else UB)"

text \<open>\<^verbatim>\<open>xs[i] = v\<close> on an array.\<close>

definition array_store :: "'a list \<Rightarrow> nat \<Rightarrow> 'a \<Rightarrow> 'a list outcome" where
  "array_store xs i v = (if i < length xs then Ret (xs[i := v]) else UB)"

text \<open>
  The loop \<^verbatim>\<open>for (pos = from; pos < count; ++pos) if (P(xs[pos])) break;\<close>: it returns the position of the first
  element that satisfies \<open>P\<close>, or the count; reading past the end of the array is undefined.
\<close>

function scan :: "('a \<Rightarrow> bool) \<Rightarrow> 'a list \<Rightarrow> nat \<Rightarrow> nat \<Rightarrow> nat outcome" where
  "scan P xs cnt pos =
     (if pos < cnt then
        (if pos < length xs then (if P (xs ! pos) then Ret pos else scan P xs cnt (Suc pos))
         else UB)
      else Ret pos)"
  by pat_completeness auto
termination
  by (relation "measure (\<lambda>(P, xs, cnt, pos). cnt - pos)") auto

declare scan.simps [simp del]

section \<open>Automation shared by the components\<close>

named_theorems outcome_simps \<open>evaluation of outcomes, assertions and array accesses\<close>
named_theorems ipm_defs \<open>definitions that proofs about whole operations unfold\<close>

lemma bind_outcome_Ret_iff [outcome_simps]:
  "bind_outcome m f = Ret v \<longleftrightarrow> (\<exists>u. m = Ret u \<and> f u = Ret v)"
  by (cases m) auto

lemma bind_outcome_assoc [outcome_simps]:
  "bind_outcome (bind_outcome m f) g = bind_outcome m (\<lambda>v. bind_outcome (f v) g)"
  by (cases m) auto

lemma bind_outcome_cong [fundef_cong]:
  "m = m' \<Longrightarrow> (\<And>v. m' = Ret v \<Longrightarrow> f v = g v) \<Longrightarrow> bind_outcome m f = bind_outcome m' g"
  by (cases m') auto

lemma c_assert_True [simp]: "c_assert nd True k = k"
  by (simp add: c_assert_def)

lemma c_assert_NDEBUG [simp]: "c_assert True P k = k"
  by (simp add: c_assert_def)

lemma c_assert_holds [outcome_simps]: "P \<Longrightarrow> c_assert nd P k = k"
  by (simp add: c_assert_def)

lemma c_assert_Ret_iff: "c_assert nd P k = Ret v \<longleftrightarrow> (nd \<or> P) \<and> k = Ret v"
  by (simp add: c_assert_def)

lemma memmove_0 [simp]: "memmove xs d s 0 = Ret xs"
  by (simp add: memmove_def)

lemma memmove_Ret_length: "memmove xs d s n = Ret ys \<Longrightarrow> length ys = length xs"
  by (auto simp: memmove_def split: if_splits)

lemma memmove_in_range:
  assumes "d + n \<le> length xs" and "s + n \<le> length xs"
  shows "memmove xs d s n = Ret (take d xs @ take n (drop s xs) @ drop (d + n) xs)"
proof (cases "n = 0")
  case True
  then show ?thesis by (simp add: memmove_def)
next
  case False
  then show ?thesis using assms by (simp add: memmove_def)
qed

lemma array_store_in_range [simp]: "i < length xs \<Longrightarrow> array_store xs i v = Ret (xs[i := v])"
  by (simp add: array_store_def)

lemma array_store_out_of_range: "length xs \<le> i \<Longrightarrow> array_store xs i v = UB"
  by (simp add: array_store_def)

lemma drop_take_Cons:
  "pos < cnt \<Longrightarrow> cnt \<le> length xs \<Longrightarrow>
   drop pos (take cnt xs) = xs ! pos # drop (Suc pos) (take cnt xs)"
  by (metis Cons_nth_drop_Suc length_take min_absorb2 nth_take)

lemma scan_from:
  "cnt \<le> length xs \<Longrightarrow> pos \<le> cnt \<Longrightarrow>
   scan P xs cnt pos = Ret (pos + length (takeWhile (\<lambda>x. \<not> P x) (drop pos (take cnt xs))))"
proof (induction P xs cnt pos rule: scan.induct)
  case (1 P xs cnt pos)
  show ?case
  proof (cases "pos < cnt")
    case True
    then show ?thesis using "1.prems" "1.IH" drop_take_Cons [of pos cnt xs]
      by (subst scan.simps) auto
  next
    case False
    then show ?thesis using "1.prems" by (subst scan.simps) simp
  qed
qed

lemma scan_eq:
  "cnt \<le> length xs \<Longrightarrow> scan P xs cnt 0 = Ret (length (takeWhile (\<lambda>x. \<not> P x) (take cnt xs)))"
  using scan_from [of cnt xs 0 P] by simp

lemma scan_all_iff:
  "cnt \<le> length xs \<Longrightarrow>
   length (takeWhile (\<lambda>x. \<not> P x) (take cnt xs)) = cnt \<longleftrightarrow> (\<forall>x \<in> set (take cnt xs). \<not> P x)"
  by (metis length_take length_takeWhile_le min_absorb2 takeWhile_eq_all_conv takeWhile_eq_take take_all_iff)

section \<open>Words read as natural numbers\<close>

lemma unat_plus_no_wrap:
  fixes a b :: size_t
  assumes "unat a + unat b < 2 ^ 64"
  shows "unat (a + b) = unat a + unat b"
  using assms by (simp add: unat_word_ariths)

lemma unat_plus_wraps:
  fixes x y :: "'a::len word"
  assumes "2 ^ LENGTH('a) \<le> unat x + unat y"
  shows "unat (x + y) = unat x + unat y - 2 ^ LENGTH('a)"
proof -
  have "unat x < 2 ^ LENGTH('a)" "unat y < 2 ^ LENGTH('a)" by (rule unsigned_less)+
  then have "unat x + unat y - 2 ^ LENGTH('a) < 2 ^ LENGTH('a)" by linarith
  then show ?thesis using assms by (simp only: unat_word_ariths(1) le_mod_geq mod_less)
qed

lemma unat_inc_size:
  fixes a b :: size_t
  assumes "a < b"
  shows "unat (a + 1) = Suc (unat a)"
proof -
  have "unat a < unat b" using assms by (simp add: word_less_nat_alt)
  moreover have "unat b < 2 ^ 64" using unsigned_less [of b] by simp
  ultimately show ?thesis by (simp add: unat_word_ariths)
qed

lemma unat_dec_size:
  fixes a :: size_t
  assumes "a \<noteq> 0"
  shows "unat (a - 1) = unat a - 1"
  using assms by (simp add: unat_minus_one)

lemma unat_word_of_nat_small:
  fixes a :: "'a::len word"
  assumes "p \<le> unat a"
  shows "unat (word_of_nat p :: 'a word) = p"
proof -
  have "unat a < 2 ^ LENGTH('a)" by (rule unsigned_less)
  then have "p < 2 ^ LENGTH('a)" using assms by linarith
  then show ?thesis by (simp add: unat_of_nat take_bit_nat_eq_self)
qed

lemma unat_minus_nat_1:
  fixes a :: "'a::len word"
  assumes "p < unat a"
  shows "unat (a - word_of_nat p - 1) = unat a - p - 1"
proof -
  have p: "unat (word_of_nat p :: 'a word) = p"
    using assms by (intro unat_word_of_nat_small [of p a]) simp
  have "word_of_nat p \<le> a" using p assms by (simp add: word_le_nat_alt)
  then have d: "unat (a - word_of_nat p) = unat a - p" using p by (simp add: unat_sub)
  then have "a - word_of_nat p \<noteq> 0" using assms by auto
  then show ?thesis using d by (simp add: unat_minus_one)
qed

section \<open>Prefixes of an array\<close>

text \<open>Moving a block up or down by one slot, one element short.\<close>

lemma memmove_up_short:
  assumes "M \<noteq> []"
  shows "memmove (P @ M @ s # R) (length P + 1) (length P) (length M - 1) =
    Ret (P @ hd M # butlast M @ s # R)"
proof -
  obtain x N where M: "M = x # N" using assms by (cases M) auto
  have "memmove (P @ M @ s # R) (length P + 1) (length P) (length M - 1) =
      Ret (take (length P + 1) (P @ M @ s # R) @
           take (length M - 1) (drop (length P) (P @ M @ s # R)) @
           drop (length P + 1 + (length M - 1)) (P @ M @ s # R))"
    by (rule memmove_in_range) (simp_all add: M)
  also have "take (length M - 1) (drop (length P) (P @ M @ s # R)) = butlast M"
    by (simp add: butlast_conv_take)
  finally show ?thesis by (simp add: M)
qed

lemma memmove_down_short:
  assumes "M \<noteq> []"
  shows "memmove (P @ x # M @ R) (length P) (length P + 1) (length M - 1) =
    Ret (P @ butlast M @ last (x # butlast M) # last M # R)"
proof -
  obtain N y where M: "M = N @ [y]" using assms by (cases M rule: rev_cases) auto
  have "memmove (P @ x # M @ R) (length P) (length P + 1) (length M - 1) =
      Ret (take (length P) (P @ x # M @ R) @
           take (length M - 1) (drop (length P + 1) (P @ x # M @ R)) @
           drop (length P + (length M - 1)) (P @ x # M @ R))"
    by (rule memmove_in_range) (simp_all add: M)
  moreover have "drop (length N) (x # N @ y # R) = last (x # N) # y # R"
    by (cases N rule: rev_cases) auto
  ultimately show ?thesis by (simp add: M)
qed


lemma set_take_mono: "m \<le> n \<Longrightarrow> set (take m xs) \<subseteq> set (take n xs)"
  by (rule set_take_subset_set_take)

lemma take_Suc_list_update:
  "n < length xs \<Longrightarrow> take (Suc n) (xs[n := v]) = take n xs @ [v]"
  by (simp add: take_Suc_conv_app_nth)

end
