(* ===== verification/IPM_Error.thy ===== *)
theory IPM_Error
  imports IPM_Prelude
begin

text \<open>
  The result codes of the library (\<^verbatim>\<open>include/ipm/ipm_error.h\<close>) and their translation to text
  (\<^verbatim>\<open>source/ipm_error.c\<close>). A C enum argument may hold any integer, so the two translation functions
  take an \<open>int\<close>; \<open>result_code\<close> gives the value of each enumerator.
\<close>

section \<open>The enumeration\<close>

datatype ipm_result =
    IPM_RESULT_SUCCESS
  | IPM_RESULT_ERR_ACCESS
  | IPM_RESULT_ERR_EXISTS
  | IPM_RESULT_ERR_BAD_VALUE
  | IPM_RESULT_ERR_MAX_FDS
  | IPM_RESULT_ERR_NAME_TOO_LONG
  | IPM_RESULT_ERR_MAX_FDS_SYS
  | IPM_RESULT_ERR_INVALID_FD
  | IPM_RESULT_ERR_BAD_FS
  | IPM_RESULT_ERR_OS_OUT_OF_MEMORY
  | IPM_RESULT_ERR_OS_UNEXPECTED
  | IPM_RESULT_ERR_BAD_ID
  | IPM_RESULT_ERR_BAD_SIZE
  | IPM_RESULT_ERR_NO_SEM
  | IPM_RESULT_ERR_NO_SEM_WAIT
  | IPM_RESULT_ERR_ALREADY_LOCKED
  | IPM_RESULT_ERR_NOT_LOCKED
  | IPM_RESULT_ERR_LIST_SIZE_MISMATCH
  | IPM_RESULT_ERR_INVALID_CLAIM
  | IPM_RESULT_ERR_BAD_INIT
  | IPM_RESULT_ERR_DEADLOCK
  | IPM_RESULT_INTERRUPTED
  | IPM_RESULT_ERR_BAD_ACCESS
  | IPM_RESULT_ERR_DOES_NOT_EXIST

text \<open>The enumerators in the order of the declaration, and the value \<open>IPM_RESULT_COUNT\<close> after the last one.\<close>

definition ipm_results :: "ipm_result list" where
  "ipm_results =
    [IPM_RESULT_SUCCESS,
     IPM_RESULT_ERR_ACCESS,
     IPM_RESULT_ERR_EXISTS,
     IPM_RESULT_ERR_BAD_VALUE,
     IPM_RESULT_ERR_MAX_FDS,
     IPM_RESULT_ERR_NAME_TOO_LONG,
     IPM_RESULT_ERR_MAX_FDS_SYS,
     IPM_RESULT_ERR_INVALID_FD,
     IPM_RESULT_ERR_BAD_FS,
     IPM_RESULT_ERR_OS_OUT_OF_MEMORY,
     IPM_RESULT_ERR_OS_UNEXPECTED,
     IPM_RESULT_ERR_BAD_ID,
     IPM_RESULT_ERR_BAD_SIZE,
     IPM_RESULT_ERR_NO_SEM,
     IPM_RESULT_ERR_NO_SEM_WAIT,
     IPM_RESULT_ERR_ALREADY_LOCKED,
     IPM_RESULT_ERR_NOT_LOCKED,
     IPM_RESULT_ERR_LIST_SIZE_MISMATCH,
     IPM_RESULT_ERR_INVALID_CLAIM,
     IPM_RESULT_ERR_BAD_INIT,
     IPM_RESULT_ERR_DEADLOCK,
     IPM_RESULT_INTERRUPTED,
     IPM_RESULT_ERR_BAD_ACCESS,
     IPM_RESULT_ERR_DOES_NOT_EXIST]"

definition IPM_RESULT_COUNT :: int where
  "IPM_RESULT_COUNT = int (length ipm_results)"

primrec result_code :: "ipm_result \<Rightarrow> int" where
  "result_code IPM_RESULT_SUCCESS = 0"
| "result_code IPM_RESULT_ERR_ACCESS = 1"
| "result_code IPM_RESULT_ERR_EXISTS = 2"
| "result_code IPM_RESULT_ERR_BAD_VALUE = 3"
| "result_code IPM_RESULT_ERR_MAX_FDS = 4"
| "result_code IPM_RESULT_ERR_NAME_TOO_LONG = 5"
| "result_code IPM_RESULT_ERR_MAX_FDS_SYS = 6"
| "result_code IPM_RESULT_ERR_INVALID_FD = 7"
| "result_code IPM_RESULT_ERR_BAD_FS = 8"
| "result_code IPM_RESULT_ERR_OS_OUT_OF_MEMORY = 9"
| "result_code IPM_RESULT_ERR_OS_UNEXPECTED = 10"
| "result_code IPM_RESULT_ERR_BAD_ID = 11"
| "result_code IPM_RESULT_ERR_BAD_SIZE = 12"
| "result_code IPM_RESULT_ERR_NO_SEM = 13"
| "result_code IPM_RESULT_ERR_NO_SEM_WAIT = 14"
| "result_code IPM_RESULT_ERR_ALREADY_LOCKED = 15"
| "result_code IPM_RESULT_ERR_NOT_LOCKED = 16"
| "result_code IPM_RESULT_ERR_LIST_SIZE_MISMATCH = 17"
| "result_code IPM_RESULT_ERR_INVALID_CLAIM = 18"
| "result_code IPM_RESULT_ERR_BAD_INIT = 19"
| "result_code IPM_RESULT_ERR_DEADLOCK = 20"
| "result_code IPM_RESULT_INTERRUPTED = 21"
| "result_code IPM_RESULT_ERR_BAD_ACCESS = 22"
| "result_code IPM_RESULT_ERR_DOES_NOT_EXIST = 23"

section \<open>The table of texts\<close>

text \<open>
  The designated initialisers of \<^verbatim>\<open>RESULT_INFO\<close>, in source order: index, \<^verbatim>\<open>.str\<close>, \<^verbatim>\<open>.msg\<close>. An index that
  no initialiser names would hold null pointers, which is \<open>None\<close> below.
\<close>

definition RESULT_INFO_init :: "(ipm_result \<times> string \<times> string) list" where
  "RESULT_INFO_init =
    [(IPM_RESULT_SUCCESS,
       ''IPM_RESULT_SUCCESS'',
       ''Success''),
     (IPM_RESULT_ERR_EXISTS,
       ''IPM_RESULT_ERR_EXISTS'',
       ''Memory object already exists''),
     (IPM_RESULT_ERR_ACCESS,
       ''IPM_RESULT_ERR_ACCESS'',
       ''Don'' @ [CHR 0x27] @ ''t have sufficient permissions''),
     (IPM_RESULT_ERR_BAD_VALUE,
       ''IPM_RESULT_ERR_BAD_VALUE'',
       ''Parameter had an invalid value''),
     (IPM_RESULT_ERR_MAX_FDS,
       ''IPM_RESULT_ERR_MAX_FDS'',
       ''Process has maximum number of FDs''),
     (IPM_RESULT_ERR_NAME_TOO_LONG,
       ''IPM_RESULT_ERR_NAME_TOO_LONG'',
       ''Name of memory object was greater than PATH_MAX''),
     (IPM_RESULT_ERR_MAX_FDS_SYS,
       ''IPM_RESULT_ERR_MAX_FDS_SYS'',
       ''System has maximum number of FDs''),
     (IPM_RESULT_ERR_INVALID_FD,
       ''IPM_RESULT_ERR_INVALID_FD'',
       ''Invalid FD was passed to a function''),
     (IPM_RESULT_ERR_BAD_FS,
       ''IPM_RESULT_ERR_BAD_FS'',
       ''Operation not allowed by the filesystem''),
     (IPM_RESULT_ERR_OS_OUT_OF_MEMORY,
       ''IPM_RESULT_ERR_OS_OUT_OF_MEMORY'',
       ''Operating system ran out of memory''),
     (IPM_RESULT_ERR_OS_UNEXPECTED,
       ''IPM_RESULT_ERR_OS_UNEXPECTED'',
       ''OS error occurred, but type was not expected''),
     (IPM_RESULT_ERR_BAD_ID,
       ''IPM_RESULT_ERR_BAD_ID'',
       ''ID did not match real block ID''),
     (IPM_RESULT_ERR_BAD_SIZE,
       ''IPM_RESULT_ERR_BAD_SIZE'',
       ''Size did not match real block size''),
     (IPM_RESULT_ERR_NO_SEM,
       ''IPM_RESULT_ERR_NO_SEM'',
       ''Could not create synchronization semaphore''),
     (IPM_RESULT_ERR_NO_SEM_WAIT,
       ''IPM_RESULT_ERR_NO_SEM_WAIT'',
       ''Waiting on semaphore failed''),
     (IPM_RESULT_ERR_ALREADY_LOCKED,
       ''IPM_RESULT_ERR_ALREADY_LOCKED'',
       ''Lock was already acquired''),
     (IPM_RESULT_ERR_NOT_LOCKED,
       ''IPM_RESULT_ERR_NOT_LOCKED'',
       ''Lock was not acquired''),
     (IPM_RESULT_ERR_LIST_SIZE_MISMATCH,
       ''IPM_RESULT_ERR_LIST_SIZE_MISMATCH'',
       ''Length of the list does not match between semaphores and internal data''),
     (IPM_RESULT_ERR_INVALID_CLAIM,
       ''IPM_RESULT_ERR_INVALID_CLAIM'',
       ''Claim does not exist''),
     (IPM_RESULT_ERR_BAD_INIT,
       ''IPM_RESULT_ERR_BAD_INIT'',
       ''Initialization was done in an incorrect way''),
     (IPM_RESULT_ERR_DEADLOCK,
       ''IPM_RESULT_ERR_DEADLOCK'',
       ''Locking would cause a deadlock''),
     (IPM_RESULT_INTERRUPTED,
       ''IPM_RESULT_INTERRUPTED'',
       ''Function was interrupted by user''),
     (IPM_RESULT_ERR_BAD_ACCESS,
       ''IPM_RESULT_ERR_BAD_ACCESS'',
       ''Desire access is incompatible with the memory block''),
     (IPM_RESULT_ERR_DOES_NOT_EXIST,
       ''IPM_RESULT_ERR_DOES_NOT_EXIST'',
       ''Memory block does not exist'')]"

definition RESULT_INFO :: "(string \<times> string) option list" where
  "RESULT_INFO =
     fold (\<lambda>(r, v) tab. tab[nat (result_code r) := Some v])
       RESULT_INFO_init (replicate (nat IPM_RESULT_COUNT) None)"

section \<open>Translation to text\<close>

text \<open>The result is \<open>None\<close> for a null pointer.\<close>

definition ipm_result_to_str :: "int \<Rightarrow> string option" where
  "ipm_result_to_str res =
     (if res < result_code IPM_RESULT_SUCCESS \<or> res \<ge> IPM_RESULT_COUNT then Some ''Unknown''
      else map_option fst (RESULT_INFO ! nat res))"

definition ipm_result_to_msg :: "int \<Rightarrow> string option" where
  "ipm_result_to_msg res =
     (if res < result_code IPM_RESULT_SUCCESS \<or> res \<ge> IPM_RESULT_COUNT then Some ''Unknown''
      else map_option snd (RESULT_INFO ! nat res))"

section \<open>Facts about the table\<close>

text \<open>The value of an enumerator is its position in the declaration.\<close>

lemma ipm_results_nth: "ipm_results ! nat (result_code r) = r"
  by (cases r) (simp_all add: ipm_results_def)

lemma result_code_range: "0 \<le> result_code r \<and> result_code r < IPM_RESULT_COUNT"
  by (cases r) (simp_all add: IPM_RESULT_COUNT_def ipm_results_def)

lemma result_code_inject: "result_code r = result_code s \<Longrightarrow> r = s"
  by (metis ipm_results_nth)

lemma IPM_RESULT_COUNT_eq: "IPM_RESULT_COUNT = 24"
  by (simp add: IPM_RESULT_COUNT_def ipm_results_def)

lemma length_ipm_results: "length ipm_results = nat IPM_RESULT_COUNT"
  by (simp add: IPM_RESULT_COUNT_def)

text \<open>
  The designated initialisers name every enumerator exactly once, so each slot of the table holds the
  text of its own initialiser.
\<close>

lemma RESULT_INFO_init_index:
  "map fst RESULT_INFO_init =
    [IPM_RESULT_SUCCESS,
     IPM_RESULT_ERR_EXISTS,
     IPM_RESULT_ERR_ACCESS,
     IPM_RESULT_ERR_BAD_VALUE,
     IPM_RESULT_ERR_MAX_FDS,
     IPM_RESULT_ERR_NAME_TOO_LONG,
     IPM_RESULT_ERR_MAX_FDS_SYS,
     IPM_RESULT_ERR_INVALID_FD,
     IPM_RESULT_ERR_BAD_FS,
     IPM_RESULT_ERR_OS_OUT_OF_MEMORY,
     IPM_RESULT_ERR_OS_UNEXPECTED,
     IPM_RESULT_ERR_BAD_ID,
     IPM_RESULT_ERR_BAD_SIZE,
     IPM_RESULT_ERR_NO_SEM,
     IPM_RESULT_ERR_NO_SEM_WAIT,
     IPM_RESULT_ERR_ALREADY_LOCKED,
     IPM_RESULT_ERR_NOT_LOCKED,
     IPM_RESULT_ERR_LIST_SIZE_MISMATCH,
     IPM_RESULT_ERR_INVALID_CLAIM,
     IPM_RESULT_ERR_BAD_INIT,
     IPM_RESULT_ERR_DEADLOCK,
     IPM_RESULT_INTERRUPTED,
     IPM_RESULT_ERR_BAD_ACCESS,
     IPM_RESULT_ERR_DOES_NOT_EXIST]"
  by (simp only: RESULT_INFO_init_def list.map fst_conv)

lemma RESULT_INFO_init_distinct: "distinct (map fst RESULT_INFO_init)"
  by (simp add: RESULT_INFO_init_index)

lemma RESULT_INFO_init_covers: "r \<in> fst ` set RESULT_INFO_init"
proof -
  have "r \<in> set (map fst RESULT_INFO_init)"
    unfolding RESULT_INFO_init_index by (cases r) simp_all
  then show ?thesis by simp
qed

lemma fold_table_nth:
  assumes "inj f" and "\<And>r. f r < length tab" and "distinct (map fst ini)"
  shows "fold (\<lambda>(r, v) t. t[f r := Some v]) ini tab ! f s =
    (case map_of ini s of None \<Rightarrow> tab ! f s | Some v \<Rightarrow> Some v)"
  using assms(2,3)
proof (induction ini arbitrary: tab)
  case Nil
  then show ?case by simp
next
  case (Cons x ini)
  obtain r v where x: "x = (r, v)" by (cases x)
  have none: "map_of ini r = None"
    using Cons.prems(2) by (simp add: x map_of_eq_None_iff)
  have "f r = f s \<longleftrightarrow> r = s" using assms(1) by (rule inj_eq)
  then show ?case using Cons.IH [of "tab[f r := Some v]"] Cons.prems none
    by (auto simp: x split: option.split)
qed

lemma RESULT_INFO_nth: "RESULT_INFO ! nat (result_code r) = map_of RESULT_INFO_init r"
proof -
  have inj: "inj (\<lambda>r. nat (result_code r))"
    by (rule injI) (metis ipm_results_nth)
  have len: "nat (result_code s) < length (replicate (nat IPM_RESULT_COUNT) None)" for s
    using result_code_range [of s] by simp
  obtain v where "map_of RESULT_INFO_init r = Some v"
    using RESULT_INFO_init_covers [of r] by (metis map_of_eq_None_iff not_Some_eq)
  then show ?thesis
    unfolding RESULT_INFO_def
    using fold_table_nth [OF inj len RESULT_INFO_init_distinct, of r] by simp
qed

lemma RESULT_INFO_init_names_distinct: "distinct (map (fst \<circ> snd) RESULT_INFO_init)"
  by (simp add: RESULT_INFO_init_def)

lemma RESULT_INFO_init_known: "''Unknown'' \<notin> set (map (fst \<circ> snd) RESULT_INFO_init)"
  by (simp add: RESULT_INFO_init_def)

lemma result_code_surj:
  assumes "0 \<le> res" and "res < IPM_RESULT_COUNT"
  obtains r where "res = result_code r"
proof -
  have "map result_code ipm_results = map int [0..<24]"
    by (simp add: ipm_results_def upt_rec)
  moreover have "nat res < length ipm_results"
    using assms by (simp add: length_ipm_results)
  ultimately have "result_code (ipm_results ! nat res) = map int [0..<24] ! nat res"
    by (metis nth_map)
  also have "\<dots> = res" using assms by (simp add: IPM_RESULT_COUNT_eq)
  finally show thesis by (rule that [OF sym])
qed

lemma result_texts:
  obtains s m where "(r, s, m) \<in> set RESULT_INFO_init"
    and "ipm_result_to_str (result_code r) = Some s"
    and "ipm_result_to_msg (result_code r) = Some m"
proof -
  obtain s m where "map_of RESULT_INFO_init r = Some (s, m)"
    using RESULT_INFO_init_covers [of r]
    by (metis map_of_eq_None_iff not_Some_eq surj_pair)
  then show thesis
    using that [of s m] result_code_range [of r]
    by (simp add: ipm_result_to_str_def ipm_result_to_msg_def RESULT_INFO_nth map_of_SomeD)
qed

lemma result_name_unique:
  assumes "(r, s, m) \<in> set RESULT_INFO_init" and "(r', s, m') \<in> set RESULT_INFO_init"
  shows "r = r'"
proof -
  have "inj_on (fst \<circ> snd) (set RESULT_INFO_init)"
    using RESULT_INFO_init_names_distinct by (simp add: distinct_map)
  then have "(r, s, m) = (r', s, m')"
    by (rule inj_onD) (use assms in simp_all)
  then show ?thesis by simp
qed

section \<open>Properties\<close>

text \<open>
  The translation of the result codes is a faithful, injective naming: distinct valid codes have
  distinct names, so a printed name identifies the result that was returned.
\<close>

lemma result_to_str_inj: "inj_on ipm_result_to_str {0..<IPM_RESULT_COUNT}"
proof (rule inj_onI)
  fix a b
  assume ab: "a \<in> {0..<IPM_RESULT_COUNT}" "b \<in> {0..<IPM_RESULT_COUNT}"
    and eq: "ipm_result_to_str a = ipm_result_to_str b"
  obtain r where r: "a = result_code r" using ab(1) result_code_surj by auto
  obtain r' where r': "b = result_code r'" using ab(2) result_code_surj by auto
  obtain s m where s: "(r, s, m) \<in> set RESULT_INFO_init" "ipm_result_to_str a = Some s"
    using result_texts [of r] r by metis
  obtain s' m' where s': "(r', s', m') \<in> set RESULT_INFO_init" "ipm_result_to_str b = Some s'"
    using result_texts [of r'] r' by metis
  have "r = r'" using result_name_unique s s' eq by simp
  then show "a = b" using r r' by simp
qed

text \<open>
  Every enumerator has the name and the message of its own initialiser, never a null pointer, and
  every other integer is reported as \<open>''Unknown''\<close> by both functions.
\<close>

lemma result_texts_total:
  "(\<exists>s m. (r, s, m) \<in> set RESULT_INFO_init \<and>
      ipm_result_to_str (result_code r) = Some s \<and> ipm_result_to_msg (result_code r) = Some m) \<and>
   (ipm_result_to_str i = Some ''Unknown'' \<longleftrightarrow> i \<notin> range result_code)"
proof
  show "\<exists>s m. (r, s, m) \<in> set RESULT_INFO_init \<and>
      ipm_result_to_str (result_code r) = Some s \<and> ipm_result_to_msg (result_code r) = Some m"
    using result_texts [of r] by metis
  show "ipm_result_to_str i = Some ''Unknown'' \<longleftrightarrow> i \<notin> range result_code"
  proof (cases "i \<in> range result_code")
    case True
    then obtain r' where i: "i = result_code r'" by blast
    obtain s m where sm: "(r', s, m) \<in> set RESULT_INFO_init" "ipm_result_to_str i = Some s"
      using result_texts [of r'] i by metis
    have "s \<in> set (map (fst \<circ> snd) RESULT_INFO_init)" using sm(1) by force
    then have "s \<noteq> ''Unknown''" using RESULT_INFO_init_known by metis
    then show ?thesis using True sm(2) by simp
  next
    case False
    then have "\<not> (0 \<le> i \<and> i < IPM_RESULT_COUNT)" using result_code_surj by blast
    then have "ipm_result_to_str i = Some ''Unknown''" by (auto simp: ipm_result_to_str_def)
    then show ?thesis using False by simp
  qed
qed

end
