(* ===== verification/IPM_Common.thy ===== *)
theory IPM_Common
  imports IPM_Error
begin

text \<open>
  \<^verbatim>\<open>include/ipm/ipm_common.h\<close> and \<^verbatim>\<open>source/ipm_common.c\<close>: the constants and access modes of the library,
  the context of user callbacks, and the allocation and error reporting that every other component
  uses. The callbacks are the user's code; they act on a state of their own, the type parameter
  \<open>'h\<close>, and may change \<^verbatim>\<open>errno\<close>. The callbacks of \<^verbatim>\<open>tests/test_common.c\<close> are modelled too.
\<close>

section \<open>Constants and access modes\<close>

definition IPM_MAX_NAME_LEN :: nat where
  "IPM_MAX_NAME_LEN = 256"

definition IPM_MEMORY_PAGE_SIZE :: size_t where
  "IPM_MEMORY_PAGE_SIZE = 4096"

definition IPM_MEMORY_PAGE_SIZE_MASK :: size_t where
  "IPM_MEMORY_PAGE_SIZE_MASK = 4096 - 1"

definition IPM_DEFAULT_CLAIM_CAPACITY :: size_t where
  "IPM_DEFAULT_CLAIM_CAPACITY = 64"

text \<open>The enum of access modes; a variable of the type may hold another value, \<open>ACCESS_MODE_RAW\<close>.\<close>

datatype ipm_access_mode =
    IPM_ACCESS_MODE_READ_ONLY
  | IPM_ACCESS_MODE_READ_WRITE
  | ACCESS_MODE_RAW uint32

section \<open>Formatted text\<close>

text \<open>
  The conversions that the format strings of the library use: a literal piece, \<^verbatim>\<open>%s\<close>, \<^verbatim>\<open>%.*s\<close>, \<^verbatim>\<open>%zu\<close>
  and \<^verbatim>\<open>%#016lX\<close> (prefix \<^verbatim>\<open>0X\<close> unless the value is zero, zero padded to a width of 16).
\<close>

datatype fmt_piece = Lit string | Str string | StrN nat string | Zu size_t | HexId ipm_id

definition digit_char :: "nat \<Rightarrow> char" where
  "digit_char d = (if d < 10 then char_of (48 + d) else char_of (55 + d))"

function digits_of :: "nat \<Rightarrow> nat \<Rightarrow> string" where
  "digits_of b n =
     (if n < b \<or> b < 2 then [digit_char n] else digits_of b (n div b) @ [digit_char (n mod b)])"
  by pat_completeness auto
termination
  by (relation "measure (\<lambda>(b, n). n)") auto

declare digits_of.simps [simp del]

definition hex16 :: "ipm_id \<Rightarrow> string" where
  "hex16 i =
     (if i = 0 then replicate 16 CHR ''0''
      else let d = digits_of 16 (unat i) in ''0X'' @ replicate (14 - length d) CHR ''0'' @ d)"

primrec fmt_text :: "fmt_piece \<Rightarrow> string" where
  "fmt_text (Lit s) = s"
| "fmt_text (Str s) = s"
| "fmt_text (StrN n s) = take n s"
| "fmt_text (Zu n) = digits_of 10 (unat n)"
| "fmt_text (HexId i) = hex16 i"

definition fmt_string :: "fmt_piece list \<Rightarrow> string" where
  "fmt_string ps = concat (map fmt_text ps)"

text \<open>\<^verbatim>\<open>snprintf\<close> into a buffer of the given size writes at most one byte less and a terminating zero.\<close>

definition snprintf :: "nat \<Rightarrow> fmt_piece list \<Rightarrow> string" where
  "snprintf buffer_size ps = take (buffer_size - 1) (fmt_string ps)"

section \<open>The context of callbacks\<close>

text \<open>\<open>None\<close> as report callback is the null pointer. The last argument of a callback is \<^verbatim>\<open>errno\<close> and the state of the user.\<close>

record 'h ipm_context =
  report_callback :: "(string \<Rightarrow> string \<Rightarrow> int \<Rightarrow> string \<Rightarrow> ptr \<Rightarrow> errno \<times> 'h \<Rightarrow> errno \<times> 'h) option"
  report_param :: ptr
  alloc_callback :: "ptr \<Rightarrow> size_t \<Rightarrow> errno \<times> 'h \<Rightarrow> ptr \<times> errno \<times> 'h"
  alloc_param :: ptr
  free_callback :: "ptr \<Rightarrow> ptr \<Rightarrow> errno \<times> 'h \<Rightarrow> errno \<times> 'h"
  free_param :: ptr

definition ipm_alloc_real ::
  "'h ipm_context \<Rightarrow> size_t \<Rightarrow> string \<Rightarrow> int \<Rightarrow> string \<Rightarrow> errno \<times> 'h \<Rightarrow> ptr \<times> errno \<times> 'h" where
  "ipm_alloc_real context sz file line func st =
     (let (p, st) = alloc_callback context (alloc_param context) sz st
      in if p = NULL then
           (let buffer = snprintf 64 [Lit ''Could not allocate '', Zu sz, Lit '' bytes'']
            in (case report_callback context of
                  Some report \<Rightarrow> (NULL, report buffer file line func (report_param context) st)
                | None \<Rightarrow> (NULL, st)))
         else (p, st))"

definition ipm_free :: "'h ipm_context \<Rightarrow> ptr \<Rightarrow> errno \<times> 'h \<Rightarrow> errno \<times> 'h" where
  "ipm_free context p st =
     (if p = NULL then st else free_callback context (free_param context) p st)"

text \<open>
  \<^verbatim>\<open>vsnprintf(NULL, 0, ...)\<close> yields the length of the text; the buffer has room for the text and its
  terminator, so the second \<^verbatim>\<open>vsnprintf\<close> writes all of it.
\<close>

definition ipm_report_error ::
  "'h ipm_context \<Rightarrow> fmt_piece list \<Rightarrow> string \<Rightarrow> int \<Rightarrow> string \<Rightarrow> errno \<times> 'h \<Rightarrow> errno \<times> 'h" where
  "ipm_report_error context msg file line func st =
     (case report_callback context of
        None \<Rightarrow> st
      | Some report \<Rightarrow>
          (let fmt_len = int (length (fmt_string msg))
           in if fmt_len \<le> 0 then st
              else
                (let (buffer, st) = ipm_alloc_real context (word_of_int (fmt_len + 1))
                                      ''ipm_common.c'' 49 ''ipm_report_error'' st
                 in if buffer = NULL then st
                    else
                      (let text = snprintf (nat (fmt_len + 1)) msg;
                           st = report text file line func (report_param context) st
                       in ipm_free context buffer st))))"

section \<open>The callbacks of the test programs\<close>

text \<open>
  The host state of the tests: the blocks that \<^verbatim>\<open>malloc\<close> has handed out and not got back, how many
  it may still hand out before it fails, and what was printed to \<^verbatim>\<open>stderr\<close>. A callback is a function on
  the state of the host and has no result for a process that ends; a failing \<^verbatim>\<open>assert\<close> on the state pointer is kept
  in \<open>bad_state\<close>. That it never fails is part of \<open>malloc_lasts\<close> below and of what is shown of the test with two processes.
\<close>

record test_host =
  live_blocks :: "nat set"
  next_block :: nat
  malloc_budget :: nat
  stderr_text :: "string list"
  bad_state :: bool

definition state_ptr :: ptr where
  "state_ptr = Wild"

definition allocate_callback :: "ptr \<Rightarrow> size_t \<Rightarrow> errno \<times> test_host \<Rightarrow> ptr \<times> errno \<times> test_host" where
  "allocate_callback state sz st =
     (let (e, h) = st;
          h = (if state = state_ptr then h else h\<lparr>bad_state := True\<rparr>)
      in if malloc_budget h = 0 then (NULL, ENOMEM, h)
         else (Addr (next_block h), e,
               h\<lparr>live_blocks := insert (next_block h) (live_blocks h),
                 next_block := Suc (next_block h), malloc_budget := malloc_budget h - 1\<rparr>))"

definition deallocate_callback :: "ptr \<Rightarrow> ptr \<Rightarrow> errno \<times> test_host \<Rightarrow> errno \<times> test_host" where
  "deallocate_callback state p st =
     (let (e, h) = st;
          h = (if state = state_ptr then h else h\<lparr>bad_state := True\<rparr>)
      in (case p of
            Addr n \<Rightarrow> (e, h\<lparr>live_blocks := live_blocks h - {n}\<rparr>)
          | _ \<Rightarrow> (e, h)))"

definition common_error_report_fn ::
  "string \<Rightarrow> string \<Rightarrow> int \<Rightarrow> string \<Rightarrow> ptr \<Rightarrow> errno \<times> test_host \<Rightarrow> errno \<times> test_host" where
  "common_error_report_fn msg file line func param st =
     (let (e, h) = st
      in (e, h\<lparr>stderr_text :=
                 stderr_text h @
                   [fmt_string [Lit ''IPM Error '', Str file, Lit '':'', Zu (word_of_int line), Lit '' - '',
                      Str func, Lit '': \"'', Str msg, Lit ''\"'', Lit [CHR 10]]]\<rparr>))"

definition test_ctx :: "test_host ipm_context" where
  "test_ctx =
     \<lparr>report_callback = Some common_error_report_fn, report_param = NULL,
      alloc_callback = allocate_callback, alloc_param = state_ptr,
      free_callback = deallocate_callback, free_param = state_ptr\<rparr>"

section \<open>Facts about formatted numbers\<close>

lemma digits_of_small: "n < b \<Longrightarrow> digits_of b n = [digit_char n]"
  by (simp add: digits_of.simps)

lemma digits_of_step:
  "b \<le> n \<Longrightarrow> 2 \<le> b \<Longrightarrow> digits_of b n = digits_of b (n div b) @ [digit_char (n mod b)]"
  by (subst digits_of.simps) simp

lemma digits_of_nonempty [simp]: "digits_of b n \<noteq> []"
  by (subst digits_of.simps) simp

lemma of_char_digit:
  "d < 16 \<Longrightarrow> (of_char (digit_char d) :: nat) = (if d < 10 then 48 + d else 55 + d)"
  by (simp add: digit_char_def of_char_of)

lemma digit_char_inj16: "d < 16 \<Longrightarrow> e < 16 \<Longrightarrow> digit_char d = digit_char e \<Longrightarrow> d = e"
proof -
  assume de: "d < 16" "e < 16" and eq: "digit_char d = digit_char e"
  have "(of_char (digit_char d) :: nat) = of_char (digit_char e)" by (simp only: eq)
  then show "d = e" unfolding of_char_digit [OF de(1)] of_char_digit [OF de(2)]
    using de by (simp split: if_splits)
qed

lemma digit_char_0: "digit_char 0 = CHR ''0''"
  by (simp add: digit_char_def char_of_def bit_0)

lemma digits_of_inj:
  assumes "2 \<le> b" and "b \<le> 16"
  shows "digits_of b n = digits_of b m \<Longrightarrow> n = m"
proof (induction n arbitrary: m rule: less_induct)
  case (less n)
  show ?case
  proof (cases "n < b \<or> m < b")
    case True
    then have "n < b \<and> m < b"
      using less.prems assms
      by (cases "n < b"; cases "m < b") (auto simp: digits_of_small digits_of_step dest: sym)
    then show ?thesis
      using less.prems assms digit_char_inj16 [of n m] by (auto simp: digits_of_small)
  next
    case False
    then have eq: "digits_of b (n div b) = digits_of b (m div b)"
      and d: "digit_char (n mod b) = digit_char (m mod b)"
      using less.prems assms by (auto simp: digits_of_step)
    have "n mod b < 16" "m mod b < 16"
      using assms mod_less_divisor [of b n] mod_less_divisor [of b m] by linarith+
    then have "n mod b = m mod b" using d by (rule digit_char_inj16)
    moreover have "n div b = m div b"
      using less.IH [OF _ eq] False assms by simp
    ultimately show ?thesis by (metis div_mult_mod_eq)
  qed
qed

lemma length_digits_of_le:
  assumes "2 \<le> b"
  shows "n < b ^ Suc k \<Longrightarrow> length (digits_of b n) \<le> Suc k"
proof (induction k arbitrary: n)
  case 0
  then show ?case by (simp add: digits_of_small)
next
  case (Suc k)
  show ?case
  proof (cases "n < b")
    case True
    then show ?thesis by (simp add: digits_of_small)
  next
    case False
    have "n div b < b ^ Suc k"
      using Suc.prems assms by (simp add: div_less_iff_less_mult mult.commute)
    then show ?thesis using Suc.IH [of "n div b"] False assms by (simp add: digits_of_step)
  qed
qed

text \<open>The characters of a number, and the leading one, which is not zero unless the number is.\<close>

lemma digits_of_chars:
  assumes "2 \<le> b" and "b \<le> 16"
  shows "set (digits_of b n) \<subseteq> digit_char ` {..<16}"
proof (induction n rule: less_induct)
  case (less n)
  show ?case
  proof (cases "n < b")
    case True
    then show ?thesis using assms by (auto simp: digits_of_small)
  next
    case False
    have "n mod b < 16" using assms mod_less_divisor [of b n] by linarith
    then show ?thesis using False assms less.IH [of "n div b"] by (auto simp: digits_of_step)
  qed
qed

lemma digits_of_leading:
  assumes "2 \<le> b" and "b \<le> 16" and "0 < n"
  shows "hd (digits_of b n) \<noteq> CHR ''0''"
  using assms(3)
proof (induction n rule: less_induct)
  case (less n)
  show ?case
  proof (cases "n < b")
    case True
    have "digit_char n \<noteq> digit_char 0"
      using True assms less.prems digit_char_inj16 [of n 0] by linarith
    then show ?thesis using True by (simp add: digits_of_small digit_char_0)
  next
    case False
    then have "0 < n div b" and "n div b < n" using assms by (auto simp: div_greater_zero_iff)
    then show ?thesis using less.IH False assms by (simp add: digits_of_step)
  qed
qed

lemma digit_char_not_dash: "d < 16 \<Longrightarrow> digit_char d \<noteq> CHR ''-''"
  using of_char_digit [of d] by (auto split: if_splits)

lemma hex16_no_dash: "CHR ''-'' \<notin> set (hex16 i)"
proof -
  have "CHR ''-'' \<notin> set (digits_of 16 (unat i))"
    using digits_of_chars [of 16 "unat i"] digit_char_not_dash by fastforce
  then show ?thesis by (auto simp: hex16_def Let_def)
qed

lemma length_hex16: "16 \<le> length (hex16 i) \<and> length (hex16 i) \<le> 18"
proof -
  have "unat i < 16 ^ Suc 15" using unsigned_less [of i] by simp
  then have "length (digits_of 16 (unat i)) \<le> 16"
    using length_digits_of_le [of 16 "unat i" 15] by simp
  then show ?thesis by (auto simp: hex16_def Let_def)
qed

lemma hex16_inj: "hex16 i = hex16 j \<Longrightarrow> i = j"
proof -
  have strip: "dropWhile (\<lambda>c. c = CHR ''0'') (drop 2 (hex16 i)) = digits_of 16 (unat i)"
    if "i \<noteq> 0" for i :: ipm_id
  proof -
    have "hd (digits_of 16 (unat i)) \<noteq> CHR ''0''"
      using that digits_of_leading [of 16 "unat i"] by (simp add: unat_gt_0)
    then have "dropWhile (\<lambda>c. c = CHR ''0'') (digits_of 16 (unat i)) = digits_of 16 (unat i)"
      by (cases "digits_of 16 (unat i)") auto
    moreover have "dropWhile (\<lambda>c. c = CHR ''0'') (replicate k CHR ''0'' @ d) =
        dropWhile (\<lambda>c. c = CHR ''0'') d" for k and d :: string
      by (induction k) simp_all
    ultimately show ?thesis using that by (simp add: hex16_def Let_def)
  qed
  assume eq: "hex16 i = hex16 j"
  show "i = j"
  proof (cases "i = 0 \<or> j = 0")
    case True
    have second: "hex16 k ! 1 = (if k = 0 then CHR ''0'' else CHR ''X'')" for k
      by (simp add: hex16_def Let_def)
    have "hex16 i ! 1 = hex16 j ! 1" by (simp only: eq)
    then show ?thesis unfolding second using True by (simp split: if_splits)
  next
    case False
    then have "digits_of 16 (unat i) = digits_of 16 (unat j)" using strip eq by metis
    then have "unat i = unat j" by (rule digits_of_inj [rotated 2]) simp_all
    then show ?thesis by (simp add: word_unat_eq_iff)
  qed
qed

section \<open>The contract of the callbacks\<close>

text \<open>
  What the documentation of \<^verbatim>\<open>ipm_context\<close> asks of the callbacks: an allocation returns the null pointer or a
  block that is not in use, freeing gives back exactly that block, and reporting does not touch the
  blocks. \<open>live\<close> reads the blocks in use off the user's state; \<open>ok\<close> is the allocator's own invariant.
\<close>

locale callback_contract =
  fixes ctx :: "'h ipm_context"
    and live :: "'h \<Rightarrow> nat set"
    and ok :: "'h \<Rightarrow> bool"
  assumes alloc_law:
      "ok h \<Longrightarrow> alloc_callback ctx (alloc_param ctx) sz (e, h) = (p, e', h') \<Longrightarrow>
       ok h' \<and> (p = NULL \<and> live h' = live h \<or>
                (\<exists>n. p = Addr n \<and> n \<notin> live h \<and> live h' = insert n (live h)))"
    and free_law:
      "ok h \<Longrightarrow> n \<in> live h \<Longrightarrow> free_callback ctx (free_param ctx) (Addr n) (e, h) = (e', h') \<Longrightarrow>
       ok h' \<and> live h' = live h - {n}"
    and report_law:
      "ok h \<Longrightarrow> report_callback ctx = Some report \<Longrightarrow>
       report msg file line func (report_param ctx) (e, h) = (e', h') \<Longrightarrow>
       ok h' \<and> live h' = live h"
begin

lemma alloc_real_law:
  assumes "ok h" and "ipm_alloc_real ctx sz file line func (e, h) = (p, e', h')"
  shows "ok h' \<and> (p = NULL \<and> live h' = live h \<or>
                (\<exists>n. p = Addr n \<and> n \<notin> live h \<and> live h' = insert n (live h)))"
proof -
  obtain q e1 h1 where a: "alloc_callback ctx (alloc_param ctx) sz (e, h) = (q, e1, h1)"
    by (metis surj_pair)
  note law = alloc_law [OF assms(1) a]
  show ?thesis
  proof (cases "q = NULL")
    case False
    then show ?thesis using assms(2) law by (simp add: ipm_alloc_real_def a)
  next
    case True
    then show ?thesis using assms(2) law report_law
      by (cases "report_callback ctx") (auto simp: ipm_alloc_real_def a Let_def)
  qed
qed

lemma free_live:
  assumes "ok h" and "n \<in> live h" and "ipm_free ctx (Addr n) (e, h) = (e', h')"
  shows "ok h' \<and> live h' = live h - {n}"
  using free_law [OF assms(1,2)] assms(3) by (simp add: ipm_free_def)

lemma report_error_law:
  assumes "ok h" and "ipm_report_error ctx msg file line func (e, h) = (e', h')"
  shows "ok h' \<and> live h' = live h"
proof (cases "report_callback ctx")
  case None
  then show ?thesis using assms by (simp add: ipm_report_error_def)
next
  case (Some report)
  show ?thesis
  proof (cases "fmt_string msg = []")
    case True
    then show ?thesis using assms Some by (simp add: ipm_report_error_def)
  next
    case False
    let ?len = "word_of_nat (length (fmt_string msg)) + 1 :: size_t"
    obtain b e1 h1 where
      a: "ipm_alloc_real ctx ?len ''ipm_common.c'' 49 ''ipm_report_error'' (e, h) = (b, e1, h1)"
      by (metis surj_pair)
    note law = alloc_real_law [OF assms(1) a]
    show ?thesis
    proof (cases "b = NULL")
      case True
      then show ?thesis using assms Some False law by (simp add: ipm_report_error_def a)
    next
      case b: False
      then obtain n where n: "b = Addr n" "n \<notin> live h" "live h1 = insert n (live h)" "ok h1"
        using law by blast
      let ?text = "snprintf (nat (int (length (fmt_string msg)) + 1)) msg"
      obtain e2 h2 where r: "report ?text file line func (report_param ctx) (e1, h1) = (e2, h2)"
        by (metis surj_pair)
      have h2: "ok h2" "live h2 = insert n (live h)"
        using report_law [OF n(4) Some r] n(3) by simp_all
      have "ipm_free ctx (Addr n) (e2, h2) = (e', h')"
        using assms(2) Some False b n(1) by (simp add: ipm_report_error_def a r Let_def)
      then have "ok h' \<and> live h' = live h2 - {n}"
        using free_live h2 by blast
      then show ?thesis using h2 n(2) by simp
    qed
  qed
qed

end

text \<open>The callbacks of the test programs keep the contract.\<close>

definition test_host_ok :: "test_host \<Rightarrow> bool" where
  "test_host_ok h \<longleftrightarrow> (\<forall>n \<in> live_blocks h. n < next_block h)"

interpretation test_callbacks: callback_contract test_ctx live_blocks test_host_ok
proof
  show "test_host_ok h' \<and>
      (p = NULL \<and> live_blocks h' = live_blocks h \<or>
       (\<exists>n. p = Addr n \<and> n \<notin> live_blocks h \<and> live_blocks h' = insert n (live_blocks h)))"
    if "test_host_ok h"
      and "alloc_callback test_ctx (alloc_param test_ctx) sz (e, h) = (p, e', h')"
    for h sz e p e' h'
    using that
    by (force simp: test_ctx_def allocate_callback_def test_host_ok_def Let_def split: if_splits)
  show "test_host_ok h' \<and> live_blocks h' = live_blocks h - {n}"
    if "test_host_ok h" and "n \<in> live_blocks h"
      and "free_callback test_ctx (free_param test_ctx) (Addr n) (e, h) = (e', h')"
    for h n e e' h'
    using that
    by (auto simp: test_ctx_def deallocate_callback_def test_host_ok_def Let_def)
  show "test_host_ok h' \<and> live_blocks h' = live_blocks h"
    if "test_host_ok h" and "report_callback test_ctx = Some report"
      and "report msg fl line func (report_param test_ctx) (e, h) = (e', h')"
    for h report msg fl line func e e' h'
    using that
    by (auto simp: test_ctx_def common_error_report_fn_def test_host_ok_def)
qed

section \<open>Callbacks that do not fail\<close>

text \<open>
  Callbacks on which a call can rely for the next \<open>k\<close> allocations: each of them succeeds, and neither allocating, nor
  freeing, nor reporting changes \<^verbatim>\<open>errno\<close>.
\<close>

locale reliable_callbacks =
  fixes ctx :: "'h ipm_context"
    and good :: "nat \<Rightarrow> 'h \<Rightarrow> bool"
  assumes alloc_good:
      "good (Suc k) h \<Longrightarrow> alloc_callback ctx (alloc_param ctx) sz (e, h) = (p, e', h') \<Longrightarrow>
       p \<noteq> NULL \<and> e' = e \<and> good k h'"
    and free_good:
      "good k h \<Longrightarrow> free_callback ctx (free_param ctx) p (e, h) = (e', h') \<Longrightarrow> e' = e \<and> good k h'"
    and report_good:
      "good k h \<Longrightarrow> report_callback ctx = Some report \<Longrightarrow>
       report msg file line func (report_param ctx) (e, h) = (e', h') \<Longrightarrow> e' = e \<and> good k h'"
    and good_less: "good (Suc k) h \<Longrightarrow> good k h"
begin

lemma alloc_real_good:
  assumes "good (Suc k) h" and "ipm_alloc_real ctx sz file line func (e, h) = (p, e', h')"
  shows "p \<noteq> NULL \<and> e' = e \<and> good k h'"
proof -
  obtain q e1 h1 where a: "alloc_callback ctx (alloc_param ctx) sz (e, h) = (q, e1, h1)" by (metis surj_pair)
  show ?thesis using alloc_good [OF assms(1) a] assms(2) by (simp add: ipm_alloc_real_def a)
qed

lemma ipm_free_good:
  assumes "good k h" and "ipm_free ctx p (e, h) = (e', h')"
  shows "e' = e \<and> good k h'"
  using assms free_good by (auto simp: ipm_free_def split: if_splits)

lemma report_error_good:
  assumes "good (Suc k) h" and "ipm_report_error ctx msg file line func (e, h) = (e', h')"
  shows "e' = e \<and> good k h'"
proof (cases "report_callback ctx")
  case None
  then show ?thesis using assms good_less by (simp add: ipm_report_error_def)
next
  case (Some report)
  let ?len = "word_of_nat (length (fmt_string msg)) + 1 :: size_t"
  let ?text = "snprintf (nat (int (length (fmt_string msg)) + 1)) msg"
  obtain b e1 h1 where a: "ipm_alloc_real ctx ?len ''ipm_common.c'' 49 ''ipm_report_error'' (e, h) = (b, e1, h1)"
    by (metis surj_pair)
  note al = alloc_real_good [OF assms(1) a]
  obtain e2 h2 where r: "report ?text file line func (report_param ctx) (e, h1) = (e2, h2)" by (metis surj_pair)
  have "e2 = e \<and> good k h2" using report_good [OF _ Some r] al by blast
  then show ?thesis
    using al r ipm_free_good [of k h2 b e2 e' h'] assms Some good_less [OF assms(1)]
    by (auto simp: ipm_report_error_def a Let_def split: if_splits)
qed

end

text \<open>
  The callbacks of the test programs are reliable as long as \<^verbatim>\<open>malloc\<close> has memory left, and with the parameters that the library
  passes to them their assertions do not fail.
\<close>

definition malloc_lasts :: "nat \<Rightarrow> test_host \<Rightarrow> bool" where
  "malloc_lasts k h \<longleftrightarrow> k \<le> malloc_budget h \<and> \<not> bad_state h"

interpretation test_reliable: reliable_callbacks test_ctx malloc_lasts
  by unfold_locales
    (auto simp: test_ctx_def allocate_callback_def deallocate_callback_def common_error_report_fn_def malloc_lasts_def
      state_ptr_def Let_def split: ptr.splits if_splits)

end
