(* ===== verification/IPM_Platform.thy ===== *)
theory IPM_Platform
  imports IPM_Common
begin

text \<open>
  \<^verbatim>\<open>source/ipm_platform.c\<close>: the wrappers around POSIX semaphores, mutexes and condition variables. The
  POSIX objects are modelled as far as the wrappers use them. Calls that may fail for reasons outside
  the program take their result from a script of faults in the state, so a statement about all
  states covers every pattern of failures. A pthread function returns its error number and leaves
  \<^verbatim>\<open>errno\<close> alone; the semaphore functions return -1 and set \<^verbatim>\<open>errno\<close>.
\<close>

section \<open>State of the calling thread\<close>

text \<open>
  \<open>self\<close> is the calling thread, \<open>ndebug\<close> tells whether the library was built with \<^verbatim>\<open>NDEBUG\<close>, \<open>faults\<close> is
  the script (\<open>ENONE\<close> or the end of the script: no failure), and \<open>attr_live\<close> counts attribute objects
  that were initialised and not destroyed.
\<close>

record platform =
  self :: nat
  errno :: errno
  ndebug :: bool
  faults :: "errno list"
  attr_live :: int

definition next_fault :: "'a platform_scheme \<Rightarrow> errno \<times> 'a platform_scheme" where
  "next_fault w = (case faults w of [] \<Rightarrow> (ENONE, w) | e # es \<Rightarrow> (e, w\<lparr>faults := es\<rparr>))"

section \<open>POSIX objects\<close>

record mutex_attr =
  attr_pshared :: bool
  attr_errorcheck :: bool
  attr_robust :: bool

text \<open>
  A mutex is raw memory (never initialised, or destroyed) or an initialised mutex with its attributes. A
  robust mutex whose owner died is handed out once with \<^verbatim>\<open>EOWNERDEAD\<close>; if that holder unlocks it
  without marking it consistent it is lost for good.
\<close>

datatype lock_state = Unlocked | Locked nat | Owner_dead | Inconsistent nat | Not_recoverable

datatype ipm_mut = Mut_raw | Mut mutex_attr lock_state

text \<open>A condition variable: whether it is shared between processes, and how often it was notified.\<close>

datatype ipm_cnd = Cnd_raw | Cnd bool nat

text \<open>A semaphore: whether it is shared between processes, and its value.\<close>

datatype ipm_sem = Sem_raw | Sem bool nat

definition SEM_VALUE_MAX :: nat where
  "SEM_VALUE_MAX = 2147483647"

subsection \<open>Attributes and initialisation\<close>

definition pthread_attr_init :: "'a platform_scheme \<Rightarrow> errno \<times> 'a platform_scheme" where
  "pthread_attr_init w =
     (let (e, w) = next_fault w in (e, if e = ENONE then w\<lparr>attr_live := attr_live w + 1\<rparr> else w))"

definition pthread_attr_destroy :: "'a platform_scheme \<Rightarrow> 'a platform_scheme" where
  "pthread_attr_destroy w = w\<lparr>attr_live := attr_live w - 1\<rparr>"

definition default_attr :: mutex_attr where
  "default_attr = \<lparr>attr_pshared = False, attr_errorcheck = False, attr_robust = False\<rparr>"

definition attr_set ::
  "(mutex_attr \<Rightarrow> mutex_attr) \<Rightarrow> mutex_attr \<Rightarrow> 'a platform_scheme \<Rightarrow> errno \<times> mutex_attr \<times> 'a platform_scheme" where
  "attr_set f a w = (let (e, w) = next_fault w in (e, if e = ENONE then f a else a, w))"

definition pthread_mutex_init ::
  "mutex_attr \<Rightarrow> ipm_mut \<Rightarrow> 'a platform_scheme \<Rightarrow> errno \<times> ipm_mut \<times> 'a platform_scheme" where
  "pthread_mutex_init a m w =
     (let (e, w) = next_fault w in (e, if e = ENONE then Mut a Unlocked else m, w))"

definition pthread_cond_init ::
  "bool \<Rightarrow> ipm_cnd \<Rightarrow> 'a platform_scheme \<Rightarrow> errno \<times> ipm_cnd \<times> 'a platform_scheme" where
  "pthread_cond_init ps c w =
     (let (e, w) = next_fault w in (e, if e = ENONE then Cnd ps 0 else c, w))"

subsection \<open>Locking: error-checking, robust mutexes\<close>

fun pthread_mutex_lock :: "nat \<Rightarrow> ipm_mut \<Rightarrow> (errno \<times> ipm_mut) outcome" where
  "pthread_mutex_lock t Mut_raw = Ret (EINVAL, Mut_raw)"
| "pthread_mutex_lock t (Mut a Unlocked) = Ret (ENONE, Mut a (Locked t))"
| "pthread_mutex_lock t (Mut a (Locked u)) =
     (if t = u then Ret (EDEADLK, Mut a (Locked u)) else Blocked)"
| "pthread_mutex_lock t (Mut a Owner_dead) = Ret (EOWNERDEAD, Mut a (Inconsistent t))"
| "pthread_mutex_lock t (Mut a (Inconsistent u)) =
     (if t = u then Ret (EDEADLK, Mut a (Inconsistent u)) else Blocked)"
| "pthread_mutex_lock t (Mut a Not_recoverable) = Ret (ENOTRECOVERABLE, Mut a Not_recoverable)"

fun pthread_mutex_consistent :: "nat \<Rightarrow> ipm_mut \<Rightarrow> ipm_mut" where
  "pthread_mutex_consistent t (Mut a (Inconsistent u)) =
     (if t = u then Mut a (Locked u) else Mut a (Inconsistent u))"
| "pthread_mutex_consistent t m = m"

fun pthread_mutex_unlock :: "nat \<Rightarrow> ipm_mut \<Rightarrow> errno \<times> ipm_mut" where
  "pthread_mutex_unlock t Mut_raw = (EINVAL, Mut_raw)"
| "pthread_mutex_unlock t (Mut a (Locked u)) =
     (if t = u then (ENONE, Mut a Unlocked) else (EPERM, Mut a (Locked u)))"
| "pthread_mutex_unlock t (Mut a (Inconsistent u)) =
     (if t = u then (ENONE, Mut a Not_recoverable) else (EPERM, Mut a (Inconsistent u)))"
| "pthread_mutex_unlock t (Mut a s) = (EPERM, Mut a s)"

fun pthread_mutex_destroy :: "ipm_mut \<Rightarrow> errno \<times> ipm_mut" where
  "pthread_mutex_destroy Mut_raw = (EINVAL, Mut_raw)"
| "pthread_mutex_destroy (Mut a (Locked u)) = (EBUSY, Mut a (Locked u))"
| "pthread_mutex_destroy (Mut a (Inconsistent u)) = (EBUSY, Mut a (Inconsistent u))"
| "pthread_mutex_destroy (Mut a s) = (ENONE, Mut_raw)"

subsection \<open>Waiting\<close>

text \<open>
  \<^verbatim>\<open>pthread_cond_wait\<close> on a mutex inside a shared state \<open>s\<close>: it checks its arguments, releases the mutex
  and sleeps, other processes change the state by \<open>others\<close> (which is \<open>Blocked\<close> if nobody ever notifies the
  sleeper), and it takes the mutex again before it returns.
\<close>

definition pthread_cond_wait ::
  "nat \<Rightarrow> errno \<Rightarrow> ('s \<Rightarrow> ipm_cnd) \<Rightarrow> ('s \<Rightarrow> ipm_mut) \<Rightarrow> ((ipm_mut \<Rightarrow> ipm_mut) \<Rightarrow> 's \<Rightarrow> 's) \<Rightarrow>
     ('s \<Rightarrow> 's outcome) \<Rightarrow> 's \<Rightarrow> (errno \<times> 's) outcome" where
  "pthread_cond_wait t fault cnd mtx mtx_update others s =
     (if fault \<noteq> ENONE then Ret (fault, s)
      else if cnd s = Cnd_raw then Ret (EINVAL, s)
      else
        (let (e, m) = pthread_mutex_unlock t (mtx s)
         in if e \<noteq> ENONE then Ret (e, s)
            else
              bind_outcome (others (mtx_update (\<lambda>_. m) s)) (\<lambda>s.
              bind_outcome (pthread_mutex_lock t (mtx s)) (\<lambda>(e, m).
              Ret (e, mtx_update (\<lambda>_. m) s)))))"

fun pthread_cond_signal :: "ipm_cnd \<Rightarrow> errno \<times> ipm_cnd" where
  "pthread_cond_signal Cnd_raw = (EINVAL, Cnd_raw)"
| "pthread_cond_signal (Cnd ps n) = (ENONE, Cnd ps (Suc n))"

fun pthread_cond_broadcast :: "ipm_cnd \<Rightarrow> errno \<times> ipm_cnd" where
  "pthread_cond_broadcast Cnd_raw = (EINVAL, Cnd_raw)"
| "pthread_cond_broadcast (Cnd ps n) = (ENONE, Cnd ps (Suc n))"

fun pthread_cond_destroy :: "ipm_cnd \<Rightarrow> errno \<times> ipm_cnd" where
  "pthread_cond_destroy Cnd_raw = (EINVAL, Cnd_raw)"
| "pthread_cond_destroy (Cnd ps n) = (ENONE, Cnd_raw)"

subsection \<open>Semaphores of the system\<close>

text \<open>
  The functions of \<^verbatim>\<open>semaphore.h\<close> return 0, or -1 and the reason in \<^verbatim>\<open>errno\<close>: an initial value above \<open>SEM_VALUE_MAX\<close>, memory that
  is no semaphore, and a post at the greatest value are refused; starting and waiting may fail for reasons of the system.
\<close>

definition sem_init ::
  "bool \<Rightarrow> uint32 \<Rightarrow> ipm_sem \<Rightarrow> 'a platform_scheme \<Rightarrow> int \<times> ipm_sem \<times> 'a platform_scheme" where
  "sem_init pshared val p w =
     (let (e, w) = next_fault w
      in if e \<noteq> ENONE then (- 1, p, w\<lparr>errno := e\<rparr>)
         else if SEM_VALUE_MAX < unat val then (- 1, p, w\<lparr>errno := EINVAL\<rparr>)
         else (0, Sem pshared (unat val), w))"

definition sem_destroy :: "ipm_sem \<Rightarrow> 'a platform_scheme \<Rightarrow> int \<times> ipm_sem \<times> 'a platform_scheme" where
  "sem_destroy p w = (if p = Sem_raw then (- 1, Sem_raw, w\<lparr>errno := EINVAL\<rparr>) else (0, Sem_raw, w))"

fun sem_post :: "ipm_sem \<Rightarrow> 'a platform_scheme \<Rightarrow> int \<times> ipm_sem \<times> 'a platform_scheme" where
  "sem_post Sem_raw w = (- 1, Sem_raw, w\<lparr>errno := EINVAL\<rparr>)"
| "sem_post (Sem ps n) w =
     (if n < SEM_VALUE_MAX then (0, Sem ps (Suc n), w) else (- 1, Sem ps n, w\<lparr>errno := EOTHER 75\<rparr>))"

definition sem_wait :: "ipm_sem \<Rightarrow> 'a platform_scheme \<Rightarrow> (int \<times> ipm_sem \<times> 'a platform_scheme) outcome" where
  "sem_wait p w =
     (let (e, w) = next_fault w
      in if e \<noteq> ENONE then Ret (- 1, p, w\<lparr>errno := e\<rparr>)
         else (case p of
                 Sem_raw \<Rightarrow> Ret (- 1, p, w\<lparr>errno := EINVAL\<rparr>)
               | Sem ps 0 \<Rightarrow> Blocked
               | Sem ps (Suc n) \<Rightarrow> Ret (0, Sem ps n, w)))"

text \<open>The value goes to \<open>out\<close>, which keeps what it holds if there is no semaphore.\<close>

fun sem_getvalue :: "ipm_sem \<Rightarrow> int \<Rightarrow> 'a platform_scheme \<Rightarrow> int \<times> int \<times> 'a platform_scheme" where
  "sem_getvalue Sem_raw out w = (- 1, out, w\<lparr>errno := EINVAL\<rparr>)"
| "sem_getvalue (Sem ps n) out w = (0, int n, w)"

section \<open>Semaphores\<close>

definition ipm_semaphore_init ::
  "uint32 \<Rightarrow> ipm_sem \<Rightarrow> 'a platform_scheme \<Rightarrow> ipm_result \<times> ipm_sem \<times> 'a platform_scheme" where
  "ipm_semaphore_init val p_sem w =
     (let (ret, p_sem, w) = sem_init True val p_sem w
      in if ret \<noteq> 0 then (IPM_RESULT_ERR_NO_SEM, p_sem, w) else (IPM_RESULT_SUCCESS, p_sem, w))"

definition ipm_semaphore_destroy :: "ipm_sem \<Rightarrow> 'a platform_scheme \<Rightarrow> ipm_sem \<times> 'a platform_scheme" where
  "ipm_semaphore_destroy p_sem w = (let (_, p_sem, w) = sem_destroy p_sem w in (p_sem, w))"

definition ipm_semaphore_post :: "ipm_sem \<Rightarrow> 'a platform_scheme \<Rightarrow> ipm_sem \<times> 'a platform_scheme" where
  "ipm_semaphore_post p_sem w = (let (ret, p_sem, w) = sem_post p_sem w in (p_sem, w))"

definition ipm_semaphore_wait ::
  "ipm_sem \<Rightarrow> 'a platform_scheme \<Rightarrow> (ipm_result \<times> ipm_sem \<times> 'a platform_scheme) outcome" where
  "ipm_semaphore_wait p_sem w =
     bind_outcome (sem_wait p_sem w) (\<lambda>(res, p_sem, w).
     if res < 0 then Ret (IPM_RESULT_ERR_NO_SEM_WAIT, p_sem, w) else Ret (IPM_RESULT_SUCCESS, p_sem, w))"

definition ipm_semaphore_count :: "ipm_sem \<Rightarrow> 'a platform_scheme \<Rightarrow> uint32 \<times> 'a platform_scheme" where
  "ipm_semaphore_count p_sem w =
     (let (ret, out, w) = sem_getvalue p_sem 0 w
      in if ret < 0 then (- 1, w) else (word_of_int out, w))"

section \<open>Mutexes\<close>

text \<open>The \<^verbatim>\<open>switch (errno)\<close> of each wrapper is a function of the value of \<^verbatim>\<open>errno\<close>.\<close>

fun mutex_init_error :: "errno \<Rightarrow> ipm_result" where
  "mutex_init_error EAGAIN = IPM_RESULT_ERR_OS_OUT_OF_MEMORY"
| "mutex_init_error ENOMEM = IPM_RESULT_ERR_OS_OUT_OF_MEMORY"
| "mutex_init_error EPERM = IPM_RESULT_ERR_ACCESS"
| "mutex_init_error EBUSY = IPM_RESULT_ERR_BAD_INIT"
| "mutex_init_error EINVAL = IPM_RESULT_ERR_BAD_VALUE"
| "mutex_init_error _ = IPM_RESULT_ERR_OS_UNEXPECTED"

definition ipm_mutex_init ::
  "ipm_mut \<Rightarrow> 'a platform_scheme \<Rightarrow> ipm_result \<times> ipm_mut \<times> 'a platform_scheme" where
  "ipm_mutex_init p_mtx w =
     (let (res, w) = pthread_attr_init w
      in if res \<noteq> ENONE then (IPM_RESULT_ERR_OS_UNEXPECTED, p_mtx, w)
         else
     (let (res, a, w) = attr_set (attr_pshared_update (\<lambda>_. True)) default_attr w
      in if res \<noteq> ENONE then (IPM_RESULT_ERR_OS_UNEXPECTED, p_mtx, pthread_attr_destroy w)
         else
     (let (res, a, w) = attr_set (attr_errorcheck_update (\<lambda>_. True)) a w
      in if res \<noteq> ENONE then (IPM_RESULT_ERR_OS_UNEXPECTED, p_mtx, pthread_attr_destroy w)
         else
     (let (res, a, w) = attr_set (attr_robust_update (\<lambda>_. True)) a w
      in if res \<noteq> ENONE then (IPM_RESULT_ERR_OS_UNEXPECTED, p_mtx, pthread_attr_destroy w)
         else
     (let (res, m, w) = pthread_mutex_init a p_mtx w
      in if res \<noteq> ENONE then (mutex_init_error (errno w), m, pthread_attr_destroy w)
         else (IPM_RESULT_SUCCESS, m, pthread_attr_destroy w))))))"

definition ipm_mutex_lock ::
  "ipm_mut \<Rightarrow> 'a platform_scheme \<Rightarrow> (ipm_result \<times> ipm_mut) outcome" where
  "ipm_mutex_lock mtx w =
     bind_outcome (pthread_mutex_lock (self w) mtx)
       (\<lambda>(res, mtx).
          if res = EOWNERDEAD then Ret (IPM_RESULT_SUCCESS, pthread_mutex_consistent (self w) mtx)
          else if res \<noteq> ENONE then
            (case errno w of
               EINVAL \<Rightarrow> Ret (IPM_RESULT_ERR_BAD_VALUE, mtx)
             | EDEADLK \<Rightarrow> Ret (IPM_RESULT_ERR_DEADLOCK, mtx)
             | EOWNERDEAD \<Rightarrow> Ret (IPM_RESULT_SUCCESS, pthread_mutex_consistent (self w) mtx)
             | _ \<Rightarrow> Ret (IPM_RESULT_ERR_OS_UNEXPECTED, mtx))
          else Ret (IPM_RESULT_SUCCESS, mtx))"

fun mutex_unlock_error :: "errno \<Rightarrow> ipm_result" where
  "mutex_unlock_error EPERM = IPM_RESULT_ERR_NOT_LOCKED"
| "mutex_unlock_error _ = IPM_RESULT_ERR_OS_UNEXPECTED"

definition ipm_mutex_unlock :: "ipm_mut \<Rightarrow> 'a platform_scheme \<Rightarrow> ipm_result \<times> ipm_mut" where
  "ipm_mutex_unlock mtx w =
     (let (res, mtx) = pthread_mutex_unlock (self w) mtx
      in if res \<noteq> ENONE then (mutex_unlock_error (errno w), mtx) else (IPM_RESULT_SUCCESS, mtx))"

fun destroy_error :: "errno \<Rightarrow> ipm_result" where
  "destroy_error EBUSY = IPM_RESULT_ERR_ALREADY_LOCKED"
| "destroy_error EINVAL = IPM_RESULT_ERR_BAD_VALUE"
| "destroy_error _ = IPM_RESULT_ERR_OS_UNEXPECTED"

definition ipm_mutex_destroy :: "ipm_mut \<Rightarrow> 'a platform_scheme \<Rightarrow> ipm_result \<times> ipm_mut" where
  "ipm_mutex_destroy mtx w =
     (let (res, mtx) = pthread_mutex_destroy mtx
      in if res \<noteq> ENONE then (destroy_error (errno w), mtx) else (IPM_RESULT_SUCCESS, mtx))"

section \<open>Condition variables\<close>

text \<open>
  The \<^verbatim>\<open>switch\<close> of \<^verbatim>\<open>ipm_condition_init\<close> has no default: for another value of \<^verbatim>\<open>errno\<close> control falls out
  of it (\<open>None\<close>), destroys the attributes again and returns success.
\<close>

fun condition_init_error :: "errno \<Rightarrow> ipm_result option" where
  "condition_init_error EAGAIN = Some IPM_RESULT_ERR_OS_OUT_OF_MEMORY"
| "condition_init_error ENOMEM = Some IPM_RESULT_ERR_OS_OUT_OF_MEMORY"
| "condition_init_error EBUSY = Some IPM_RESULT_ERR_BAD_INIT"
| "condition_init_error EINVAL = Some IPM_RESULT_ERR_BAD_VALUE"
| "condition_init_error _ = None"

definition ipm_condition_init ::
  "ipm_cnd \<Rightarrow> 'a platform_scheme \<Rightarrow> ipm_result \<times> ipm_cnd \<times> 'a platform_scheme" where
  "ipm_condition_init p_cnd w =
     (let (res, w) = pthread_attr_init w
      in if res \<noteq> ENONE then (IPM_RESULT_ERR_OS_UNEXPECTED, p_cnd, w)
         else
     (let (res, w) = next_fault w
      in if res \<noteq> ENONE then (IPM_RESULT_ERR_OS_UNEXPECTED, p_cnd, pthread_attr_destroy w)
         else
     (let (res, c, w) = pthread_cond_init True p_cnd w
      in if res \<noteq> ENONE then
           (let w = pthread_attr_destroy w
            in (case condition_init_error (errno w) of
                  Some r \<Rightarrow> (r, c, w)
                | None \<Rightarrow> (IPM_RESULT_SUCCESS, c, pthread_attr_destroy w)))
         else (IPM_RESULT_SUCCESS, c, pthread_attr_destroy w))))"

fun condition_wait_error :: "errno \<Rightarrow> ipm_result" where
  "condition_wait_error EINVAL = IPM_RESULT_ERR_BAD_VALUE"
| "condition_wait_error EPERM = IPM_RESULT_ERR_NOT_LOCKED"
| "condition_wait_error _ = IPM_RESULT_ERR_OS_UNEXPECTED"

definition ipm_condition_wait ::
  "('s \<Rightarrow> ipm_cnd) \<Rightarrow> ('s \<Rightarrow> ipm_mut) \<Rightarrow> ((ipm_mut \<Rightarrow> ipm_mut) \<Rightarrow> 's \<Rightarrow> 's) \<Rightarrow>
     ('s \<Rightarrow> 's outcome) \<Rightarrow> 's \<Rightarrow> 'a platform_scheme \<Rightarrow> (ipm_result \<times> 's \<times> 'a platform_scheme) outcome" where
  "ipm_condition_wait cnd mtx mtx_update others s w =
     (let (fault, w) = next_fault w
      in bind_outcome (pthread_cond_wait (self w) fault cnd mtx mtx_update others s)
           (\<lambda>(res, s).
              if res \<noteq> ENONE then Ret (condition_wait_error (errno w), s, w)
              else Ret (IPM_RESULT_SUCCESS, s, w)))"

fun condition_signal_error :: "errno \<Rightarrow> ipm_result" where
  "condition_signal_error EINVAL = IPM_RESULT_ERR_BAD_VALUE"
| "condition_signal_error _ = IPM_RESULT_ERR_OS_UNEXPECTED"

definition ipm_condition_broadcast :: "ipm_cnd \<Rightarrow> 'a platform_scheme \<Rightarrow> ipm_result \<times> ipm_cnd" where
  "ipm_condition_broadcast cnd w =
     (let (res, cnd) = pthread_cond_broadcast cnd
      in if res \<noteq> ENONE then (condition_signal_error (errno w), cnd) else (IPM_RESULT_SUCCESS, cnd))"

definition ipm_condition_signal :: "ipm_cnd \<Rightarrow> 'a platform_scheme \<Rightarrow> ipm_result \<times> ipm_cnd" where
  "ipm_condition_signal cnd w =
     (let (res, cnd) = pthread_cond_signal cnd
      in if res \<noteq> ENONE then (condition_signal_error (errno w), cnd) else (IPM_RESULT_SUCCESS, cnd))"

definition ipm_condition_destroy :: "ipm_cnd \<Rightarrow> 'a platform_scheme \<Rightarrow> ipm_result \<times> ipm_cnd" where
  "ipm_condition_destroy cnd w =
     (let (res, cnd) = pthread_cond_destroy cnd
      in if res \<noteq> ENONE then (destroy_error (errno w), cnd) else (IPM_RESULT_SUCCESS, cnd))"

section \<open>The error tables never say success\<close>

lemma mutex_init_error_ne [simp]: "mutex_init_error e \<noteq> IPM_RESULT_SUCCESS"
  by (cases e) simp_all

lemma mutex_unlock_error_ne [simp]: "mutex_unlock_error e \<noteq> IPM_RESULT_SUCCESS"
  by (cases e) simp_all

lemma destroy_error_ne [simp]: "destroy_error e \<noteq> IPM_RESULT_SUCCESS"
  by (cases e) simp_all

lemma condition_init_error_ne [simp]: "condition_init_error e \<noteq> Some IPM_RESULT_SUCCESS"
  by (cases e) simp_all

lemma condition_wait_error_ne [simp]: "condition_wait_error e \<noteq> IPM_RESULT_SUCCESS"
  by (cases e) simp_all

lemma condition_signal_error_ne [simp]: "condition_signal_error e \<noteq> IPM_RESULT_SUCCESS"
  by (cases e) simp_all

section \<open>The mutex as an interface\<close>

text \<open>
  What the components that lock rely on. \<open>w\<close> is the calling context and \<open>who w\<close> the caller; \<open>calm w\<close> is the
  condition on the context under which the laws hold, \<open>usable m\<close> says the mutex can be locked at all, and
  \<open>holder m\<close> is its owner.
\<close>

locale mutex_interface =
  fixes lock :: "'w \<Rightarrow> 'm \<Rightarrow> (ipm_result \<times> 'm) outcome"
    and unlock :: "'w \<Rightarrow> 'm \<Rightarrow> ipm_result \<times> 'm"
    and who :: "'w \<Rightarrow> nat"
    and calm :: "'w \<Rightarrow> bool"
    and holder :: "'m \<Rightarrow> nat option"
    and usable :: "'m \<Rightarrow> bool"
  assumes lock_free:
      "calm w \<Longrightarrow> usable m \<Longrightarrow> holder m = None \<Longrightarrow>
       \<exists>m'. lock w m = Ret (IPM_RESULT_SUCCESS, m') \<and> usable m' \<and> holder m' = Some (who w)"
    and lock_busy:
      "calm w \<Longrightarrow> usable m \<Longrightarrow> holder m = Some u \<Longrightarrow> u \<noteq> who w \<Longrightarrow> lock w m = Blocked"
    and lock_own:
      "calm w \<Longrightarrow> usable m \<Longrightarrow> holder m = Some (who w) \<Longrightarrow>
       \<exists>r. lock w m = Ret (r, m) \<and> r \<noteq> IPM_RESULT_SUCCESS"
    and unlock_held:
      "usable m \<Longrightarrow> holder m = Some (who w) \<Longrightarrow>
       \<exists>m'. unlock w m = (IPM_RESULT_SUCCESS, m') \<and> usable m' \<and> holder m' = None"
    and unlock_other:
      "usable m \<Longrightarrow> holder m \<noteq> Some (who w) \<Longrightarrow>
       \<exists>r. unlock w m = (r, m) \<and> r \<noteq> IPM_RESULT_SUCCESS"
begin

lemma lock_success:
  assumes "calm w" and "usable m" and "lock w m = Ret (IPM_RESULT_SUCCESS, m')"
  shows "holder m = None \<and> holder m' = Some (who w) \<and> usable m'"
proof (cases "holder m")
  case None
  then show ?thesis using lock_free [OF assms(1,2)] assms(3) by auto
next
  case (Some u)
  then show ?thesis
    using lock_busy [OF assms(1,2), of u] lock_own [OF assms(1,2)] assms(3)
    by (cases "u = who w") auto
qed

lemma exclusion:
  assumes "calm w" and "calm v" and "usable m" and "who v \<noteq> who w"
    and "lock w m = Ret (IPM_RESULT_SUCCESS, m')"
  shows "lock v m' = Blocked"
  using lock_success [OF assms(1,3,5)] lock_busy [OF assms(2)] assms(4) by metis

lemma critical_section:
  assumes "calm w" and "usable m" and "lock w m = Ret (IPM_RESULT_SUCCESS, m')"
  shows "\<exists>m''. unlock w m' = (IPM_RESULT_SUCCESS, m'') \<and> usable m'' \<and> holder m'' = None"
  using lock_success [OF assms] unlock_held by blast

end

fun mut_holder :: "ipm_mut \<Rightarrow> nat option" where
  "mut_holder (Mut a (Locked u)) = Some u"
| "mut_holder _ = None"

fun mut_usable :: "ipm_mut \<Rightarrow> bool" where
  "mut_usable (Mut a Unlocked) = True"
| "mut_usable (Mut a (Locked u)) = True"
| "mut_usable (Mut a Owner_dead) = True"
| "mut_usable _ = False"

definition calm :: "'a platform_scheme \<Rightarrow> bool" where
  "calm w \<longleftrightarrow> errno w \<noteq> EOWNERDEAD"

lemma mut_usable_cases:
  assumes "mut_usable m"
  obtains (free) a where "m = Mut a Unlocked"
    | (held) a u where "m = Mut a (Locked u)"
    | (dead) a where "m = Mut a Owner_dead"
  using assms by (cases m rule: mut_usable.cases) auto

lemma ipm_mutex_lock_Unlocked [simp]:
  "ipm_mutex_lock (Mut a Unlocked) w = Ret (IPM_RESULT_SUCCESS, Mut a (Locked (self w)))"
  by (simp add: ipm_mutex_lock_def)

lemma ipm_mutex_lock_Owner_dead [simp]:
  "ipm_mutex_lock (Mut a Owner_dead) w = Ret (IPM_RESULT_SUCCESS, Mut a (Locked (self w)))"
  by (simp add: ipm_mutex_lock_def)

lemma ipm_mutex_lock_busy [simp]:
  "u \<noteq> self w \<Longrightarrow> ipm_mutex_lock (Mut a (Locked u)) w = Blocked"
  by (simp add: ipm_mutex_lock_def)

lemma ipm_mutex_unlock_held [simp]:
  "ipm_mutex_unlock (Mut a (Locked (self w))) w = (IPM_RESULT_SUCCESS, Mut a Unlocked)"
  by (simp add: ipm_mutex_unlock_def)

interpretation mutex: mutex_interface
  "\<lambda>w m. ipm_mutex_lock m w" "\<lambda>w m. ipm_mutex_unlock m w" self calm mut_holder mut_usable
proof
  fix w :: "'a platform_scheme" and m :: ipm_mut
  assume "calm w" and "mut_usable m" and "mut_holder m = None"
  then show "\<exists>m'. ipm_mutex_lock m w = Ret (IPM_RESULT_SUCCESS, m') \<and> mut_usable m' \<and>
      mut_holder m' = Some (self w)"
    by (auto elim!: mut_usable_cases)
next
  fix w :: "'a platform_scheme" and m :: ipm_mut and u
  assume "calm w" and "mut_usable m" and "mut_holder m = Some u" and "u \<noteq> self w"
  then show "ipm_mutex_lock m w = Blocked"
    by (auto elim!: mut_usable_cases)
next
  fix w :: "'a platform_scheme" and m :: ipm_mut
  assume "calm w" and "mut_usable m" and "mut_holder m = Some (self w)"
  then show "\<exists>r. ipm_mutex_lock m w = Ret (r, m) \<and> r \<noteq> IPM_RESULT_SUCCESS"
    by (auto elim!: mut_usable_cases simp: ipm_mutex_lock_def calm_def split: errno.split)
next
  fix w :: "'a platform_scheme" and m :: ipm_mut
  assume "mut_usable m" and "mut_holder m = Some (self w)"
  then show "\<exists>m'. ipm_mutex_unlock m w = (IPM_RESULT_SUCCESS, m') \<and> mut_usable m' \<and>
      mut_holder m' = None"
    by (auto elim!: mut_usable_cases)
next
  fix w :: "'a platform_scheme" and m :: ipm_mut
  assume "mut_usable m" and "mut_holder m \<noteq> Some (self w)"
  then show "\<exists>r. ipm_mutex_unlock m w = (r, m) \<and> r \<noteq> IPM_RESULT_SUCCESS"
    by (auto elim!: mut_usable_cases simp: ipm_mutex_unlock_def)
qed

section \<open>Initialisation\<close>

definition shared_robust :: mutex_attr where
  "shared_robust = \<lparr>attr_pshared = True, attr_errorcheck = True, attr_robust = True\<rparr>"

lemmas init_defs = pthread_attr_init_def pthread_attr_destroy_def attr_set_def
  pthread_mutex_init_def pthread_cond_init_def next_fault_def Let_def

text \<open>A mutex wrapper initialises completely or leaves the memory alone, and never leaks its attributes.\<close>

lemma ipm_mutex_init_cases:
  assumes "ipm_mutex_init m w = (r, m', w')"
  shows "(r = IPM_RESULT_SUCCESS \<and> m' = Mut shared_robust Unlocked \<or> r \<noteq> IPM_RESULT_SUCCESS \<and> m' = m) \<and>
    attr_live w' = attr_live w \<and> errno w' = errno w \<and> self w' = self w \<and> ndebug w' = ndebug w"
  using assms
  by (auto simp: ipm_mutex_init_def init_defs default_attr_def shared_robust_def
      split: list.splits if_splits)

text \<open>Waiting consumes the script of faults and changes nothing else of the caller.\<close>

lemma ipm_condition_wait_frame:
  "ipm_condition_wait cnd mtx upd sl s w = Ret (r, s', w') \<Longrightarrow>
   \<exists>fs. w' = w\<lparr>faults := fs\<rparr>"
  by (cases w)
    (auto simp: ipm_condition_wait_def next_fault_def outcome_simps Let_def
      split: prod.splits if_splits list.splits)

lemma ipm_condition_init_cases:
  assumes "ipm_condition_init c w = (r, c', w')"
  shows "self w' = self w \<and> ndebug w' = ndebug w \<and> errno w' = errno w \<and>
    (r = IPM_RESULT_SUCCESS \<and> c' = Cnd True 0 \<and> attr_live w' = attr_live w \<or>
     r \<noteq> IPM_RESULT_SUCCESS \<and> c' = c \<and> attr_live w' = attr_live w \<or>
     r = IPM_RESULT_SUCCESS \<and> c' = c \<and> attr_live w' = attr_live w - 1 \<and> condition_init_error (errno w) = None \<and>
       (\<exists>es. faults w = ENONE # ENONE # es \<and> es \<noteq> [] \<and> hd es \<noteq> ENONE))"
  using assms
  by (cases "faults w"; cases "tl (faults w)"; cases "tl (tl (faults w))")
    (auto simp: ipm_condition_init_def init_defs split: list.splits if_splits option.splits)

fun sem_ok :: "ipm_sem \<Rightarrow> bool" where
  "sem_ok Sem_raw = True"
| "sem_ok (Sem ps n) = (n \<le> SEM_VALUE_MAX)"

section \<open>Properties\<close>

text \<open>
  C30. The mutex wrapper is a lock: when \<^verbatim>\<open>ipm_mutex_lock\<close> reports success on a usable mutex (free, locked, or left by a dead owner), nobody held it before, every
  other thread that tries to lock it sleeps and cannot unlock it, and the holder's unlock succeeds and
  leaves a free, usable mutex. This includes a mutex whose owner died. \<^verbatim>\<open>errno\<close> must not hold a stale
  \<^verbatim>\<open>EOWNERDEAD\<close>, since the wrapper consults it.
\<close>

theorem mutex_lock_excludes:
  fixes w v :: "'a platform_scheme"
  assumes "calm w" and "calm v" and "mut_usable m" and "self v \<noteq> self w"
    and "ipm_mutex_lock m w = Ret (IPM_RESULT_SUCCESS, m')"
  shows "mut_holder m = None \<and> ipm_mutex_lock m' v = Blocked \<and>
    (\<exists>r. ipm_mutex_unlock m' v = (r, m') \<and> r \<noteq> IPM_RESULT_SUCCESS) \<and>
    (\<exists>m''. ipm_mutex_unlock m' w = (IPM_RESULT_SUCCESS, m'') \<and> mut_usable m'' \<and> mut_holder m'' = None)"
  using mutex.lock_success [OF assms(1,3,5)] mutex.exclusion [OF assms(1-5)]
    mutex.critical_section [OF assms(1,3,5)] mutex.unlock_other [of m' v] assms(4) by simp

theorem mutex_lock_excludes_witness:
  "ipm_mutex_lock (Mut shared_robust (Locked 1))
     \<lparr>self = 2, errno = ENONE, ndebug = False, faults = [], attr_live = 0\<rparr> = Blocked"
  using mutex_lock_excludes [of "\<lparr>self = 1, errno = ENONE, ndebug = False, faults = [], attr_live = 0\<rparr>"
      "\<lparr>self = 2, errno = ENONE, ndebug = False, faults = [], attr_live = 0\<rparr>" "Mut shared_robust Owner_dead"]
  by (simp add: calm_def)

text \<open>
  A stale \<^verbatim>\<open>errno\<close> defeats the lock: the wrapper takes the reason of a failure from \<^verbatim>\<open>errno\<close>, which \<^verbatim>\<open>pthread_mutex_lock\<close>
  does not set. With \<^verbatim>\<open>EOWNERDEAD\<close> left there it reports success for every lock that fails without
  sleeping, also on memory that is no mutex and on a mutex that can never be locked again.
\<close>

lemma mutex_lock_stale_errno:
  assumes "errno w = EOWNERDEAD"
  shows "ipm_mutex_lock Mut_raw w = Ret (IPM_RESULT_SUCCESS, Mut_raw) \<and>
    ipm_mutex_lock (Mut a Not_recoverable) w = Ret (IPM_RESULT_SUCCESS, Mut a Not_recoverable) \<and>
    ipm_mutex_lock (Mut a (Locked (self w))) w = Ret (IPM_RESULT_SUCCESS, Mut a (Locked (self w)))"
  using assms by (simp add: ipm_mutex_lock_def)

text \<open>
  C31. Initialising under any script of failures: a mutex is initialised as shared, error-checking and robust, or an
  error is returned and the memory is untouched; the attribute objects are always given back. A
  condition variable behaves the same with one exception: if \<^verbatim>\<open>pthread_cond_init\<close> itself fails while
  \<^verbatim>\<open>errno\<close> holds a value the \<^verbatim>\<open>switch\<close> does not list, success is returned for a condition variable that
  was not initialised and the attributes are destroyed twice.
\<close>

theorem platform_init_outcomes:
  "(case ipm_mutex_init m w of (r, m', w') \<Rightarrow>
      attr_live w' = attr_live w \<and>
      (if r = IPM_RESULT_SUCCESS then m' = Mut shared_robust Unlocked else m' = m)) \<and>
   (case ipm_condition_init c w of (r, c', w') \<Rightarrow>
      (if attr_live w' = attr_live w then (if r = IPM_RESULT_SUCCESS then c' = Cnd True 0 else c' = c)
       else r = IPM_RESULT_SUCCESS \<and> c' = c \<and> attr_live w' = attr_live w - 1 \<and>
         condition_init_error (errno w) = None \<and>
         (\<exists>es. faults w = ENONE # ENONE # es \<and> es \<noteq> [] \<and> hd es \<noteq> ENONE)))"
proof -
  obtain r m' w1 where m: "ipm_mutex_init m w = (r, m', w1)" by (metis surj_pair)
  obtain r' c' w2 where c: "ipm_condition_init c w = (r', c', w2)" by (metis surj_pair)
  show ?thesis
    using ipm_mutex_init_cases [OF m] ipm_condition_init_cases [OF c] by (auto simp: m c)
qed

text \<open>
  C40. The semaphores under any script of failures. \<^verbatim>\<open>ipm_semaphore_init\<close> reports success exactly if the system call does not fail
  and the value is allowed, and then there is a semaphore with that value that processes can share; otherwise it
  reports \<^verbatim>\<open>IPM_RESULT_ERR_NO_SEM\<close> and the memory is untouched. \<^verbatim>\<open>ipm_semaphore_wait\<close> sleeps for ever only on the value
  zero, reports success exactly if it has taken one, and otherwise \<^verbatim>\<open>IPM_RESULT_ERR_NO_SEM_WAIT\<close> with the semaphore as it
  was. \<^verbatim>\<open>ipm_semaphore_count\<close> returns the value of a semaphore, and \<^verbatim>\<open>(unsigned) -1\<close> exactly if there is none. \<^verbatim>\<open>ipm_semaphore_post\<close>
  adds one below the greatest value; at the greatest value, or without a semaphore, it changes nothing and its
  caller is not told.
\<close>

theorem semaphore_outcomes:
  assumes "sem_ok p"
  shows "(case ipm_semaphore_init val p w of (r, q, _) \<Rightarrow>
      if fst (next_fault w) = ENONE \<and> unat val \<le> SEM_VALUE_MAX
      then r = IPM_RESULT_SUCCESS \<and> q = Sem True (unat val) else r = IPM_RESULT_ERR_NO_SEM \<and> q = p) \<and>
    (case ipm_semaphore_wait p w of
      Ret (r, q, _) \<Rightarrow>
        if r = IPM_RESULT_SUCCESS then fst (next_fault w) = ENONE \<and> (\<exists>ps n. p = Sem ps (Suc n) \<and> q = Sem ps n)
        else r = IPM_RESULT_ERR_NO_SEM_WAIT \<and> q = p \<and> (fst (next_fault w) \<noteq> ENONE \<or> p = Sem_raw)
    | Blocked \<Rightarrow> \<exists>ps. p = Sem ps 0
    | _ \<Rightarrow> False) \<and>
    (if p = Sem_raw then fst (ipm_semaphore_count p w) = - 1
     else fst (ipm_semaphore_count p w) \<noteq> - 1 \<and> (\<exists>ps. p = Sem ps (unat (fst (ipm_semaphore_count p w))))) \<and>
    fst (ipm_semaphore_post p w) =
      (case p of Sem_raw \<Rightarrow> Sem_raw | Sem ps n \<Rightarrow> Sem ps (if n = SEM_VALUE_MAX then n else Suc n))"
proof (intro conjI)
  show "case ipm_semaphore_init val p w of (r, q, _) \<Rightarrow>
      if fst (next_fault w) = ENONE \<and> unat val \<le> SEM_VALUE_MAX
      then r = IPM_RESULT_SUCCESS \<and> q = Sem True (unat val) else r = IPM_RESULT_ERR_NO_SEM \<and> q = p"
    by (simp add: ipm_semaphore_init_def sem_init_def split: prod.split)
  show "case ipm_semaphore_wait p w of
      Ret (r, q, _) \<Rightarrow>
        if r = IPM_RESULT_SUCCESS then fst (next_fault w) = ENONE \<and> (\<exists>ps n. p = Sem ps (Suc n) \<and> q = Sem ps n)
        else r = IPM_RESULT_ERR_NO_SEM_WAIT \<and> q = p \<and> (fst (next_fault w) \<noteq> ENONE \<or> p = Sem_raw)
    | Blocked \<Rightarrow> \<exists>ps. p = Sem ps 0
    | _ \<Rightarrow> False"
    by (cases p) (auto simp: ipm_semaphore_wait_def sem_wait_def split: prod.split nat.split)
  show "if p = Sem_raw then fst (ipm_semaphore_count p w) = - 1
     else fst (ipm_semaphore_count p w) \<noteq> - 1 \<and> (\<exists>ps. p = Sem ps (unat (fst (ipm_semaphore_count p w))))"
  proof (cases p)
    case (Sem ps n)
    then have n: "n < 2 ^ 31" using assms by (simp add: SEM_VALUE_MAX_def)
    then have u: "unat (word_of_nat n :: uint32) = n" by (simp add: unat_of_nat)
    have "unat (- 1 :: uint32) = 2 ^ 32 - 1" by (simp add: unsigned_minus_1_eq_mask mask_eq_exp_minus_1)
    then have "(word_of_nat n :: uint32) \<noteq> - 1" using u n by (intro notI) simp
    then show ?thesis using Sem u by (simp add: ipm_semaphore_count_def)
  qed (simp add: ipm_semaphore_count_def)
  show "fst (ipm_semaphore_post p w) =
      (case p of Sem_raw \<Rightarrow> Sem_raw | Sem ps n \<Rightarrow> Sem ps (if n = SEM_VALUE_MAX then n else Suc n))"
    using assms by (cases p) (auto simp: ipm_semaphore_post_def)
qed

theorem semaphore_outcomes_witness:
  "fst (ipm_semaphore_init 3 Sem_raw \<lparr>self = 1, errno = ENONE, ndebug = False, faults = [ENOMEM], attr_live = 0\<rparr>) =
      IPM_RESULT_ERR_NO_SEM \<and>
   fst (ipm_semaphore_post (Sem True 3) \<lparr>self = 1, errno = ENONE, ndebug = False, faults = [], attr_live = 0\<rparr>) = Sem True 4"
  using semaphore_outcomes [where p = Sem_raw and val = 3 and
      w = "\<lparr>self = 1, errno = ENONE, ndebug = False, faults = [ENOMEM], attr_live = 0\<rparr>"]
    semaphore_outcomes [where p = "Sem True 3" and
      w = "\<lparr>self = 1, errno = ENONE, ndebug = False, faults = [], attr_live = 0\<rparr>"]
  by (auto simp: SEM_VALUE_MAX_def next_fault_def split: prod.splits)

end
