(* ===== verification/Memory_Claim.thy ===== *)
theory Memory_Claim
  imports IPM_Platform
begin

text \<open>
  \<^verbatim>\<open>source/memory_claim.c\<close>: the list of active claims that all processes share. The list is an array of
  slots with a count; the slots beyond the count keep whatever was stored there last, or zero bytes.
  Positions are \<^verbatim>\<open>unsigned\<close> in the code; here they are natural numbers, because a position reaches the end of
  the array, which has far fewer than $2^{32}$ slots, before it could wrap. The computations that do
  wrap are done on words.
\<close>

section \<open>Claims and the claim list\<close>

record ipm_memory_claim =
  claim_id :: ipm_id
  proc_id :: ipm_id
  access :: ipm_access_mode
  offset :: size_t
  region_size :: size_t

record ipm_claim_list =
  list_mutex :: ipm_mut
  list_cnd :: ipm_cnd
  count :: size_t
  capacity :: size_t
  claim_counter :: size_t
  claims :: "ipm_memory_claim list"

text \<open>What zero bytes mean as a claim and as a list with \<open>n\<close> slots.\<close>

definition zero_claim :: ipm_memory_claim where
  "zero_claim =
     \<lparr>claim_id = 0, proc_id = 0, access = IPM_ACCESS_MODE_READ_ONLY, offset = 0, region_size = 0\<rparr>"

definition zero_claim_list :: "nat \<Rightarrow> ipm_claim_list" where
  "zero_claim_list n =
     \<lparr>list_mutex = Mut_raw, list_cnd = Cnd_raw, count = 0, capacity = 0, claim_counter = 0,
      claims = replicate n zero_claim\<rparr>"

section \<open>Comparing claims\<close>

definition claims_conflict :: "ipm_memory_claim \<Rightarrow> ipm_memory_claim \<Rightarrow> bool" where
  "claims_conflict claim_1 claim_2 =
     (if proc_id claim_1 = proc_id claim_2 then False
      else if access claim_1 = IPM_ACCESS_MODE_READ_ONLY \<and> access claim_2 = IPM_ACCESS_MODE_READ_ONLY
      then False
      else if offset claim_1 > offset claim_2
      then (if offset claim_2 < offset claim_1 + region_size claim_1 then True else False)
      else if offset claim_1 < offset claim_2
      then (if offset claim_1 < offset claim_2 + region_size claim_2 then True else False)
      else True)"

definition claim_encompasses_other :: "ipm_memory_claim \<Rightarrow> ipm_memory_claim \<Rightarrow> bool" where
  "claim_encompasses_other claim_1 claim_2 =
     (if proc_id claim_1 \<noteq> proc_id claim_2 \<or> access claim_1 \<noteq> access claim_2 then False
      else if offset claim_1 \<ge> offset claim_2 \<and>
              offset claim_1 + region_size claim_1 \<ge> offset claim_2 + region_size claim_2
      then True
      else False)"

section \<open>Adding a claim\<close>

text \<open>The loop that looks for the first claim with a larger offset.\<close>

definition insert_pos :: "ipm_memory_claim list \<Rightarrow> nat \<Rightarrow> size_t \<Rightarrow> nat outcome" where
  "insert_pos cs cnt off = scan (\<lambda>c. offset c > off) cs cnt 0"

definition claim_add_to_list ::
  "ipm_memory_claim \<Rightarrow> ipm_claim_list \<Rightarrow> 'a platform_scheme \<Rightarrow> (ipm_result \<times> ipm_claim_list) outcome" where
  "claim_add_to_list claim list w =
     c_assert (ndebug w) (capacity list > count list)
     (if count list \<ge> capacity list then
        Ret (IPM_RESULT_ERR_LIST_SIZE_MISMATCH,
             list\<lparr>list_mutex := snd (ipm_mutex_unlock (list_mutex list) w)\<rparr>)
      else
        bind_outcome (insert_pos (claims list) (unat (count list)) (offset claim)) (\<lambda>pos.
        bind_outcome
          (if pos \<noteq> unat (count list)
           then memmove (claims list) (pos + 1) pos (unat (count list - word_of_nat pos - 1))
           else Ret (claims list)) (\<lambda>cs.
        bind_outcome (array_store cs pos claim) (\<lambda>cs.
        let prev_count = count list
        in c_assert (ndebug w) (prev_count < capacity list)
             (Ret (IPM_RESULT_SUCCESS, list\<lparr>claims := cs, count := prev_count + 1\<rparr>))))))"

section \<open>Removing a claim\<close>

text \<open>The loop that looks for the claim with the given id.\<close>

definition find_claim :: "ipm_memory_claim list \<Rightarrow> nat \<Rightarrow> ipm_id \<Rightarrow> nat outcome" where
  "find_claim cs cnt cid = scan (\<lambda>c. cid = claim_id c) cs cnt 0"

text \<open>
  \<^verbatim>\<open>atomic_fetch_sub\<close> lowers the count first; the old value is cut to 32 bits. The number of elements to
  move, \<^verbatim>\<open>(count - 1) - pos - 1\<close>, is computed in 32 bits.
\<close>

definition claim_remove_from_list ::
  "ipm_id \<Rightarrow> ipm_claim_list \<Rightarrow> 'a platform_scheme \<Rightarrow> (ipm_result \<times> ipm_claim_list) outcome" where
  "claim_remove_from_list cid list w =
     (let cnt = ucast (count list) :: uint32;
          list = list\<lparr>count := count list - 1\<rparr>
      in c_assert (ndebug w) (ucast cnt < capacity list \<and> cnt > 0)
     (if cnt = 0 then Ret (IPM_RESULT_ERR_INVALID_CLAIM, list)
      else
        bind_outcome (find_claim (claims list) (unat cnt) cid) (\<lambda>pos.
        if pos > unat cnt then Ret (IPM_RESULT_ERR_INVALID_CLAIM, list)
        else
          bind_outcome
            (if pos + 1 \<noteq> unat cnt
             then memmove (claims list) pos (pos + 1) (unat ((cnt - 1) - word_of_nat pos - 1))
             else Ret (claims list)) (\<lambda>cs.
          Ret (IPM_RESULT_SUCCESS, list\<lparr>claims := cs\<rparr>)))))"

section \<open>Visiting the claims\<close>

text \<open>The callback returns an \<^verbatim>\<open>int\<close> and may change the state \<open>p\<close> behind its parameter; \<open>None\<close> means it ended the loop.\<close>

function iterate_from ::
  "(ipm_memory_claim \<Rightarrow> 'p \<Rightarrow> int \<times> 'p) \<Rightarrow> ipm_memory_claim list \<Rightarrow> nat \<Rightarrow> nat \<Rightarrow> 'p \<Rightarrow> (bool \<times> 'p) outcome" where
  "iterate_from callback cs cnt i p =
     (if i < cnt then
        (if i < length cs then
           (let (r, p) = callback (cs ! i) p
            in if r \<noteq> 0 then Ret (False, p) else iterate_from callback cs cnt (Suc i) p)
         else UB)
      else Ret (True, p))"
  by pat_completeness auto
termination
  by (relation "measure (\<lambda>(callback, cs, cnt, i, p). cnt - i)") auto

declare iterate_from.simps [simp del]

definition claims_iterate ::
  "ipm_claim_list \<Rightarrow> (ipm_memory_claim \<Rightarrow> 'p \<Rightarrow> int \<times> 'p) \<Rightarrow> 'p \<Rightarrow> 'a platform_scheme \<Rightarrow>
     (ipm_result \<times> ipm_claim_list \<times> 'p) outcome" where
  "claims_iterate list callback p w =
     (let cnt = ucast (count list) :: uint32
      in c_assert (ndebug w) (ucast cnt \<le> capacity list)
     (if ucast cnt \<noteq> count list then Ret (IPM_RESULT_ERR_LIST_SIZE_MISMATCH, list, p)
      else if ucast cnt = capacity list then Ret (IPM_RESULT_SUCCESS, list, p)
      else
        bind_outcome (ipm_mutex_lock (list_mutex list) w) (\<lambda>(wait_res, m).
        let list = list\<lparr>list_mutex := m\<rparr>
        in if wait_res \<noteq> IPM_RESULT_SUCCESS then Ret (wait_res, list, p)
           else
             bind_outcome (iterate_from callback (claims list) (unat cnt) 0 p) (\<lambda>(finished, p).
             if \<not> finished then Ret (IPM_RESULT_INTERRUPTED, list, p)
             else Ret (IPM_RESULT_SUCCESS,
                       list\<lparr>list_mutex := snd (ipm_mutex_unlock (list_mutex list) w)\<rparr>, p)))))"

section \<open>Initialisation and destruction\<close>

definition claim_list_init ::
  "ipm_claim_list \<Rightarrow> size_t \<Rightarrow> 'a platform_scheme \<Rightarrow> ipm_result \<times> ipm_claim_list \<times> 'a platform_scheme" where
  "claim_list_init list cap w =
     (let (res, m, w) = ipm_mutex_init (list_mutex list) w;
          list = list\<lparr>list_mutex := m\<rparr>
      in if res \<noteq> IPM_RESULT_SUCCESS then (res, list, w)
         else
     (let (res, c, w) = ipm_condition_init (list_cnd list) w;
          list = list\<lparr>list_cnd := c\<rparr>
      in if res \<noteq> IPM_RESULT_SUCCESS then (res, list, w)
         else (res, list\<lparr>capacity := cap, count := 0, claim_counter := 0\<rparr>, w)))"

definition claim_list_uninit :: "ipm_claim_list \<Rightarrow> 'a platform_scheme \<Rightarrow> ipm_claim_list" where
  "claim_list_uninit list w =
     list\<lparr>list_mutex := snd (ipm_mutex_destroy (list_mutex list) w),
          list_cnd := snd (ipm_condition_destroy (list_cnd list) w)\<rparr>"

section \<open>The active claims and the reference operations\<close>

definition active :: "ipm_claim_list \<Rightarrow> ipm_memory_claim list" where
  "active list = take (unat (count list)) (claims list)"

text \<open>
  The count stays within the capacity and the capacity within the slots that exist; the bound on the
  slots is what makes 32-bit positions enough.
\<close>

definition list_wf :: "ipm_claim_list \<Rightarrow> bool" where
  "list_wf list \<longleftrightarrow>
     count list \<le> capacity list \<and> unat (capacity list) \<le> length (claims list) \<and>
     length (claims list) < 2 ^ 32 - 2"

text \<open>
  What a sorted insertion produces, and what \<^verbatim>\<open>claim_add_to_list\<close> produces on a list with room: the claims
  behind the new one move up by one, except that the last of them is not moved; in its place comes
  the slot behind the active claims.
\<close>

definition spec_insert :: "ipm_memory_claim \<Rightarrow> ipm_memory_claim list \<Rightarrow> ipm_memory_claim list" where
  "spec_insert claim cs =
     takeWhile (\<lambda>c. offset c \<le> offset claim) cs @ claim #
     dropWhile (\<lambda>c. offset c \<le> offset claim) cs"

definition added :: "ipm_memory_claim \<Rightarrow> ipm_claim_list \<Rightarrow> ipm_memory_claim list" where
  "added claim list =
     (let P = takeWhile (\<lambda>c. offset c \<le> offset claim) (active list);
          M = dropWhile (\<lambda>c. offset c \<le> offset claim) (active list)
      in P @ claim # (if M = [] then [] else butlast M @ [claims list ! length (active list)]))"

definition spec_remove :: "ipm_id \<Rightarrow> ipm_memory_claim list \<Rightarrow> ipm_memory_claim list" where
  "spec_remove cid cs =
     takeWhile (\<lambda>c. claim_id c \<noteq> cid) cs @ tl (dropWhile (\<lambda>c. claim_id c \<noteq> cid) cs)"

text \<open>
  What \<^verbatim>\<open>claim_remove_from_list\<close> leaves when the claim \<open>x\<close> is found: the claims \<open>M\<close> behind it move down by
  one, except the last of them, which is lost; the slot before the new end keeps its old content.
\<close>

definition removed :: "ipm_id \<Rightarrow> ipm_memory_claim list \<Rightarrow> ipm_memory_claim list" where
  "removed cid cs =
     (let P = takeWhile (\<lambda>c. claim_id c \<noteq> cid) cs
      in (case dropWhile (\<lambda>c. claim_id c \<noteq> cid) cs of
            [] \<Rightarrow> P
          | x # M \<Rightarrow> P @ (if M = [] then [] else butlast M @ [last (x # butlast M)])))"

text \<open>The bytes of a region, and that its end does not wrap.\<close>

definition no_wrap :: "ipm_memory_claim \<Rightarrow> bool" where
  "no_wrap c \<longleftrightarrow> unat (offset c) + unat (region_size c) < 2 ^ 64"

definition region :: "ipm_memory_claim \<Rightarrow> nat set" where
  "region c = {unat (offset c) ..< unat (offset c) + unat (region_size c)}"

primrec iterate_spec ::
  "(ipm_memory_claim \<Rightarrow> 'p \<Rightarrow> int \<times> 'p) \<Rightarrow> ipm_memory_claim list \<Rightarrow> 'p \<Rightarrow> bool \<times> 'p" where
  "iterate_spec callback [] p = (True, p)"
| "iterate_spec callback (c # cs) p =
     (let (r, p) = callback c p in if r \<noteq> 0 then (False, p) else iterate_spec callback cs p)"

text \<open>Sample data for the examples: two write claims of one handle, in a list of four slots.\<close>

definition sample_thread :: platform where
  "sample_thread = \<lparr>self = 1, errno = ENONE, ndebug = False, faults = [], attr_live = 0\<rparr>"

definition sample_claim :: "ipm_id \<Rightarrow> ipm_id \<Rightarrow> size_t \<Rightarrow> ipm_memory_claim" where
  "sample_claim cid pid off =
     \<lparr>claim_id = cid, proc_id = pid, access = IPM_ACCESS_MODE_READ_WRITE, offset = off, region_size = 16\<rparr>"

definition sample_list :: ipm_claim_list where
  "sample_list =
     \<lparr>list_mutex = Mut shared_robust Unlocked, list_cnd = Cnd True 0, count = 2, capacity = 4,
      claim_counter = 2,
      claims = [sample_claim 0 1 16, sample_claim 1 1 24, zero_claim, zero_claim]\<rparr>"

section \<open>Well-formed lists\<close>

lemma list_wfD:
  assumes "list_wf list"
  shows "unat (count list) \<le> unat (capacity list)" "unat (capacity list) \<le> length (claims list)"
    "unat (count list) \<le> length (claims list)" "length (claims list) < 2 ^ 32 - 2"
    "length (active list) = unat (count list)"
  using assms by (auto simp: list_wf_def active_def word_le_nat_alt)

lemma count_fits_uint32:
  assumes "list_wf list"
  shows "unat (ucast (count list) :: uint32) = unat (count list)"
proof -
  have "unat (count list) < 2 ^ 32" using list_wfD [OF assms] by linarith
  then show ?thesis by (simp add: unsigned_ucast_eq take_bit_nat_eq_self)
qed

lemma ucast_count_id:
  assumes "list_wf list"
  shows "ucast (ucast (count list) :: uint32) = count list"
proof -
  have "unat (ucast (ucast (count list) :: uint32) :: size_t) = unat (count list)"
    using count_fits_uint32 [OF assms] unsigned_less [of "count list"]
    by (simp add: unsigned_ucast_eq unsigned_take_bit_eq)
  then show ?thesis by (simp only: word_unat_eq_iff)
qed

section \<open>Searching\<close>

lemma insert_pos_eq:
  "cnt \<le> length cs \<Longrightarrow>
   insert_pos cs cnt off = Ret (length (takeWhile (\<lambda>c. offset c \<le> off) (take cnt cs)))"
  by (simp add: insert_pos_def scan_eq not_less)

lemma find_claim_eq:
  "cnt \<le> length cs \<Longrightarrow>
   find_claim cs cnt cid = Ret (length (takeWhile (\<lambda>c. claim_id c \<noteq> cid) (take cnt cs)))"
  by (simp add: find_claim_def scan_eq eq_commute [of cid])

section \<open>Adding\<close>

lemma claim_add_split:
  assumes wf: "list_wf list" and room: "count list < capacity list"
    and P: "P = takeWhile (\<lambda>c. offset c \<le> offset claim) (active list)" and PM: "active list = P @ M"
  shows "claim_add_to_list claim list w =
    Ret (IPM_RESULT_SUCCESS, list\<lparr>claims :=
      (if M = [] then (claims list)[unat (count list) := claim]
       else P @ claim # butlast M @ claims list ! unat (count list) # drop (Suc (unat (count list))) (claims list)),
      count := count list + 1\<rparr>)"
proof -
  let ?n = "unat (count list)" and ?cs = "claims list"
  note d = list_wfD [OF wf]
  have n: "?n < length ?cs" using room d by (simp add: word_less_nat_alt)
  have "?cs = (P @ M) @ ?cs ! ?n # drop (Suc ?n) ?cs"
    using n by (simp add: active_def Cons_nth_drop_Suc flip: PM)
  then have split: "?cs = P @ M @ ?cs ! ?n # drop (Suc ?n) ?cs" by simp
  have full: "\<not> capacity list \<le> count list" using room by simp
  have len: "length P + length M = ?n" using d(5) PM by simp
  have find: "insert_pos ?cs ?n (offset claim) = Ret (length P)"
    using insert_pos_eq [of ?n ?cs "offset claim"] d(3) by (simp add: P active_def)
  have mm: "memmove ?cs (length P + 1) (length P) (unat (count list - word_of_nat (length P) - 1)) =
      Ret (P @ hd M # butlast M @ ?cs ! ?n # drop (Suc ?n) ?cs)" if "M \<noteq> []"
  proof -
    have "unat (count list - word_of_nat (length P) - 1) = length M - 1"
      using that len by (subst unat_minus_nat_1) (auto simp flip: len)
    then show ?thesis
      using memmove_up_short [OF that, of P "?cs ! ?n" "drop (Suc ?n) ?cs"] split by simp
  qed
  show ?thesis
  proof (cases "M = []")
    case True
    then show ?thesis using room find len n by (simp add: claim_add_to_list_def outcome_simps full)
  next
    case False
    then have "length P \<noteq> ?n" using len by (cases M) auto
    then show ?thesis
      using room find mm [OF False] len False by (simp add: claim_add_to_list_def outcome_simps full)
  qed
qed

lemma claim_add_active:
  assumes wf: "list_wf list" and room: "count list < capacity list"
  shows "\<exists>cs. claim_add_to_list claim list w =
      Ret (IPM_RESULT_SUCCESS, list\<lparr>claims := cs, count := count list + 1\<rparr>) \<and>
    take (Suc (unat (count list))) cs = added claim list \<and> length cs = length (claims list)"
proof -
  let ?n = "unat (count list)" and ?cs = "claims list"
  define P where "P = takeWhile (\<lambda>c. offset c \<le> offset claim) (active list)"
  define M where "M = dropWhile (\<lambda>c. offset c \<le> offset claim) (active list)"
  note d = list_wfD [OF wf]
  have n: "?n < length ?cs" using room d by (simp add: word_less_nat_alt)
  have PM: "active list = P @ M" by (simp add: P_def M_def)
  then have len: "length P + length M = ?n" using d(5) by simp
  have added: "added claim list = P @ claim # (if M = [] then [] else butlast M @ [?cs ! ?n])"
    using d(5) by (simp add: added_def P_def M_def Let_def)
  let ?cs' = "if M = [] then ?cs[?n := claim] else P @ claim # butlast M @ ?cs ! ?n # drop (Suc ?n) ?cs"
  have "take (Suc ?n) ?cs' = added claim list \<and> length ?cs' = length ?cs"
  proof (cases M rule: rev_cases)
    case Nil
    then show ?thesis using n PM added by (simp add: take_Suc_list_update active_def)
  next
    case (snoc N y)
    then have "Suc ?n = length (P @ claim # N @ [?cs ! ?n])" using len by simp
    then show ?thesis using added snoc n by simp
  qed
  then show ?thesis using claim_add_split [OF wf room P_def PM] by blast
qed

section \<open>Removing\<close>

lemma claim_remove_split:
  assumes wf: "list_wf list" and nd: "ndebug w \<or> count list < capacity list"
    and P: "P = takeWhile (\<lambda>c. claim_id c \<noteq> cid) (active list)" and A: "active list = P @ x # M"
  shows "claim_remove_from_list cid list w =
    Ret (IPM_RESULT_SUCCESS, list\<lparr>count := count list - 1, claims :=
      (if M = [] then claims list
       else P @ butlast M @ last (x # butlast M) # last M # drop (unat (count list)) (claims list))\<rparr>)"
proof -
  let ?n = "unat (count list)" and ?cs = "claims list" and ?R = "drop (unat (count list)) (claims list)"
  let ?c = "ucast (count list) :: uint32"
  note d = list_wfD [OF wf]
  have split: "?cs = P @ x # M @ ?R"
    using A by (metis active_def append_Cons append_assoc append_take_drop_id)
  have len: "length P + Suc (length M) = ?n" using d(5) A by simp
  have c: "unat ?c = ?n" "ucast ?c = count list" "?c \<noteq> 0"
    using count_fits_uint32 [OF wf] ucast_count_id [OF wf] len by (auto simp: word_unat_eq_iff)
  have find: "find_claim ?cs ?n cid = Ret (length P)"
    using find_claim_eq [of ?n ?cs cid] d(3) by (simp add: P active_def)
  have mm: "memmove ?cs (length P) (length P + 1) (unat ((?c - 1) - word_of_nat (length P) - 1)) =
      Ret (P @ butlast M @ last (x # butlast M) # last M # ?R)" if "M \<noteq> []"
  proof -
    have "unat (?c - 1) = ?n - 1" using c by (simp add: unat_minus_one)
    then have "unat ((?c - 1) - word_of_nat (length P) - 1) = length M - 1"
      using that len by (subst unat_minus_nat_1) (cases M, auto)
    then show ?thesis
      using memmove_down_short [OF that, of P x ?R] split by simp
  qed
  have "length P + 1 \<noteq> ?n \<longleftrightarrow> M \<noteq> []" using len by (cases M) auto
  then show ?thesis
    using nd find c len mm
    by (simp add: claim_remove_from_list_def c_assert_def Let_def word_gt_0)
qed

lemma claim_remove_active:
  assumes wf: "list_wf list" and nd: "ndebug w \<or> count list < capacity list"
    and found: "cid \<in> claim_id ` set (active list)"
  shows "\<exists>cs. claim_remove_from_list cid list w =
      Ret (IPM_RESULT_SUCCESS, list\<lparr>count := count list - 1, claims := cs\<rparr>) \<and>
    take (unat (count list) - 1) cs = removed cid (active list) \<and> length cs = length (claims list) \<and>
    drop (unat (count list)) cs = drop (unat (count list)) (claims list)"
proof -
  let ?n = "unat (count list)" and ?R = "drop (unat (count list)) (claims list)"
  define P where "P = takeWhile (\<lambda>c. claim_id c \<noteq> cid) (active list)"
  have "dropWhile (\<lambda>c. claim_id c \<noteq> cid) (active list) \<noteq> []"
    using found by (auto simp: dropWhile_eq_Nil_conv)
  then obtain x M where xM: "dropWhile (\<lambda>c. claim_id c \<noteq> cid) (active list) = x # M"
    by (cases "dropWhile (\<lambda>c. claim_id c \<noteq> cid) (active list)") auto
  have A: "active list = P @ x # M" using xM unfolding P_def by (metis takeWhile_dropWhile_id)
  then have len: "length P + Suc (length M) = ?n" using list_wfD(5) [OF wf] by simp
  have removed: "removed cid (active list) = P @ (if M = [] then [] else butlast M @ [last (x # butlast M)])"
    by (simp add: removed_def P_def [symmetric] xM Let_def)
  let ?cs = "if M = [] then claims list else P @ butlast M @ last (x # butlast M) # last M # ?R"
  have "take (?n - 1) ?cs = removed cid (active list) \<and> length ?cs = length (claims list) \<and> drop ?n ?cs = ?R"
  proof (cases M rule: rev_cases)
    case Nil
    have "take (?n - 1) (take ?n (claims list)) = P" using A Nil len by (simp add: active_def)
    then show ?thesis using removed Nil by (simp add: min_def)
  next
    case (snoc N y)
    then show ?thesis using removed len list_wfD(3) [OF wf] by (auto simp flip: len)
  qed
  then show ?thesis using claim_remove_split [OF wf nd P_def A] by blast
qed

section \<open>Conflicts\<close>

lemma claims_conflict_sym: "claims_conflict a b = claims_conflict b a"
  by (auto simp: claims_conflict_def)

lemma claims_conflict_same_proc [simp]: "proc_id a = proc_id b \<Longrightarrow> \<not> claims_conflict a b"
  by (simp add: claims_conflict_def)

lemma claims_conflict_readers [simp]:
  "access a = IPM_ACCESS_MODE_READ_ONLY \<Longrightarrow> access b = IPM_ACCESS_MODE_READ_ONLY \<Longrightarrow>
   \<not> claims_conflict a b"
  by (simp add: claims_conflict_def)

lemma no_wrap_offset_less:
  assumes "no_wrap c" and "x < offset c"
  shows "x < offset c + region_size c"
proof -
  have "unat (offset c + region_size c) = unat (offset c) + unat (region_size c)"
    using assms(1) by (simp add: no_wrap_def unat_plus_no_wrap)
  then show ?thesis using assms(2) by (simp add: word_less_nat_alt)
qed

lemma claims_conflict_no_wrap:
  assumes "no_wrap a" and "no_wrap b"
  shows "claims_conflict a b \<longleftrightarrow>
    proc_id a \<noteq> proc_id b \<and>
    \<not> (access a = IPM_ACCESS_MODE_READ_ONLY \<and> access b = IPM_ACCESS_MODE_READ_ONLY)"
  using no_wrap_offset_less [OF assms(1)] no_wrap_offset_less [OF assms(2)]
  by (auto simp: claims_conflict_def)

section \<open>Every branch of adding and removing\<close>

lemma list_wf_add:
  assumes "list_wf list" and "count list < capacity list" and "length cs = length (claims list)"
  shows "list_wf (list\<lparr>claims := cs, count := count list + 1\<rparr>)"
  using assms unat_inc_size [OF assms(2)]
  by (auto simp: list_wf_def word_le_nat_alt word_less_nat_alt)

lemma list_wf_remove:
  assumes "list_wf list" and "count list \<noteq> 0" and "length cs = length (claims list)"
  shows "list_wf (list\<lparr>count := count list - 1, claims := cs\<rparr>)"
  using assms unat_dec_size [OF assms(2)]
  by (auto simp: list_wf_def word_le_nat_alt)

lemma claim_add_Ret:
  assumes wf: "list_wf list" and room: "count list < capacity list"
  obtains list' where "claim_add_to_list claim list w = Ret (IPM_RESULT_SUCCESS, list')"
    and "active list' = added claim list" and "list_wf list'"
    and "count list' = count list + 1" and "capacity list' = capacity list"
    and "list_mutex list' = list_mutex list" and "list_cnd list' = list_cnd list"
    and "claim_counter list' = claim_counter list" and "length (claims list') = length (claims list)"
proof -
  obtain cs where "claim_add_to_list claim list w =
      Ret (IPM_RESULT_SUCCESS, list\<lparr>claims := cs, count := count list + 1\<rparr>)"
    and "take (Suc (unat (count list))) cs = added claim list" and "length cs = length (claims list)"
    using claim_add_active [OF assms] by blast
  then show thesis
    using that [of "list\<lparr>claims := cs, count := count list + 1\<rparr>"] list_wf_add [OF assms, of cs]
      unat_inc_size [OF room]
    by (simp add: active_def)
qed

lemma claim_add_full:
  assumes "capacity list \<le> count list"
  shows "claim_add_to_list claim list w =
    (if ndebug w
     then Ret (IPM_RESULT_ERR_LIST_SIZE_MISMATCH,
               list\<lparr>list_mutex := snd (ipm_mutex_unlock (list_mutex list) w)\<rparr>)
     else Abort)"
  using assms by (auto simp: claim_add_to_list_def c_assert_def)

lemma claim_remove_Ret:
  assumes wf: "list_wf list" and nd: "ndebug w \<or> count list < capacity list"
    and found: "cid \<in> claim_id ` set (active list)"
  obtains list' where "claim_remove_from_list cid list w = Ret (IPM_RESULT_SUCCESS, list')"
    and "active list' = removed cid (active list)" and "list_wf list'"
    and "count list' = count list - 1" and "capacity list' = capacity list"
    and "list_mutex list' = list_mutex list" and "list_cnd list' = list_cnd list"
    and "claim_counter list' = claim_counter list" and "length (claims list') = length (claims list)"
proof -
  have ne: "count list \<noteq> 0" using found by (auto simp: active_def)
  obtain cs where "claim_remove_from_list cid list w =
      Ret (IPM_RESULT_SUCCESS, list\<lparr>count := count list - 1, claims := cs\<rparr>)"
    and "take (unat (count list) - 1) cs = removed cid (active list)"
    and "length cs = length (claims list)"
    using claim_remove_active [OF assms] by blast
  then show thesis
    using that [of "list\<lparr>count := count list - 1, claims := cs\<rparr>"] list_wf_remove [OF wf ne, of cs]
      unat_dec_size [OF ne]
    by (simp add: active_def)
qed

lemma claim_remove_count:
  "claim_remove_from_list cid list w = Ret (r, list') \<Longrightarrow> count list' = count list - 1"
  by (auto simp: claim_remove_from_list_def c_assert_def outcome_simps Let_def split: if_splits)

lemma claim_remove_empty:
  assumes "count list = 0"
  shows "claim_remove_from_list cid list w =
    (if ndebug w then Ret (IPM_RESULT_ERR_INVALID_CLAIM, list\<lparr>count := - 1\<rparr>) else Abort)"
  using assms by (simp add: claim_remove_from_list_def c_assert_def)

lemma claim_remove_full:
  assumes "list_wf list" and "count list = capacity list" and "\<not> ndebug w"
  shows "claim_remove_from_list cid list w = Abort"
  using assms ucast_count_id [OF assms(1)] by (simp add: claim_remove_from_list_def c_assert_def Let_def)

lemma claim_remove_missing:
  assumes wf: "list_wf list" and nd: "ndebug w \<or> count list < capacity list"
    and ne: "count list \<noteq> 0" and missing: "cid \<notin> claim_id ` set (active list)"
  shows "claim_remove_from_list cid list w = UB"
proof -
  let ?n = "unat (count list)" and ?c = "ucast (count list) :: uint32"
  note d = list_wfD [OF wf]
  have c: "unat ?c = ?n" "ucast ?c = count list"
    using count_fits_uint32 [OF wf] ucast_count_id [OF wf] by auto
  have "?n \<noteq> 0" using ne by (simp add: unat_eq_0)
  then have c0: "?c \<noteq> 0" using c(1) by auto
  have all: "takeWhile (\<lambda>c. claim_id c \<noteq> cid) (active list) = active list"
    using missing by (auto simp: takeWhile_eq_all_conv)
  have "find_claim (claims list) ?n cid =
      Ret (length (takeWhile (\<lambda>c. claim_id c \<noteq> cid) (active list)))"
    using find_claim_eq [of ?n "claims list" cid] d(3) by (simp add: active_def)
  then have find: "find_claim (claims list) ?n cid = Ret ?n" using d(5) by (simp only: all)
  have "?c = word_of_nat ?n" using c(1) by (simp add: word_unat_eq_iff unat_of_nat take_bit_nat_eq_self)
  then have "unat ((?c - 1) - word_of_nat ?n - 1) = 2 ^ 32 - 2" by simp
  moreover have "memmove (claims list) ?n (?n + 1) (2 ^ 32 - 2) = UB"
    using d(4) by (simp add: memmove_def)
  ultimately show ?thesis
    using nd find c c0 by (simp add: claim_remove_from_list_def c_assert_def Let_def word_gt_0)
qed


section \<open>Agreement with the reference operations\<close>

lemma added_eq_spec_iff:
  "added claim list = spec_insert claim (active list) \<longleftrightarrow>
     (\<forall>c \<in> set (active list). offset c \<le> offset claim) \<or>
     (active list \<noteq> [] \<and> claims list ! length (active list) = last (active list))"
proof -
  define M where "M = dropWhile (\<lambda>c. offset c \<le> offset claim) (active list)"
  have M: "M = [] \<longleftrightarrow> (\<forall>c \<in> set (active list). offset c \<le> offset claim)"
    by (simp add: M_def dropWhile_eq_Nil_conv)
  have PM: "takeWhile (\<lambda>c. offset c \<le> offset claim) (active list) @ M = active list"
    by (simp add: M_def)
  show ?thesis
  proof (cases "M = []")
    case True
    then have "added claim list = spec_insert claim (active list)"
      by (simp add: added_def spec_insert_def Let_def flip: M_def)
    then show ?thesis using True M by simp
  next
    case False
    have "last (active list) = last M" using False PM by (metis last_appendR)
    moreover have "butlast M @ [s] = M \<longleftrightarrow> s = last M" for s
      using False by (metis append_butlast_last_id last_snoc)
    moreover have "active list \<noteq> []" using False PM by force
    moreover have "added claim list = spec_insert claim (active list) \<longleftrightarrow>
        butlast M @ [claims list ! length (active list)] = M"
      using False by (simp add: added_def spec_insert_def Let_def flip: M_def)
    ultimately show ?thesis using False M by metis
  qed
qed

lemma removed_eq_spec_iff:
  assumes "cid \<in> claim_id ` set cs"
  shows "removed cid cs = spec_remove cid cs \<longleftrightarrow>
    cid \<notin> claim_id ` set (butlast cs) \<or> last (butlast cs) = last cs"
proof -
  define P where "P = takeWhile (\<lambda>c. claim_id c \<noteq> cid) cs"
  have "dropWhile (\<lambda>c. claim_id c \<noteq> cid) cs \<noteq> []"
    using assms by (auto simp: dropWhile_eq_Nil_conv)
  then obtain x M where xM: "dropWhile (\<lambda>c. claim_id c \<noteq> cid) cs = x # M"
    by (cases "dropWhile (\<lambda>c. claim_id c \<noteq> cid) cs") auto
  have cs: "cs = P @ x # M" using xM unfolding P_def by (metis takeWhile_dropWhile_id)
  have x: "claim_id x = cid" using xM by (metis (mono_tags) dropWhile_eq_Cons_conv)
  have P: "cid \<notin> claim_id ` set P" unfolding P_def by (auto dest: set_takeWhileD)
  have eqs: "spec_remove cid cs = P @ M"
    "removed cid cs = P @ (if M = [] then [] else butlast M @ [last (x # butlast M)])"
    by (simp_all add: spec_remove_def removed_def xM Let_def flip: P_def)
  show ?thesis
  proof (cases M rule: rev_cases)
    case Nil
    then show ?thesis using eqs P cs by simp
  next
    case (snoc N y)
    then have "butlast cs = P @ x # N" "last cs = y" by (simp_all add: cs butlast_append)
    then show ?thesis using eqs snoc x by auto
  qed
qed

text \<open>Removing never brings in a claim that was not active.\<close>

lemma set_removed_subset: "set (removed cid cs) \<subseteq> set cs"
proof -
  define P where "P = takeWhile (\<lambda>c. claim_id c \<noteq> cid) cs"
  define D where "D = dropWhile (\<lambda>c. claim_id c \<noteq> cid) cs"
  have "set cs = set P \<union> set D" unfolding P_def D_def by (metis set_append takeWhile_dropWhile_id)
  moreover have "set (case D of [] \<Rightarrow> P
      | x # M \<Rightarrow> P @ (if M = [] then [] else butlast M @ [last (x # butlast M)])) \<subseteq> set P \<union> set D"
  proof (cases D)
    case (Cons x M)
    then show ?thesis by (cases M rule: rev_cases) (auto simp: last_conv_nth split: if_splits)
  qed simp
  ultimately show ?thesis by (simp add: removed_def Let_def flip: P_def D_def)
qed

lemma length_removed: "cid \<in> claim_id ` set cs \<Longrightarrow> length (removed cid cs) = length cs - 1"
proof -
  assume "cid \<in> claim_id ` set cs"
  then have "dropWhile (\<lambda>c. claim_id c \<noteq> cid) cs \<noteq> []" by (auto simp: dropWhile_eq_Nil_conv)
  then obtain x M where xM: "dropWhile (\<lambda>c. claim_id c \<noteq> cid) cs = x # M"
    by (cases "dropWhile (\<lambda>c. claim_id c \<noteq> cid) cs") auto
  have "length cs = length (takeWhile (\<lambda>c. claim_id c \<noteq> cid) cs) + Suc (length M)"
    using xM by (metis length_Cons length_append takeWhile_dropWhile_id)
  then show ?thesis by (cases M rule: rev_cases) (simp_all add: removed_def xM Let_def)
qed

section \<open>Visiting\<close>

lemma iterate_from_eq:
  "cnt \<le> length cs \<Longrightarrow> i \<le> cnt \<Longrightarrow>
   iterate_from callback cs cnt i p = Ret (iterate_spec callback (drop i (take cnt cs)) p)"
proof (induction callback cs cnt i p rule: iterate_from.induct)
  case (1 callback cs cnt i p)
  show ?case
  proof (cases "i < cnt")
    case True
    then show ?thesis using "1.prems" "1.IH" drop_take_Cons [of i cnt cs]
      by (subst iterate_from.simps) (auto simp: Let_def split: prod.split)
  next
    case False
    then show ?thesis using "1.prems" by (subst iterate_from.simps) simp
  qed
qed

section \<open>A list that was just initialised\<close>

lemma claim_list_init_cases:
  assumes "claim_list_init list cap w = (r, list', w')"
  shows "r = IPM_RESULT_SUCCESS \<and>
      count list' = 0 \<and> capacity list' = cap \<and> claim_counter list' = 0 \<and> claims list' = claims list \<and>
      list_mutex list' = Mut shared_robust Unlocked \<or>
    r \<noteq> IPM_RESULT_SUCCESS \<and>
      count list' = count list \<and> capacity list' = capacity list \<and>
      claim_counter list' = claim_counter list \<and> claims list' = claims list"
proof -
  obtain r1 m w1 where m: "ipm_mutex_init (list_mutex list) w = (r1, m, w1)" by (metis surj_pair)
  show ?thesis
    using assms ipm_mutex_init_cases [OF m]
    by (auto simp: claim_list_init_def m Let_def split: prod.splits if_splits)
qed

section \<open>At the end of the list\<close>

lemma added_append:
  assumes "\<forall>x \<in> set (active l). offset x \<le> offset c"
  shows "added c l = active l @ [c]"
proof -
  have "dropWhile (\<lambda>x. offset x \<le> offset c) (active l) = []"
    and "takeWhile (\<lambda>x. offset x \<le> offset c) (active l) = active l"
    using assms by (simp_all add: takeWhile_eq_all_conv)
  then show ?thesis by (simp add: added_def)
qed

lemma removed_last:
  assumes "claim_id c \<notin> claim_id ` set cs"
  shows "removed (claim_id c) (cs @ [c]) = cs"
proof -
  have "\<forall>x \<in> set cs. claim_id x \<noteq> claim_id c" using assms by (metis imageI)
  then show ?thesis by (simp add: removed_def takeWhile_append dropWhile_append takeWhile_eq_all_conv)
qed

section \<open>The list as a stack\<close>

text \<open>
  What the claim list does provide, whatever the history of its slots: claims that are added with
  offsets not below the active ones go to the end, and the claim at the end is removed exactly. The
  interface is a stack of claims with a guard on pushing.
\<close>

locale claim_stack =
  fixes push :: "'w \<Rightarrow> ipm_memory_claim \<Rightarrow> 'l \<Rightarrow> (ipm_result \<times> 'l) outcome"
    and pop :: "'w \<Rightarrow> ipm_id \<Rightarrow> 'l \<Rightarrow> (ipm_result \<times> 'l) outcome"
    and contents :: "'l \<Rightarrow> ipm_memory_claim list"
    and room :: "'w \<Rightarrow> 'l \<Rightarrow> bool"
    and good :: "'l \<Rightarrow> bool"
  assumes push_law:
      "good l \<Longrightarrow> room w l \<Longrightarrow> (\<forall>x \<in> set (contents l). offset x \<le> offset c) \<Longrightarrow>
       \<exists>l'. push w c l = Ret (IPM_RESULT_SUCCESS, l') \<and> good l' \<and> contents l' = contents l @ [c]"
    and pop_law:
      "good l \<Longrightarrow> room w l \<Longrightarrow> contents l = cs @ [c] \<Longrightarrow> claim_id c \<notin> claim_id ` set cs \<Longrightarrow>
       \<exists>l'. pop w (claim_id c) l = Ret (IPM_RESULT_SUCCESS, l') \<and> good l' \<and> contents l' = cs"
begin

lemma push_pop:
  assumes "good l" and "room w l" and "\<forall>x \<in> set (contents l). offset x \<le> offset c"
    and "claim_id c \<notin> claim_id ` set (contents l)"
    and "push w c l = Ret (r, l')" and "room w l'"
  shows "\<exists>l''. pop w (claim_id c) l' = Ret (IPM_RESULT_SUCCESS, l'') \<and> good l'' \<and> contents l'' = contents l"
  using push_law [OF assms(1-3)] pop_law [of l' w "contents l" c] assms(4-6) by auto

end

definition has_room :: "'a platform_scheme \<Rightarrow> ipm_claim_list \<Rightarrow> bool" where
  "has_room w list \<longleftrightarrow> count list < capacity list"

interpretation claim_list: claim_stack
  "\<lambda>w c l. claim_add_to_list c l w" "\<lambda>w cid l. claim_remove_from_list cid l w" active has_room list_wf
proof
  fix l :: ipm_claim_list and w :: "'a platform_scheme" and c :: ipm_memory_claim
  assume wf: "list_wf l" and room: "has_room w l"
    and le: "\<forall>x \<in> set (active l). offset x \<le> offset c"
  have "dropWhile (\<lambda>x. offset x \<le> offset c) (active l) = []"
    and "takeWhile (\<lambda>x. offset x \<le> offset c) (active l) = active l"
    using le by (simp_all add: takeWhile_eq_all_conv)
  then have "added c l = active l @ [c]" by (simp add: added_def)
  then show "\<exists>l'. claim_add_to_list c l w = Ret (IPM_RESULT_SUCCESS, l') \<and> list_wf l' \<and>
      active l' = active l @ [c]"
    using claim_add_Ret [OF wf room [unfolded has_room_def], of c w] by metis
next
  fix l :: ipm_claim_list and w :: "'a platform_scheme" and cs and c :: ipm_memory_claim
  assume wf: "list_wf l" and room: "has_room w l" and last: "active l = cs @ [c]"
    and uniq: "claim_id c \<notin> claim_id ` set cs"
  have found: "claim_id c \<in> claim_id ` set (active l)" by (simp add: last)
  have "removed (claim_id c) (active l) = spec_remove (claim_id c) (active l)"
    using removed_eq_spec_iff [OF found] uniq by (simp add: last)
  moreover have "\<forall>x \<in> set cs. claim_id x \<noteq> claim_id c" using uniq by (metis imageI)
  then have "spec_remove (claim_id c) (active l) = cs"
    by (simp add: spec_remove_def last takeWhile_append dropWhile_append takeWhile_eq_all_conv)
  ultimately have "removed (claim_id c) (active l) = cs" by simp
  then show "\<exists>l'. claim_remove_from_list (claim_id c) l w = Ret (IPM_RESULT_SUCCESS, l') \<and>
      list_wf l' \<and> active l' = cs"
    using claim_remove_Ret [OF wf _ found, of w] room [unfolded has_room_def] by metis
qed

lemma sample_list_wf: "list_wf sample_list"
  by (simp add: list_wf_def sample_list_def)

section \<open>Properties\<close>

text \<open>
  C35. What the test computes on regions that do not wrap: two claims conflict exactly when they belong
  to different handles and are not both for reading. The offsets and sizes do not matter, so also
  claims on disjoint regions exclude each other.
\<close>

theorem claims_conflict_ignores_regions:
  assumes "no_wrap a" and "no_wrap b"
  shows "claims_conflict a b \<longleftrightarrow>
    proc_id a \<noteq> proc_id b \<and>
    \<not> (access a = IPM_ACCESS_MODE_READ_ONLY \<and> access b = IPM_ACCESS_MODE_READ_ONLY)"
  using assms by (rule claims_conflict_no_wrap)

theorem claims_conflict_ignores_regions_witness:
  "claims_conflict
     \<lparr>claim_id = 0, proc_id = 1, access = IPM_ACCESS_MODE_READ_WRITE, offset = 0, region_size = 16\<rparr>
     \<lparr>claim_id = 1, proc_id = 2, access = IPM_ACCESS_MODE_READ_WRITE, offset = 1024, region_size = 16\<rparr>"
  by (subst claims_conflict_ignores_regions) (simp_all add: no_wrap_def)

text \<open>
  C18. Every branch of adding. With room, the call succeeds, keeps the list well-formed, changes only the
  slots and the count, and the active claims become \<open>added\<close>. A full list is a failed assertion, or with
  \<^verbatim>\<open>NDEBUG\<close> the error \<^verbatim>\<open>IPM_RESULT_ERR_LIST_SIZE_MISMATCH\<close> with the mutex released and the claims unchanged.
\<close>

theorem claim_add_total:
  assumes "list_wf list"
  shows "if count list < capacity list
    then \<exists>list'. claim_add_to_list claim list w = Ret (IPM_RESULT_SUCCESS, list') \<and>
           list_wf list' \<and> active list' = added claim list \<and>
           unat (count list') = Suc (unat (count list)) \<and> list_mutex list' = list_mutex list
    else claim_add_to_list claim list w =
           (if ndebug w
            then Ret (IPM_RESULT_ERR_LIST_SIZE_MISMATCH,
                      list\<lparr>list_mutex := snd (ipm_mutex_unlock (list_mutex list) w)\<rparr>)
            else Abort)"
proof (cases "count list < capacity list")
  case True
  obtain list' where "claim_add_to_list claim list w = Ret (IPM_RESULT_SUCCESS, list')"
    and "active list' = added claim list" and "list_wf list'" and "count list' = count list + 1"
    and "list_mutex list' = list_mutex list"
    using claim_add_Ret [OF assms True] by metis
  then show ?thesis using True unat_inc_size [OF True] by auto
next
  case False
  then show ?thesis using claim_add_full [of list claim w] by simp
qed

theorem claim_add_total_witness:
  "\<exists>list'. claim_add_to_list (sample_claim 2 1 20) sample_list sample_thread =
       Ret (IPM_RESULT_SUCCESS, list') \<and>
     active list' = [sample_claim 0 1 16, sample_claim 2 1 20, zero_claim]"
  using claim_add_total [OF sample_list_wf, of "sample_claim 2 1 20" sample_thread]
  by (auto simp: added_def active_def sample_list_def sample_claim_def)

text \<open>
  C19. Every branch of removing from a well-formed list. An assertion fails on an empty and on a full
  list; with \<^verbatim>\<open>NDEBUG\<close> the empty list reports an invalid claim but its count has wrapped. An id that
  is not active makes the code move memory far outside the list. An active id succeeds, the list
  stays well-formed and the active claims become \<open>removed\<close>.
\<close>

theorem claim_remove_total:
  assumes "list_wf list"
  shows "if \<not> ndebug w \<and> (count list = 0 \<or> count list = capacity list)
    then claim_remove_from_list cid list w = Abort
    else if count list = 0
    then claim_remove_from_list cid list w = Ret (IPM_RESULT_ERR_INVALID_CLAIM, list\<lparr>count := - 1\<rparr>)
    else if cid \<notin> claim_id ` set (active list)
    then claim_remove_from_list cid list w = UB
    else \<exists>list'. claim_remove_from_list cid list w = Ret (IPM_RESULT_SUCCESS, list') \<and>
           list_wf list' \<and> active list' = removed cid (active list) \<and>
           unat (count list') = unat (count list) - 1 \<and> list_mutex list' = list_mutex list"
proof -
  have nd: "ndebug w \<or> count list < capacity list"
    if "\<not> (\<not> ndebug w \<and> (count list = 0 \<or> count list = capacity list))"
    using that assms by (auto simp: list_wf_def order_less_le)
  have found: "\<exists>list'. claim_remove_from_list cid list w = Ret (IPM_RESULT_SUCCESS, list') \<and>
           list_wf list' \<and> active list' = removed cid (active list) \<and>
           unat (count list') = unat (count list) - 1 \<and> list_mutex list' = list_mutex list"
    if "ndebug w \<or> count list < capacity list" and "cid \<in> claim_id ` set (active list)"
      and "count list \<noteq> 0"
    using claim_remove_Ret [OF assms that(1,2)] unat_dec_size [OF that(3)] by metis
  show ?thesis
    using nd found claim_remove_empty [of list cid w] claim_remove_full [OF assms, of w cid]
      claim_remove_missing [OF assms, of w cid]
    by auto
qed

theorem claim_remove_total_witness:
  "\<exists>list'. claim_remove_from_list 0 sample_list sample_thread = Ret (IPM_RESULT_SUCCESS, list') \<and>
     active list' = [sample_claim 0 1 16]"
  using claim_remove_total [OF sample_list_wf, of sample_thread 0]
  by (auto simp: removed_def active_def sample_list_def sample_claim_def split: if_splits)

text \<open>
  C20. Adding agrees with sorted insertion exactly when no active claim has a larger offset, or the slot
  behind the active claims happens to hold a copy of the last one. In every other case the last
  active claim is dropped from the list and the content of that slot takes its place.
\<close>

theorem claim_add_refines_sorted_insert:
  assumes "list_wf list" and "count list < capacity list"
  shows "\<exists>list'. claim_add_to_list claim list w = Ret (IPM_RESULT_SUCCESS, list') \<and>
    (active list' = spec_insert claim (active list) \<longleftrightarrow>
       (\<forall>c \<in> set (active list). offset c \<le> offset claim) \<or>
       active list \<noteq> [] \<and> claims list ! length (active list) = last (active list))"
  using claim_add_Ret [OF assms, of claim w] added_eq_spec_iff [of claim list] by metis

theorem claim_add_refines_sorted_insert_witness:
  "\<exists>list'. claim_add_to_list (sample_claim 2 1 32) sample_list sample_thread =
       Ret (IPM_RESULT_SUCCESS, list') \<and>
     active list' = [sample_claim 0 1 16, sample_claim 1 1 24, sample_claim 2 1 32]"
  using claim_add_refines_sorted_insert [OF sample_list_wf, of "sample_claim 2 1 32" sample_thread]
  by (auto simp: spec_insert_def active_def sample_list_def sample_claim_def)

text \<open>
  C21. Removing agrees with removing that claim exactly when it is the last active claim, or the last
  two active claims are equal. In every other case the last active claim is lost.
\<close>

theorem claim_remove_refines_remove:
  assumes "list_wf list" and "count list < capacity list" and "cid \<in> claim_id ` set (active list)"
  shows "\<exists>list'. claim_remove_from_list cid list w = Ret (IPM_RESULT_SUCCESS, list') \<and>
    set (active list') \<subseteq> set (active list) \<and>
    (active list' = spec_remove cid (active list) \<longleftrightarrow>
       cid \<notin> claim_id ` set (butlast (active list)) \<or>
       last (butlast (active list)) = last (active list))"
  using claim_remove_Ret [OF assms(1) _ assms(3), of w] assms(2)
    removed_eq_spec_iff [OF assms(3)] set_removed_subset [of cid "active list"]
  by metis

theorem claim_remove_refines_remove_witness:
  "\<exists>list'. claim_remove_from_list 1 sample_list sample_thread = Ret (IPM_RESULT_SUCCESS, list') \<and>
     active list' = [sample_claim 0 1 16]"
  using claim_remove_refines_remove [OF sample_list_wf, of 1 sample_thread]
  by (auto simp: spec_remove_def active_def sample_list_def sample_claim_def)

text \<open>
  Round trip of the list: a claim that is not before the active ones is added at the end, and removing its id
  right afterwards gives back the active claims that were there, in order, in a well-formed list.
\<close>

lemma claim_add_remove_roundtrip:
  assumes "list_wf list" and "count list < capacity list"
    and "\<forall>x \<in> set (active list). offset x \<le> offset c" and "claim_id c \<notin> claim_id ` set (active list)"
    and "claim_add_to_list c list w = Ret (r, list')" and "count list' < capacity list'"
  shows "\<exists>list''. claim_remove_from_list (claim_id c) list' w = Ret (IPM_RESULT_SUCCESS, list'') \<and>
    list_wf list'' \<and> active list'' = active list"
  using claim_list.push_pop [of list w c r list'] assms by (simp add: has_room_def)

text \<open>
  C36. Visiting a well-formed list whose mutex is free. If the list is not full the callback is called on the active claims in
  order until it returns a non-zero value: when every claim was visited the result is success and the mutex is
  free again; when the callback ended the visit the result is \<^verbatim>\<open>IPM_RESULT_INTERRUPTED\<close> and the caller still holds
  the mutex. If the list is full, which the code takes for empty, no claim is visited and the result is success.
\<close>

theorem claims_iterate_visits:
  assumes "list_wf list" and "list_mutex list = Mut a Unlocked"
  shows "claims_iterate list callback p w =
    (if count list = capacity list then Ret (IPM_RESULT_SUCCESS, list, p)
     else
       let (finished, p') = iterate_spec callback (active list) p
       in if finished then Ret (IPM_RESULT_SUCCESS, list, p')
          else Ret (IPM_RESULT_INTERRUPTED, list\<lparr>list_mutex := Mut a (Locked (self w))\<rparr>, p'))"
proof -
  have c: "unat (ucast (count list) :: uint32) = unat (count list)"
    "ucast (ucast (count list) :: uint32) = count list"
    using count_fits_uint32 [OF assms(1)] ucast_count_id [OF assms(1)] by auto
  have "iterate_from callback (claims list) (unat (count list)) 0 p = Ret (iterate_spec callback (active list) p)"
    using iterate_from_eq [of "unat (count list)" "claims list" 0 callback p] list_wfD(3) [OF assms(1)]
    by (simp add: active_def)
  moreover have "list\<lparr>list_mutex := Mut a Unlocked\<rparr> = list" using assms(2) by (cases list) simp
  moreover have "count list \<le> capacity list" using assms(1) by (simp add: list_wf_def word_le_nat_alt)
  ultimately show ?thesis
    using assms(2) c
    by (auto simp: claims_iterate_def c_assert_def Let_def split: prod.split)
qed

theorem claims_iterate_visits_witness:
  "claims_iterate sample_list (\<lambda>c ids. (0, ids @ [claim_id c])) [] sample_thread =
     Ret (IPM_RESULT_SUCCESS, sample_list, [0, 1])"
  by (subst claims_iterate_visits [OF sample_list_wf, where a = shared_robust])
    (simp_all add: active_def sample_list_def sample_claim_def)

end
