(* ===== verification/Claim_Region.thy ===== *)
theory Claim_Region
  imports Memory_Claim
begin

text \<open>
  The claim handlers of \<^verbatim>\<open>source/ipm_memory.c\<close> on the claim list: \<^verbatim>\<open>ipm_memory_claim_region\<close>,
  \<^verbatim>\<open>ipm_memory_release_region\<close>, \<^verbatim>\<open>ipm_memory_release_all\<close> and
  \<^verbatim>\<open>ipm_memory_remove_all_active_claims\<close>, from taking the list mutex to releasing it. The handle is
  represented by the fields they read: its callbacks and its access id. The theory \<^verbatim>\<open>IPM_Memory\<close> adds the
  argument checks and the access to the mapped list.
\<close>

section \<open>The state of a caller\<close>

text \<open>
  On top of the thread: the state of the user's callbacks, the texts of \<^verbatim>\<open>strerror\<close>, and what the other
  processes do to the shared list at each point where the caller sleeps on its condition variable.
  At the end of that script nobody wakes the caller any more.
\<close>

record 'h client = platform +
  host :: 'h
  strerror :: "errno \<Rightarrow> string"
  others :: "(ipm_claim_list \<Rightarrow> ipm_claim_list) list"

definition IPM_ERROR ::
  "'h ipm_context \<Rightarrow> fmt_piece list \<Rightarrow> string \<Rightarrow> int \<Rightarrow> string \<Rightarrow> ('h, 'a) client_scheme \<Rightarrow> ('h, 'a) client_scheme" where
  "IPM_ERROR context msg file line func w =
     (let (e, h) = ipm_report_error context msg file line func (errno w, host w)
      in w\<lparr>errno := e, host := h\<rparr>)"

text \<open>The pieces \<^verbatim>\<open>reason: %s (%s)\<close> for a result.\<close>

definition result_reason :: "ipm_result \<Rightarrow> fmt_piece list" where
  "result_reason res =
     [Lit '', reason: '', Str (the (ipm_result_to_str (result_code res))),
      Lit '' ('', Str (the (ipm_result_to_msg (result_code res))), Lit '')'']"

definition unlock_list :: "ipm_claim_list \<Rightarrow> 'a platform_scheme \<Rightarrow> ipm_claim_list" where
  "unlock_list list w = list\<lparr>list_mutex := snd (ipm_mutex_unlock (list_mutex list) w)\<rparr>"

section \<open>Claiming a region\<close>

definition conflict_pos :: "ipm_memory_claim \<Rightarrow> ipm_claim_list \<Rightarrow> nat outcome" where
  "conflict_pos claim list = scan (claims_conflict claim) (claims list) (unat (count list)) 0"

definition sleep_others :: "('h, 'a) client_scheme \<Rightarrow> ipm_claim_list \<Rightarrow> ipm_claim_list outcome" where
  "sleep_others w list = (case others w of [] \<Rightarrow> Blocked | f # _ \<Rightarrow> Ret (f list))"

text \<open>
  The loop that waits until no active claim conflicts and there is room. The flag of the result tells
  whether the loop was left that way; otherwise waiting failed with the given result.
\<close>

function claim_wait ::
  "ipm_memory_claim \<Rightarrow> ipm_claim_list \<Rightarrow> ('h, 'a) client_scheme \<Rightarrow>
     (ipm_result \<times> bool \<times> ipm_claim_list \<times> ('h, 'a) client_scheme) outcome" where
  "claim_wait claim list w =
     bind_outcome (conflict_pos claim list) (\<lambda>i.
     if i = unat (count list) \<and> count list \<noteq> capacity list then Ret (IPM_RESULT_SUCCESS, True, list, w)
     else
       bind_outcome (ipm_condition_wait list_cnd list_mutex list_mutex_update (sleep_others w) list w)
         (\<lambda>(res, list, w).
            if res \<noteq> IPM_RESULT_SUCCESS then Ret (res, False, list, w)
            else (case others w of
                    [] \<Rightarrow> Blocked
                  | f # fs \<Rightarrow> claim_wait claim list (w\<lparr>others := fs\<rparr>))))"
  by pat_completeness auto

termination
  by (relation "measure (\<lambda>(claim, list, w). length (others w))")
    (auto dest!: ipm_condition_wait_frame)

declare claim_wait.simps [simp del]

definition claim_region_list ::
  "'h ipm_context \<Rightarrow> ipm_access_mode \<Rightarrow> size_t \<Rightarrow> size_t \<Rightarrow> ipm_id \<Rightarrow> ipm_claim_list \<Rightarrow>
     ('h, 'a) client_scheme \<Rightarrow>
     (ipm_result \<times> ipm_id option \<times> ipm_claim_list \<times> ('h, 'a) client_scheme) outcome" where
  "claim_region_list ctx acc off cnt me list w =
     bind_outcome (ipm_mutex_lock (list_mutex list) w) (\<lambda>(res, m).
     let list = list\<lparr>list_mutex := m\<rparr>
     in if res \<noteq> IPM_RESULT_SUCCESS
        then Ret (res, None, list,
               IPM_ERROR ctx (Lit ''Could not lock access list mutex'' # result_reason res)
                 ''ipm_memory.c'' 226 ''ipm_memory_claim_region'' w)
        else
     (let id = claim_counter list;
          list = list\<lparr>claim_counter := claim_counter list + 1\<rparr>;
          claim = \<lparr>claim_id = id, proc_id = me, access = acc, offset = off, region_size = cnt\<rparr>
      in bind_outcome (claim_wait claim list w) (\<lambda>(res, granted, list, w).
         if \<not> granted then
           (let w = IPM_ERROR ctx (Lit ''Could not wait on condition variable'' # result_reason res)
                      ''ipm_memory.c'' 259 ''ipm_memory_claim_region'' w
            in Ret (IPM_RESULT_SUCCESS, None, unlock_list list w, w))
         else
           bind_outcome (claim_add_to_list claim list w) (\<lambda>(res, list).
           let list = unlock_list list w;
               w = (if res \<noteq> IPM_RESULT_SUCCESS
                    then IPM_ERROR ctx (Lit ''Could not add memory claim to list'' # result_reason res)
                           ''ipm_memory.c'' 270 ''ipm_memory_claim_region'' w
                    else w)
           in Ret (res, Some id, list, w)))))"

section \<open>Releasing\<close>

definition release_region_list ::
  "'h ipm_context \<Rightarrow> ipm_id \<Rightarrow> ipm_claim_list \<Rightarrow> ('h, 'a) client_scheme \<Rightarrow>
     (ipm_result \<times> ipm_claim_list \<times> ('h, 'a) client_scheme) outcome" where
  "release_region_list ctx cid list w =
     bind_outcome (ipm_mutex_lock (list_mutex list) w) (\<lambda>(res, m).
     let list = list\<lparr>list_mutex := m\<rparr>
     in if res \<noteq> IPM_RESULT_SUCCESS
        then Ret (res, list,
               IPM_ERROR ctx (Lit ''Could not lock access list mutex'' # result_reason res)
                 ''ipm_memory.c'' 285 ''ipm_memory_release_region'' w)
        else
          bind_outcome (claim_remove_from_list cid list w) (\<lambda>(res, list).
          let list = unlock_list list w
          in if res \<noteq> IPM_RESULT_SUCCESS
             then Ret (res, list,
                    IPM_ERROR ctx (Lit ''Could not add memory claim to list'' # result_reason res)
                      ''ipm_memory.c'' 295 ''ipm_memory_release_region'' w)
             else Ret (res, list\<lparr>list_cnd := snd (ipm_condition_signal (list_cnd list) w)\<rparr>, w)))"

lemma release_from_guard:
  assumes "int i < sint (ucast c :: uint32)"
  shows "i < 2 ^ 31" and "c \<noteq> 0"
proof -
  have "sint (ucast c :: uint32) < 2 ^ 31" using sint_lt [of "ucast c :: uint32"] by simp
  then have "int i < int (2 ^ 31)" using assms by simp
  then show "i < 2 ^ 31" by (simp only: of_nat_less_iff)
  show "c \<noteq> 0" using assms by (intro notI) simp
qed

text \<open>
  \<^verbatim>\<open>for (int i = 0; i < (int)list->count; ++i)\<close>, where a removal takes one off \<open>i\<close> so that the same position
  is looked at again.
\<close>

function release_from ::
  "ipm_id \<Rightarrow> ipm_claim_list \<Rightarrow> 'a platform_scheme \<Rightarrow> nat \<Rightarrow> ipm_claim_list outcome" where
  "release_from me list w i =
     (if int i < sint (ucast (count list) :: uint32) then
        (if i < length (claims list) then
           (if proc_id (claims list ! i) = me then
              bind_outcome (claim_remove_from_list (claim_id (claims list ! i)) list w)
                (\<lambda>(r, list). release_from me list w i)
            else release_from me list w (Suc i))
         else UB)
      else Ret list)"
  by pat_completeness auto

termination
proof (relation "measure (\<lambda>(me, list, w, i). unat (count list) + (2 ^ 31 - i))")
  fix me :: ipm_id and list :: ipm_claim_list and w :: "'a platform_scheme" and i v r list'
  assume guard: "int i < sint (ucast (count list) :: uint32)"
  then have "count list \<noteq> 0" by (rule release_from_guard)
  then have "unat (count list - 1) < unat (count list)"
    by (simp add: unat_dec_size unat_gt_0)
  moreover assume "claim_remove_from_list (claim_id (claims list ! i)) list w = Ret v" and "(r, list') = v"
  then have "count list' = count list - 1" using claim_remove_count by metis
  ultimately show "((me, list', w, i), (me, list, w, i)) \<in>
      measure (\<lambda>(me, list, w, i). unat (count list) + (2 ^ 31 - i))"
    by simp
next
  fix me :: ipm_id and list :: ipm_claim_list and w :: "'a platform_scheme" and i
  assume "int i < sint (ucast (count list) :: uint32)"
  then have "i < 2 ^ 31" by (rule release_from_guard)
  then show "((me, list, w, Suc i), (me, list, w, i)) \<in>
      measure (\<lambda>(me, list, w, i). unat (count list) + (2 ^ 31 - i))"
    by simp
qed simp

declare release_from.simps [simp del]

definition release_all_list ::
  "'h ipm_context \<Rightarrow> ipm_id \<Rightarrow> ipm_claim_list \<Rightarrow> ('h, 'a) client_scheme \<Rightarrow>
     (ipm_result \<times> ipm_claim_list \<times> ('h, 'a) client_scheme) outcome" where
  "release_all_list ctx me list w =
     bind_outcome (ipm_mutex_lock (list_mutex list) w) (\<lambda>(res, m).
     let list = list\<lparr>list_mutex := m\<rparr>
     in if res \<noteq> IPM_RESULT_SUCCESS
        then Ret (res, list,
               IPM_ERROR ctx (Lit ''Could not lock the claim list mutex'' # result_reason res)
                 ''ipm_memory.c'' 312 ''ipm_memory_release_all'' w)
        else
          bind_outcome (release_from me list w 0) (\<lambda>list. Ret (res, unlock_list list w, w)))"

text \<open>\<^verbatim>\<open>while (list->count)\<close> remove the id of the last claim.\<close>

function remove_all_from :: "ipm_claim_list \<Rightarrow> 'a platform_scheme \<Rightarrow> ipm_claim_list outcome" where
  "remove_all_from list w =
     (if count list \<noteq> 0 then
        (if unat (count list - 1) < length (claims list) then
           bind_outcome
             (claim_remove_from_list (claim_id (claims list ! unat (count list - 1))) list w)
             (\<lambda>(r, list). remove_all_from list w)
         else UB)
      else Ret list)"
  by pat_completeness auto
termination
proof (relation "measure (\<lambda>(list, w). unat (count list))")
  fix list :: ipm_claim_list and w :: "'a platform_scheme" and v r list'
  assume "count list \<noteq> 0"
  then have "unat (count list - 1) < unat (count list)"
    by (simp add: unat_dec_size unat_gt_0)
  moreover assume "claim_remove_from_list (claim_id (claims list ! unat (count list - 1))) list w = Ret v"
    and "(r, list') = v"
  then have "count list' = count list - 1" using claim_remove_count by metis
  ultimately show "((list', w), (list, w)) \<in> measure (\<lambda>(list, w). unat (count list))" by simp
qed simp

declare remove_all_from.simps [simp del]

definition remove_all_list ::
  "'h ipm_context \<Rightarrow> ipm_claim_list \<Rightarrow> ('h, 'a) client_scheme \<Rightarrow>
     (ipm_result \<times> ipm_claim_list \<times> ('h, 'a) client_scheme) outcome" where
  "remove_all_list ctx list w =
     bind_outcome (ipm_mutex_lock (list_mutex list) w) (\<lambda>(res, m).
     let list = list\<lparr>list_mutex := m\<rparr>
     in if res \<noteq> IPM_RESULT_SUCCESS
        then Ret (res, list,
               IPM_ERROR ctx (Lit ''Could not lock the claim list mutex'' # result_reason res)
                 ''ipm_memory.c'' 340 ''ipm_memory_remove_all_active_claims'' w)
        else bind_outcome (remove_all_from list w) (\<lambda>list. Ret (res, unlock_list list w, w)))"

section \<open>Lists between and inside critical sections\<close>

text \<open>
  \<open>ready\<close>: a well-formed list whose mutex is free and whose condition variable is initialised, as it is
  between critical sections; \<open>held\<close>: the same while the caller holds the mutex. A polite process
  leaves the list ready when it finds it ready.
\<close>

definition ready :: "ipm_claim_list \<Rightarrow> bool" where
  "ready list \<longleftrightarrow>
     list_wf list \<and> list_mutex list = Mut shared_robust Unlocked \<and> list_cnd list \<noteq> Cnd_raw"

definition held :: "'a platform_scheme \<Rightarrow> ipm_claim_list \<Rightarrow> bool" where
  "held w list \<longleftrightarrow>
     list_wf list \<and> list_mutex list = Mut shared_robust (Locked (self w)) \<and> list_cnd list \<noteq> Cnd_raw"

definition polite :: "(ipm_claim_list \<Rightarrow> ipm_claim_list) \<Rightarrow> bool" where
  "polite f \<longleftrightarrow> (\<forall>list. ready list \<longrightarrow> ready (f list))"

definition grantable :: "ipm_memory_claim \<Rightarrow> ipm_claim_list \<Rightarrow> bool" where
  "grantable claim list \<longleftrightarrow>
     (\<forall>c \<in> set (active list). \<not> claims_conflict claim c) \<and> count list \<noteq> capacity list"

text \<open>The first state at which a sleeper finds its claim grantable, and the script that is left then.\<close>

fun wait_spec ::
  "ipm_memory_claim \<Rightarrow> nat \<Rightarrow> ipm_claim_list \<Rightarrow> (ipm_claim_list \<Rightarrow> ipm_claim_list) list \<Rightarrow>
     (ipm_claim_list \<times> (ipm_claim_list \<Rightarrow> ipm_claim_list) list) option" where
  "wait_spec claim t list [] = (if grantable claim list then Some (list, []) else None)"
| "wait_spec claim t list (f # fs) =
     (if grantable claim list then Some (list, f # fs)
      else wait_spec claim t
             ((f (list\<lparr>list_mutex := Mut shared_robust Unlocked\<rparr>))
                \<lparr>list_mutex := Mut shared_robust (Locked t)\<rparr>) fs)"

text \<open>What a call leaves alone of its caller.\<close>

definition caller_kept :: "('h, 'a) client_scheme \<Rightarrow> ('h, 'a) client_scheme \<Rightarrow> bool" where
  "caller_kept w w' \<longleftrightarrow> self w' = self w \<and> ndebug w' = ndebug w \<and> host w' = host w"

text \<open>The claim that the handler builds from its arguments.\<close>

abbreviation region_claim :: "ipm_access_mode \<Rightarrow> size_t \<Rightarrow> size_t \<Rightarrow> ipm_id \<Rightarrow> ipm_claim_list \<Rightarrow> ipm_memory_claim" where
  "region_claim acc off cnt me list \<equiv>
     \<lparr>claim_id = claim_counter list, proc_id = me, access = acc, offset = off, region_size = cnt\<rparr>"

text \<open>Claims with equal ids belong to one handle.\<close>

definition ids_by_proc :: "ipm_memory_claim list \<Rightarrow> bool" where
  "ids_by_proc cs \<longleftrightarrow> (\<forall>x \<in> set cs. \<forall>y \<in> set cs. claim_id x = claim_id y \<longrightarrow> proc_id x = proc_id y)"

text \<open>A caller for the examples, with the callbacks of the test programs.\<close>

definition sample_client :: "test_host client" where
  "sample_client =
     \<lparr>self = 1, errno = ENONE, ndebug = False, faults = [], attr_live = 0,
      host = \<lparr>live_blocks = {}, next_block = 0, malloc_budget = 100, stderr_text = [], bad_state = False\<rparr>,
      strerror = (\<lambda>_. []), others = []\<rparr>"

section \<open>Frames\<close>

lemma wf_list_mutex [simp]: "list_wf (list\<lparr>list_mutex := m\<rparr>) = list_wf list"
  by (simp add: list_wf_def)

lemma active_list_mutex [simp]: "active (list\<lparr>list_mutex := m\<rparr>) = active list"
  by (simp add: active_def)

lemma wf_claim_counter [simp]: "list_wf (list\<lparr>claim_counter := m\<rparr>) = list_wf list"
  by (simp add: list_wf_def)

lemma active_claim_counter [simp]: "active (list\<lparr>claim_counter := m\<rparr>) = active list"
  by (simp add: active_def)

lemma wf_list_cnd [simp]: "list_wf (list\<lparr>list_cnd := m\<rparr>) = list_wf list"
  by (simp add: list_wf_def)

lemma active_list_cnd [simp]: "active (list\<lparr>list_cnd := m\<rparr>) = active list"
  by (simp add: active_def)

lemma grantable_frame [simp]:
  "grantable claim (list\<lparr>list_mutex := m\<rparr>) = grantable claim list"
  "grantable claim (list\<lparr>claim_counter := n\<rparr>) = grantable claim list"
  by (simp_all add: grantable_def)

lemma held_unlock: "held w list \<Longrightarrow> ready (list\<lparr>list_mutex := Mut shared_robust Unlocked\<rparr>)"
  by (simp add: held_def ready_def)

lemma ready_lock: "ready list \<Longrightarrow> held w (list\<lparr>list_mutex := Mut shared_robust (Locked (self w))\<rparr>)"
  by (simp add: held_def ready_def)

lemma unlock_list_held:
  "list_mutex list = Mut shared_robust (Locked (self w)) \<Longrightarrow>
   unlock_list list w = list\<lparr>list_mutex := Mut shared_robust Unlocked\<rparr>"
  by (simp add: unlock_list_def)

section \<open>Waiting\<close>

lemma conflict_pos_grantable:
  assumes "list_wf list"
  shows "\<exists>i. conflict_pos claim list = Ret i \<and>
    (i = unat (count list) \<and> count list \<noteq> capacity list \<longleftrightarrow> grantable claim list)"
  using scan_eq [OF list_wfD(3) [OF assms], of "claims_conflict claim"]
    scan_all_iff [OF list_wfD(3) [OF assms], of "claims_conflict claim"]
  by (auto simp: conflict_pos_def grantable_def active_def)

lemma claim_wait_step:
  assumes "list_wf list"
  shows "claim_wait claim list w =
    (if grantable claim list then Ret (IPM_RESULT_SUCCESS, True, list, w)
     else
       bind_outcome (ipm_condition_wait list_cnd list_mutex list_mutex_update (sleep_others w) list w)
         (\<lambda>(res, list, w).
            if res \<noteq> IPM_RESULT_SUCCESS then Ret (res, False, list, w)
            else (case others w of
                    [] \<Rightarrow> Blocked
                  | f # fs \<Rightarrow> claim_wait claim list (w\<lparr>others := fs\<rparr>))))"
  using conflict_pos_grantable [OF assms, of claim]
  by (subst claim_wait.simps) auto

text \<open>One sleep of a caller that holds the mutex, with and without a fault.\<close>

lemma ipm_condition_wait_held:
  assumes "held w list" and "\<forall>f \<in> set (others w). polite f"
  shows "ipm_condition_wait list_cnd list_mutex list_mutex_update (sleep_others w) list w =
    (let (e, w') = next_fault w
     in if e \<noteq> ENONE then Ret (condition_wait_error (errno w'), list, w')
        else (case others w of
                [] \<Rightarrow> Blocked
              | f # fs \<Rightarrow>
                  Ret (IPM_RESULT_SUCCESS,
                       (f (list\<lparr>list_mutex := Mut shared_robust Unlocked\<rparr>))
                         \<lparr>list_mutex := Mut shared_robust (Locked (self w))\<rparr>, w')))"
proof (cases "others w")
  case Nil
  then show ?thesis using assms(1)
    by (cases "faults w")
      (auto simp: ipm_condition_wait_def pthread_cond_wait_def sleep_others_def next_fault_def held_def Let_def)
next
  case (Cons f fs)
  then have "ready (f (list\<lparr>list_mutex := Mut shared_robust Unlocked\<rparr>))"
    using assms held_unlock [OF assms(1)] by (simp add: polite_def)
  then show ?thesis using assms(1) Cons
    by (cases "faults w")
      (auto simp: ipm_condition_wait_def pthread_cond_wait_def sleep_others_def next_fault_def held_def
        ready_def Let_def)
qed


lemma claim_wait_spec:
  assumes "held w list" and "\<forall>f \<in> set (others w). polite f" and "faults w = []"
  shows "claim_wait claim list w =
    (case wait_spec claim (self w) list (others w) of
       None \<Rightarrow> Blocked
     | Some (l, fs) \<Rightarrow> Ret (IPM_RESULT_SUCCESS, True, l, w\<lparr>others := fs\<rparr>))"
  using assms
proof (induction "others w" arbitrary: list w)
  case Nil
  have wf: "list_wf list" using Nil.prems(1) by (simp add: held_def)
  have "w\<lparr>others := []\<rparr> = w" using Nil.hyps by (cases w) simp
  then show ?case
    using ipm_condition_wait_held [OF Nil.prems(1,2)] Nil
    by (simp add: claim_wait_step [OF wf] next_fault_def flip: Nil.hyps)
next
  case (Cons f fs)
  have wf: "list_wf list" using Cons.prems(1) by (simp add: held_def)
  let ?l = "(f (list\<lparr>list_mutex := Mut shared_robust Unlocked\<rparr>))
              \<lparr>list_mutex := Mut shared_robust (Locked (self w))\<rparr>"
  have same: "w\<lparr>others := f # fs\<rparr> = w" using Cons.hyps(2) by (cases w) simp
  have "ready (f (list\<lparr>list_mutex := Mut shared_robust Unlocked\<rparr>))"
    using held_unlock [OF Cons.prems(1)] Cons.prems(2) Cons.hyps(2) [symmetric] by (simp add: polite_def)
  then have "held (w\<lparr>others := fs\<rparr>) ?l" using ready_lock [of _ "w\<lparr>others := fs\<rparr>"] by simp
  then have "claim_wait claim ?l (w\<lparr>others := fs\<rparr>) =
      (case wait_spec claim (self w) ?l fs of
         None \<Rightarrow> Blocked
       | Some (l, gs) \<Rightarrow> Ret (IPM_RESULT_SUCCESS, True, l, w\<lparr>others := gs\<rparr>))"
    using Cons.hyps(1) [of "w\<lparr>others := fs\<rparr>" ?l] Cons.prems(2,3) Cons.hyps(2) [symmetric]
    by (simp split: option.splits)
  then show ?case
    using ipm_condition_wait_held [OF Cons.prems(1,2)] Cons.prems(3) Cons.hyps(2) [symmetric] same
    by (simp add: claim_wait_step [OF wf] next_fault_def)
qed

lemma claim_wait_outcome:
  assumes "held w list" and "\<forall>f \<in> set (others w). polite f"
  shows "claim_wait claim list w = Blocked \<or>
    (\<exists>r g l w'. claim_wait claim list w = Ret (r, g, l, w') \<and> held w' l \<and> caller_kept w w' \<and>
       (if g then r = IPM_RESULT_SUCCESS \<and> grantable claim l else r \<noteq> IPM_RESULT_SUCCESS))"
  using assms
proof (induction "length (others w)" arbitrary: list w rule: less_induct)
  case less
  have wf: "list_wf list" using less.prems(1) by (simp add: held_def)
  obtain e w1 where e: "next_fault w = (e, w1)" by (metis surj_pair)
  then have w1: "caller_kept w w1" "others w1 = others w"
    by (auto simp: next_fault_def caller_kept_def split: list.splits)
  note wait = ipm_condition_wait_held [OF less.prems, unfolded e]
  consider "grantable claim list" | "\<not> grantable claim list" "e \<noteq> ENONE"
    | "\<not> grantable claim list" "e = ENONE" "others w = []"
    | f fs where "\<not> grantable claim list" "e = ENONE" "others w = f # fs"
    by (cases "others w") blast+
  then show ?case
  proof cases
    case 1
    then show ?thesis using less.prems by (auto simp: claim_wait_step [OF wf] caller_kept_def)
  next
    case 2
    then show ?thesis using wait less.prems(1) w1
      by (auto simp: claim_wait_step [OF wf] held_def caller_kept_def)
  next
    case 3
    then show ?thesis using wait by (simp add: claim_wait_step [OF wf])
  next
    case (4 f fs)
    let ?l = "(f (list\<lparr>list_mutex := Mut shared_robust Unlocked\<rparr>))
                \<lparr>list_mutex := Mut shared_robust (Locked (self w))\<rparr>"
    have "ready (f (list\<lparr>list_mutex := Mut shared_robust Unlocked\<rparr>))"
      using held_unlock [OF less.prems(1)] less.prems(2) 4(3) by (simp add: polite_def)
    then have "held (w1\<lparr>others := fs\<rparr>) ?l"
      using ready_lock [of _ "w1\<lparr>others := fs\<rparr>"] w1 by (simp add: caller_kept_def)
    then show ?thesis
      using less.hyps [of "w1\<lparr>others := fs\<rparr>" ?l] less.prems(2) 4 wait w1
      by (auto simp: claim_wait_step [OF wf] caller_kept_def)
  qed
qed


section \<open>Claiming\<close>

lemma grantable_room:
  "list_wf list \<Longrightarrow> grantable claim list \<Longrightarrow> count list < capacity list"
  by (auto simp: grantable_def list_wf_def order_less_le)

text \<open>What the handler does after it was granted the claim on the list \<open>l\<close>.\<close>

lemma add_and_unlock:
  assumes "held w l" and "grantable claim l"
  obtains list' where "claim_add_to_list claim l w = Ret (IPM_RESULT_SUCCESS, list')"
    and "ready (unlock_list list' w)" and "active (unlock_list list' w) = added claim l"
    and "claim_counter (unlock_list list' w) = claim_counter l"
    and "capacity (unlock_list list' w) = capacity l"
    and "length (claims (unlock_list list' w)) = length (claims l)"
proof -
  have wf: "list_wf l" using assms(1) by (simp add: held_def)
  show thesis
  proof (rule claim_add_Ret [OF wf grantable_room [OF wf assms(2)], of claim w])
    fix list'
    assume a: "claim_add_to_list claim l w = Ret (IPM_RESULT_SUCCESS, list')"
      "active list' = added claim l" "list_wf list'" "capacity list' = capacity l"
      "list_mutex list' = list_mutex l" "list_cnd list' = list_cnd l"
      "claim_counter list' = claim_counter l" "length (claims list') = length (claims l)"
    have "unlock_list list' w = list'\<lparr>list_mutex := Mut shared_robust Unlocked\<rparr>"
      using a(5) assms(1) by (intro unlock_list_held) (simp add: held_def)
    then show thesis using that [OF a(1)] a assms(1) by (simp add: ready_def held_def)
  qed
qed

lemma claim_region_list_cases:
  assumes rdy: "ready list" and pol: "\<forall>f \<in> set (others w). polite f"
  shows "claim_region_list ctx acc off cnt me list w = Blocked \<or>
    (\<exists>l list' w'. claim_region_list ctx acc off cnt me list w =
         Ret (IPM_RESULT_SUCCESS, Some (claim_counter list), list', w') \<and>
       list_wf l \<and> grantable (region_claim acc off cnt me list) l \<and> ready list' \<and>
       active list' = added (region_claim acc off cnt me list) l \<and> caller_kept w w') \<or>
    (\<exists>list' w'. claim_region_list ctx acc off cnt me list w =
         Ret (IPM_RESULT_SUCCESS, None, list', w') \<and> ready list')"
proof -
  let ?l0 = "list\<lparr>list_mutex := Mut shared_robust (Locked (self w)), claim_counter := claim_counter list + 1\<rparr>"
  let ?claim = "region_claim acc off cnt me list"
  have held: "held w ?l0" using rdy by (simp add: held_def ready_def)
  have lock: "ipm_mutex_lock (list_mutex list) w =
      Ret (IPM_RESULT_SUCCESS, Mut shared_robust (Locked (self w)))"
    using rdy by (simp add: ready_def)
  consider "claim_wait ?claim ?l0 w = Blocked"
    | l w' where "claim_wait ?claim ?l0 w = Ret (IPM_RESULT_SUCCESS, True, l, w')"
        "held w' l" "caller_kept w w'" "grantable ?claim l"
    | r l w' where "claim_wait ?claim ?l0 w = Ret (r, False, l, w')" "held w' l" "r \<noteq> IPM_RESULT_SUCCESS"
    using claim_wait_outcome [OF held pol, of ?claim] by (metis (full_types))
  then show ?thesis
  proof cases
    case 1
    then show ?thesis by (simp add: claim_region_list_def lock Let_def)
  next
    case (2 l w')
    obtain list' where "claim_add_to_list ?claim l w' = Ret (IPM_RESULT_SUCCESS, list')"
      and "ready (unlock_list list' w')" and "active (unlock_list list' w') = added ?claim l"
      using add_and_unlock [OF 2(2,4)] by metis
    then show ?thesis using 2 by (auto simp: claim_region_list_def lock Let_def held_def)
  next
    case (3 r l w')
    let ?w = "IPM_ERROR ctx (Lit ''Could not wait on condition variable'' # result_reason r)
                ''ipm_memory.c'' 259 ''ipm_memory_claim_region'' w'"
    have "self ?w = self w'" by (simp add: IPM_ERROR_def split: prod.split)
    then have "ready (unlock_list l ?w)"
      using 3(2) by (subst unlock_list_held) (simp_all add: held_def ready_def)
    then show ?thesis using 3 by (auto simp: claim_region_list_def lock Let_def)
  qed
qed

text \<open>A claim that is grantable at once is granted without waiting, whatever the other processes do.\<close>

lemma claim_region_list_immediate:
  assumes rdy: "ready list" and g: "grantable (region_claim acc off cnt me list) list"
  shows "\<exists>list'. claim_region_list ctx acc off cnt me list w =
      Ret (IPM_RESULT_SUCCESS, Some (claim_counter list), list', w) \<and>
    ready list' \<and> active list' = added (region_claim acc off cnt me list) list \<and>
    claim_counter list' = claim_counter list + 1 \<and> capacity list' = capacity list \<and>
    length (claims list') = length (claims list)"
proof -
  let ?l0 = "list\<lparr>list_mutex := Mut shared_robust (Locked (self w)), claim_counter := claim_counter list + 1\<rparr>"
  let ?claim = "region_claim acc off cnt me list"
  have held: "held w ?l0" using rdy by (simp add: held_def ready_def)
  have lock: "ipm_mutex_lock (list_mutex list) w =
      Ret (IPM_RESULT_SUCCESS, Mut shared_robust (Locked (self w)))"
    using rdy by (simp add: ready_def)
  have g0: "grantable ?claim ?l0" using g by simp
  have wf: "list_wf ?l0" using held by (simp add: held_def)
  have "claim_wait ?claim ?l0 w = Ret (IPM_RESULT_SUCCESS, True, ?l0, w)"
    using claim_wait_step [OF wf, of ?claim w] g0 by simp
  moreover obtain list' where "claim_add_to_list ?claim ?l0 w = Ret (IPM_RESULT_SUCCESS, list')"
    and "ready (unlock_list list' w)" and "active (unlock_list list' w) = added ?claim ?l0"
    and "claim_counter (unlock_list list' w) = claim_counter ?l0"
    and "capacity (unlock_list list' w) = capacity ?l0"
    and "length (claims (unlock_list list' w)) = length (claims ?l0)"
    using add_and_unlock [OF held g0] by metis
  moreover have "added ?claim ?l0 = added ?claim list" by (simp add: added_def)
  ultimately show ?thesis by (simp add: claim_region_list_def lock Let_def)
qed


section \<open>Releasing\<close>

lemma release_region_list_found:
  assumes rdy: "ready list" and room: "ndebug w \<or> count list < capacity list"
    and found: "cid \<in> claim_id ` set (active list)"
  shows "\<exists>list'. release_region_list ctx cid list w = Ret (IPM_RESULT_SUCCESS, list', w) \<and>
    ready list' \<and> active list' = removed cid (active list) \<and>
    list_cnd list' = snd (pthread_cond_signal (list_cnd list)) \<and>
    capacity list' = capacity list \<and> claim_counter list' = claim_counter list \<and>
    length (claims list') = length (claims list)"
proof -
  let ?l0 = "list\<lparr>list_mutex := Mut shared_robust (Locked (self w))\<rparr>"
  have lock: "ipm_mutex_lock (list_mutex list) w =
      Ret (IPM_RESULT_SUCCESS, Mut shared_robust (Locked (self w)))"
    using rdy by (simp add: ready_def)
  have wf: "list_wf ?l0" using rdy by (simp add: ready_def)
  obtain list' where r: "claim_remove_from_list cid ?l0 w = Ret (IPM_RESULT_SUCCESS, list')"
    "active list' = removed cid (active list)" "list_wf list'"
    "list_mutex list' = Mut shared_robust (Locked (self w))" "list_cnd list' = list_cnd list"
    "capacity list' = capacity list" "claim_counter list' = claim_counter list"
    "length (claims list') = length (claims list)"
    using claim_remove_Ret [OF wf, of w cid] room found by auto
  have "list_cnd list \<noteq> Cnd_raw" using rdy by (simp add: ready_def)
  then obtain ps n where c: "list_cnd list = Cnd ps n" by (cases "list_cnd list") auto
  show ?thesis
    using r c
    by (auto simp: release_region_list_def lock Let_def unlock_list_held ready_def ipm_condition_signal_def)
qed

lemma ids_by_proc_mono: "set cs \<subseteq> set ds \<Longrightarrow> ids_by_proc ds \<Longrightarrow> ids_by_proc cs"
  unfolding ids_by_proc_def by blast

lemma removed_keeps_prefix:
  assumes "i < length cs" and "\<forall>j < i. claim_id (cs ! j) \<noteq> cid" and "claim_id (cs ! i) = cid"
  shows "take i (removed cid cs) = take i cs" and "set (drop i (removed cid cs)) \<subseteq> set (drop i cs)"
proof -
  have t: "takeWhile (\<lambda>c. claim_id c \<noteq> cid) cs = take i cs"
    using assms by (intro takeWhile_eq_take_P_nth) auto
  have len: "length (take i cs) = i" using assms(1) by simp
  have d: "dropWhile (\<lambda>c. claim_id c \<noteq> cid) cs = drop i cs"
    using t len by (simp add: dropWhile_eq_drop)
  then obtain x M where xM: "drop i cs = x # M" using assms(1) by (metis Cons_nth_drop_Suc)
  have r: "removed cid cs = take i cs @ (if M = [] then [] else butlast M @ [last (x # butlast M)])"
    by (simp add: removed_def t d xM Let_def)
  show "take i (removed cid cs) = take i cs" using r len by simp
  have "set (if M = [] then [] else butlast M @ [last (x # butlast M)]) \<subseteq> set (x # M)"
    by (cases M rule: rev_cases) (auto simp: last_conv_nth split: if_splits)
  then show "set (drop i (removed cid cs)) \<subseteq> set (drop i cs)" using r len xM by simp
qed

lemma take_drop_shorter:
  assumes "i < length xs" and "take (Suc i) ys = take (Suc i) xs"
    and "set (drop (Suc i) ys) \<subseteq> set (drop (Suc i) xs)"
  shows "take i ys = take i xs" and "set (drop i ys) \<subseteq> set (drop i xs)"
proof -
  show "take i ys = take i xs"
    using arg_cong [OF assms(2), of "take i"] by (simp add: min_def)
  have "length (take (Suc i) ys) = Suc i" using assms(1,2) by simp
  then have len: "i < length ys" by simp
  have "ys ! i = xs ! i" using arg_cong [OF assms(2), of "\<lambda>zs. zs ! i"] len by simp
  then show "set (drop i ys) \<subseteq> set (drop i xs)"
    using assms(1,3) len Cons_nth_drop_Suc [of i xs] Cons_nth_drop_Suc [of i ys]
    by (metis insert_mono list.simps(15))
qed

lemma release_guard_iff:
  assumes "list_wf list" and "length (claims list) < 2 ^ 31"
  shows "int i < sint (ucast (count list) :: uint32) \<longleftrightarrow> i < unat (count list)"
proof -
  let ?c = "ucast (count list) :: uint32"
  have u: "unat ?c = unat (count list)" by (rule count_fits_uint32 [OF assms(1)])
  have "int (unat ?c) < int (2 ^ 31)"
    using u list_wfD(3) [OF assms(1)] assms(2) by (simp only: of_nat_less_iff)
  then have lt: "uint ?c < 2 ^ 31" by simp
  have "0 \<le> uint ?c" by simp
  then have ge: "- (2 ^ 31) \<le> uint ?c" by (rule order_trans [rotated]) simp
  have "sint ?c = int (unat ?c)"
    using signed_take_bit_int_eq_self [OF ge lt] by (simp add: sint_uint del: unsigned_ucast_eq)
  then show ?thesis by (simp only: u of_nat_less_iff)
qed

text \<open>Removing the first claim of a handle keeps the claims before it, which belong to others.\<close>

lemma remove_first_own:
  assumes wf: "list_wf list" and room: "ndebug w \<or> count list < capacity list" and ids: "ids_by_proc (active list)"
    and i: "i < unat (count list)" and others: "\<forall>c \<in> set (take i (active list)). proc_id c \<noteq> me"
    and mine: "proc_id (claims list ! i) = me"
  obtains list' where "claim_remove_from_list (claim_id (claims list ! i)) list w = Ret (IPM_RESULT_SUCCESS, list')"
    "list_wf list'" "unat (count list') = unat (count list) - 1" "ndebug w \<or> count list' < capacity list'"
    "take i (active list') = take i (active list)" "set (drop i (active list')) \<subseteq> set (drop i (active list))"
    "ids_by_proc (active list')" "list_mutex list' = list_mutex list" "list_cnd list' = list_cnd list"
    "capacity list' = capacity list" "claim_counter list' = claim_counter list" "length (claims list') = length (claims list)"
proof -
  let ?cid = "claim_id (claims list ! i)"
  have at: "i < length (active list)" "claims list ! i = active list ! i"
    using i list_wfD [OF wf] by (simp_all add: active_def)
  have "?cid \<in> claim_id ` set (active list)" using at by (metis imageI nth_mem)
  then obtain list' where r: "claim_remove_from_list ?cid list w = Ret (IPM_RESULT_SUCCESS, list')"
    "active list' = removed ?cid (active list)" "list_wf list'"
    "count list' = count list - 1" "capacity list' = capacity list"
    "list_mutex list' = list_mutex list" "list_cnd list' = list_cnd list"
    "claim_counter list' = claim_counter list" "length (claims list') = length (claims list)"
    using claim_remove_Ret [OF wf room] by metis
  have "claim_id (active list ! j) \<noteq> ?cid" if j: "j < i" for j
  proof
    assume "claim_id (active list ! j) = ?cid"
    then have "proc_id (active list ! j) = proc_id (active list ! i)"
      using ids at j unfolding ids_by_proc_def by (metis nth_mem order_less_trans)
    moreover have "active list ! j \<in> set (take i (active list))"
      using j at(1) by (metis in_set_conv_nth length_take min_less_iff_conj nth_take order_less_trans)
    ultimately show False using others mine at(2) by simp
  qed
  then have pre: "take i (active list') = take i (active list)" "set (drop i (active list')) \<subseteq> set (drop i (active list))"
    using removed_keeps_prefix [OF at(1)] at(2) r(2) by metis+
  have "count list \<noteq> 0" using i by auto
  then have cnt: "unat (count list') = unat (count list) - 1" using r(4) unat_dec_size by metis
  then have "ndebug w \<or> count list' < capacity list'" using room r(5) i by (auto simp: word_less_nat_alt)
  moreover have "ids_by_proc (active list')" using ids_by_proc_mono [OF _ ids] set_removed_subset r(2) by metis
  ultimately show thesis using that r pre cnt by blast
qed

lemma release_from_Ret:
  assumes "list_wf list" and "ndebug w \<or> count list < capacity list"
    and "length (claims list) < 2 ^ 31" and "ids_by_proc (active list)"
    and "i \<le> unat (count list)" and "\<forall>c \<in> set (take i (active list)). proc_id c \<noteq> me"
  shows "\<exists>list'. release_from me list w i = Ret list' \<and> list_wf list' \<and>
    take i (active list') = take i (active list) \<and>
    set (drop i (active list')) \<subseteq> set (drop i (active list)) \<and>
    (\<forall>c \<in> set (active list'). proc_id c \<noteq> me) \<and>
    list_mutex list' = list_mutex list \<and> list_cnd list' = list_cnd list \<and>
    capacity list' = capacity list \<and> claim_counter list' = claim_counter list \<and>
    length (claims list') = length (claims list)"
  using assms
proof (induction me list w i rule: release_from.induct)
  case (1 me list w i)
  note d = list_wfD [OF "1.prems"(1)]
  note s = release_guard_iff [OF "1.prems"(1,3), of i]
  show ?case
  proof (cases "i < unat (count list)")
    case False
    then have "take i (active list) = active list" using "1.prems"(5) d(5) by simp
    then show ?thesis using False s "1.prems" by (subst release_from.simps) simp
  next
    case True
    then have i: "i < length (claims list)" "i < length (active list)" "claims list ! i = active list ! i"
      using d by (simp_all add: active_def)
    show ?thesis
    proof (cases "proc_id (claims list ! i) = me")
      case False
      have "\<forall>c \<in> set (take (Suc i) (active list)). proc_id c \<noteq> me"
        using "1.prems"(6) False i by (simp add: take_Suc_conv_app_nth)
      then obtain list' where l: "release_from me list w (Suc i) = Ret list'" "list_wf list'"
        "take (Suc i) (active list') = take (Suc i) (active list)"
        "set (drop (Suc i) (active list')) \<subseteq> set (drop (Suc i) (active list))"
        "\<forall>c \<in> set (active list'). proc_id c \<noteq> me"
        "list_mutex list' = list_mutex list" "list_cnd list' = list_cnd list"
        "capacity list' = capacity list" "claim_counter list' = claim_counter list"
        "length (claims list') = length (claims list)"
        using "1.IH"(2) False i(1) True s "1.prems" by auto
      note shorter = take_drop_shorter [OF i(2) l(3,4)]
      have "release_from me list w i = Ret list'"
        using l(1) False i(1) True s by (subst release_from.simps) simp
      then show ?thesis using l shorter by blast
    next
      case mine: True
      obtain list' where r: "claim_remove_from_list (claim_id (claims list ! i)) list w = Ret (IPM_RESULT_SUCCESS, list')"
        "list_wf list'" "unat (count list') = unat (count list) - 1" "ndebug w \<or> count list' < capacity list'"
        "take i (active list') = take i (active list)" "set (drop i (active list')) \<subseteq> set (drop i (active list))"
        "ids_by_proc (active list')" "list_mutex list' = list_mutex list" "list_cnd list' = list_cnd list"
        "capacity list' = capacity list" "claim_counter list' = claim_counter list"
        "length (claims list') = length (claims list)"
        by (rule remove_first_own [OF "1.prems"(1,2,4) True "1.prems"(6) mine])
      have "\<exists>list''. release_from me list' w i = Ret list'' \<and> list_wf list'' \<and>
          take i (active list'') = take i (active list') \<and>
          set (drop i (active list'')) \<subseteq> set (drop i (active list')) \<and>
          (\<forall>c \<in> set (active list''). proc_id c \<noteq> me) \<and>
          list_mutex list'' = list_mutex list' \<and> list_cnd list'' = list_cnd list' \<and>
          capacity list'' = capacity list' \<and> claim_counter list'' = claim_counter list' \<and>
          length (claims list'') = length (claims list')"
        using "1.IH"(1) [OF _ i(1) mine r(1) refl] s True r "1.prems"(3,6) by simp
      then show ?thesis
        using r True i(1) mine s by (subst release_from.simps) auto
    qed
  qed
qed

lemma remove_all_from_Ret:
  assumes "list_wf list" and "ndebug w \<or> count list < capacity list"
  shows "\<exists>list'. remove_all_from list w = Ret list' \<and> list_wf list' \<and> count list' = 0 \<and>
    list_mutex list' = list_mutex list \<and> list_cnd list' = list_cnd list \<and>
    capacity list' = capacity list \<and> claim_counter list' = claim_counter list \<and>
    length (claims list') = length (claims list)"
  using assms
proof (induction list w rule: remove_all_from.induct)
  case (1 list w)
  note d = list_wfD [OF "1.prems"(1)]
  show ?case
  proof (cases "count list = 0")
    case True
    then show ?thesis using "1.prems" by (subst remove_all_from.simps) simp
  next
    case False
    let ?i = "unat (count list - 1)"
    have n: "?i = unat (count list) - 1" "0 < unat (count list)"
      using unat_dec_size [OF False] False by (simp_all add: unat_gt_0)
    have i: "?i < length (claims list)" using n d(3) by linarith
    have "claims list ! ?i = active list ! ?i" and "?i < length (active list)"
      using n d by (simp_all add: active_def)
    then have found: "claim_id (claims list ! ?i) \<in> claim_id ` set (active list)"
      by (metis imageI nth_mem)
    obtain list' where r:
      "claim_remove_from_list (claim_id (claims list ! ?i)) list w = Ret (IPM_RESULT_SUCCESS, list')"
      "list_wf list'" "count list' = count list - 1" "capacity list' = capacity list"
      "list_mutex list' = list_mutex list" "list_cnd list' = list_cnd list"
      "claim_counter list' = claim_counter list" "length (claims list') = length (claims list)"
      using claim_remove_Ret [OF "1.prems" found] by metis
    have "ndebug w \<or> count list' < capacity list'"
      using "1.prems"(2) n r(3,4) by (auto simp: word_less_nat_alt)
    then show ?thesis
      using "1.IH" [OF False i r(1) refl] r False i by (subst remove_all_from.simps) auto
  qed
qed

lemma release_all_list_Ret:
  assumes "ready list" and "ndebug w \<or> count list < capacity list"
    and "length (claims list) < 2 ^ 31" and "ids_by_proc (active list)"
  shows "\<exists>list'. release_all_list ctx me list w = Ret (IPM_RESULT_SUCCESS, list', w) \<and> ready list' \<and>
    (\<forall>c \<in> set (active list'). proc_id c \<noteq> me) \<and> set (active list') \<subseteq> set (active list) \<and>
    list_cnd list' = list_cnd list \<and> capacity list' = capacity list \<and>
    claim_counter list' = claim_counter list \<and> length (claims list') = length (claims list)"
proof -
  let ?l0 = "list\<lparr>list_mutex := Mut shared_robust (Locked (self w))\<rparr>"
  have lock: "ipm_mutex_lock (list_mutex list) w =
      Ret (IPM_RESULT_SUCCESS, Mut shared_robust (Locked (self w)))"
    using assms(1) by (simp add: ready_def)
  obtain list' where "release_from me ?l0 w 0 = Ret list'" "list_wf list'"
    "set (active list') \<subseteq> set (active list)" "\<forall>c \<in> set (active list'). proc_id c \<noteq> me"
    "list_mutex list' = Mut shared_robust (Locked (self w))" "list_cnd list' = list_cnd list"
    "capacity list' = capacity list" "claim_counter list' = claim_counter list"
    "length (claims list') = length (claims list)"
    using release_from_Ret [of ?l0 w 0 me] assms by (auto simp: ready_def)
  then show ?thesis using assms(1)
    by (simp add: release_all_list_def lock Let_def unlock_list_held ready_def)
qed

lemma remove_all_list_Ret:
  assumes "ready list" and "ndebug w \<or> count list < capacity list"
  shows "\<exists>list'. remove_all_list ctx list w = Ret (IPM_RESULT_SUCCESS, list', w) \<and> ready list' \<and>
    active list' = [] \<and> list_cnd list' = list_cnd list \<and> capacity list' = capacity list \<and>
    claim_counter list' = claim_counter list \<and> length (claims list') = length (claims list)"
proof -
  let ?l0 = "list\<lparr>list_mutex := Mut shared_robust (Locked (self w))\<rparr>"
  have lock: "ipm_mutex_lock (list_mutex list) w =
      Ret (IPM_RESULT_SUCCESS, Mut shared_robust (Locked (self w)))"
    using assms(1) by (simp add: ready_def)
  obtain list' where "remove_all_from ?l0 w = Ret list'" "list_wf list'" "count list' = 0"
    "list_mutex list' = Mut shared_robust (Locked (self w))" "list_cnd list' = list_cnd list"
    "capacity list' = capacity list" "claim_counter list' = claim_counter list"
    "length (claims list') = length (claims list)"
    using remove_all_from_Ret [of ?l0 w] assms by (auto simp: ready_def)
  then show ?thesis using assms(1)
    by (simp add: remove_all_list_def lock Let_def unlock_list_held ready_def) (simp add: active_def)
qed

lemma sample_list_ready: "ready sample_list"
  by (simp add: ready_def sample_list_wf) (simp add: sample_list_def)

section \<open>Properties\<close>

text \<open>
  C8. A granted claim conflicts with no active one: when \<^verbatim>\<open>ipm_memory_claim_region\<close> hands out an id, the
  claim was added to a well-formed list none of whose active claims conflicts with it, the id is the
  value of the claim counter, and the list mutex is free again. Other processes may change the list
  in any polite way while the caller sleeps.
\<close>

theorem claim_region_granted:
  assumes "ready list" and "\<forall>f \<in> set (others w). polite f"
    and "claim_region_list ctx acc off cnt me list w = Ret (res, Some cid, list', w')"
  shows "res = IPM_RESULT_SUCCESS \<and> cid = claim_counter list \<and> ready list' \<and>
    (\<exists>l. list_wf l \<and> (\<forall>c \<in> set (active l). \<not> claims_conflict (region_claim acc off cnt me list) c) \<and>
       active list' = added (region_claim acc off cnt me list) l)"
  using claim_region_list_cases [OF assms(1,2), of ctx acc off cnt me] assms(3)
  by (auto simp: grantable_def)

theorem claim_region_granted_witness:
  "\<exists>list'. claim_region_list test_ctx IPM_ACCESS_MODE_READ_WRITE 32 16 1 sample_list sample_client =
     Ret (IPM_RESULT_SUCCESS, Some 2, list', sample_client) \<and> ready list'"
proof -
  have p: "\<forall>f \<in> set (others sample_client). polite f" by (simp add: sample_client_def)
  have "grantable (region_claim IPM_ACCESS_MODE_READ_WRITE 32 16 1 sample_list) sample_list"
    by (simp add: grantable_def active_def sample_list_def sample_claim_def)
  then obtain list' where l: "claim_region_list test_ctx IPM_ACCESS_MODE_READ_WRITE 32 16 1 sample_list sample_client =
      Ret (IPM_RESULT_SUCCESS, Some (claim_counter sample_list), list', sample_client)"
    using claim_region_list_immediate [OF sample_list_ready] by blast
  then show ?thesis
    using claim_region_granted [OF sample_list_ready p l] by (simp add: sample_list_def)
qed

text \<open>
  A claim that conflicts with no active claim is granted at once if there is room: the call returns
  without sleeping, whatever the scripts of faults and of other processes hold.
\<close>

lemma claim_region_immediate:
  assumes "ready list" and "count list < capacity list"
    and "\<forall>c \<in> set (active list). \<not> claims_conflict (region_claim acc off cnt me list) c"
  shows "\<exists>list'. claim_region_list ctx acc off cnt me list w =
      Ret (IPM_RESULT_SUCCESS, Some (claim_counter list), list', w) \<and>
    ready list' \<and> active list' = added (region_claim acc off cnt me list) list \<and>
    claim_counter list' = claim_counter list + 1"
proof -
  have "grantable (region_claim acc off cnt me list) list" using assms by (auto simp: grantable_def)
  then show ?thesis using claim_region_list_immediate [OF assms(1)] by blast
qed

text \<open>
  C16. Waiting is exact when no call fails: the handler returns if and only if the other processes bring the
  list to a state in which the claim is grantable, and otherwise it sleeps for ever; it never fails
  an assertion and never leaves the list.
\<close>

theorem claim_region_waits_exactly:
  assumes "ready list" and "\<forall>f \<in> set (others w). polite f" and "faults w = []"
  shows "(claim_region_list ctx acc off cnt me list w = Blocked \<longleftrightarrow>
      wait_spec (region_claim acc off cnt me list) (self w)
        (list\<lparr>list_mutex := Mut shared_robust (Locked (self w)), claim_counter := claim_counter list + 1\<rparr>)
        (others w) = None) \<and>
    claim_region_list ctx acc off cnt me list w \<noteq> UB \<and> claim_region_list ctx acc off cnt me list w \<noteq> Abort"
proof -
  let ?l0 = "list\<lparr>list_mutex := Mut shared_robust (Locked (self w)), claim_counter := claim_counter list + 1\<rparr>"
  let ?claim = "region_claim acc off cnt me list"
  have held: "held w ?l0" using assms(1) by (simp add: held_def ready_def)
  have lock: "ipm_mutex_lock (list_mutex list) w =
      Ret (IPM_RESULT_SUCCESS, Mut shared_robust (Locked (self w)))"
    using assms(1) by (simp add: ready_def)
  note spec = claim_wait_spec [OF held assms(2,3), of ?claim]
  show ?thesis
  proof (cases "wait_spec ?claim (self w) ?l0 (others w)")
    case None
    then show ?thesis using spec by (simp add: claim_region_list_def lock Let_def)
  next
    case (Some lf)
    then obtain l fs where w: "claim_wait ?claim ?l0 w = Ret (IPM_RESULT_SUCCESS, True, l, w\<lparr>others := fs\<rparr>)"
      using spec by (cases lf) auto
    then have "held (w\<lparr>others := fs\<rparr>) l" and "grantable ?claim l"
      using claim_wait_outcome [OF held assms(2), of ?claim] by auto
    then obtain list' where "claim_add_to_list ?claim l (w\<lparr>others := fs\<rparr>) = Ret (IPM_RESULT_SUCCESS, list')"
      using add_and_unlock by metis
    then show ?thesis using Some w by (simp add: claim_region_list_def lock Let_def)
  qed
qed

theorem claim_region_waits_exactly_witness:
  "claim_region_list test_ctx IPM_ACCESS_MODE_READ_WRITE 0 8 2 sample_list sample_client = Blocked"
proof -
  have "\<not> grantable (region_claim IPM_ACCESS_MODE_READ_WRITE 0 8 2 sample_list) sample_list"
    by (simp add: grantable_def active_def sample_list_def sample_claim_def claims_conflict_def)
  then show ?thesis
    using claim_region_waits_exactly [OF sample_list_ready, where acc = IPM_ACCESS_MODE_READ_WRITE
        and off = 0 and cnt = 8 and me = 2 and ctx = test_ctx and w = sample_client]
    by (simp add: sample_client_def)
qed

text \<open>
  Releasing an active id succeeds, removes as \<open>removed\<close> says, frees the mutex and notifies the condition
  variable once.
\<close>

lemma release_region_removes:
  assumes "ready list" and "count list < capacity list" and "cid \<in> claim_id ` set (active list)"
    and "list_cnd list = Cnd ps n"
  shows "\<exists>list'. release_region_list ctx cid list w = Ret (IPM_RESULT_SUCCESS, list', w) \<and>
    ready list' \<and> active list' = removed cid (active list) \<and> list_cnd list' = Cnd ps (Suc n)"
  using release_region_list_found [OF assms(1) _ assms(3), of w ctx] assms(2,4) by auto

text \<open>
  C29. Releasing everything of a handle: the loop terminates inside the list, no active claim of the handle is
  left, no claim comes in, and the mutex is free again. The condition variable is not notified, so a
  process that sleeps on one of these claims is not woken.
\<close>

theorem release_all_drops_handle:
  assumes "ready list" and "count list < capacity list" and "length (claims list) < 2 ^ 31"
    and "ids_by_proc (active list)"
  shows "\<exists>list'. release_all_list ctx me list w = Ret (IPM_RESULT_SUCCESS, list', w) \<and> ready list' \<and>
    (\<forall>c \<in> set (active list'). proc_id c \<noteq> me) \<and> set (active list') \<subseteq> set (active list) \<and>
    list_cnd list' = list_cnd list"
  using release_all_list_Ret [OF assms(1) _ assms(3,4), of w ctx me] assms(2) by blast

theorem release_all_drops_handle_witness:
  "\<exists>list'. release_all_list test_ctx 1 sample_list sample_client =
      Ret (IPM_RESULT_SUCCESS, list', sample_client) \<and> active list' = []"
proof -
  have s: "set (active sample_list) = {sample_claim 0 1 16, sample_claim 1 1 24}"
    by (simp add: active_def sample_list_def)
  have i: "ids_by_proc (active sample_list)"
    by (simp add: ids_by_proc_def s) (simp add: sample_claim_def)
  obtain list' where l: "release_all_list test_ctx 1 sample_list sample_client =
      Ret (IPM_RESULT_SUCCESS, list', sample_client)"
    and c: "\<forall>c \<in> set (active list'). proc_id c \<noteq> 1" "set (active list') \<subseteq> set (active sample_list)"
    using release_all_drops_handle [OF sample_list_ready _ _ i, of test_ctx 1 sample_client]
    by (auto simp: sample_list_def)
  have "\<forall>c \<in> set (active list'). proc_id c = 1" using c(2) by (auto simp: s sample_claim_def)
  then have "active list' = []" using c(1) by (cases "active list'") auto
  then show ?thesis using l by blast
qed

text \<open>
  \<^verbatim>\<open>ipm_memory_remove_all_active_claims\<close> empties the list of every handle, in finitely many steps and
  without leaving the array.
\<close>

lemma remove_all_empties:
  assumes "ready list" and "count list < capacity list"
  shows "\<exists>list'. remove_all_list ctx list w = Ret (IPM_RESULT_SUCCESS, list', w) \<and> ready list' \<and>
    active list' = [] \<and> list_cnd list' = list_cnd list"
  using remove_all_list_Ret [OF assms(1), of w ctx] assms(2) by blast

text \<open>
  C32. A failing wait looks like success: if the claim is not grantable and \<^verbatim>\<open>pthread_cond_wait\<close> fails, the handler frees the
  mutex, adds nothing and writes no id, but returns \<^verbatim>\<open>IPM_RESULT_SUCCESS\<close>. The caller goes on without a claim and
  with an id that was never set.
\<close>

theorem claim_region_hides_wait_failure:
  assumes "ready list" and "others w = []" and "\<not> grantable (region_claim acc off cnt me list) list"
    and "faults w = e # es" and "e \<noteq> ENONE"
  shows "\<exists>list' w'. claim_region_list ctx acc off cnt me list w = Ret (IPM_RESULT_SUCCESS, None, list', w') \<and>
    ready list' \<and> active list' = active list \<and> claim_counter list' = claim_counter list + 1"
proof -
  let ?l0 = "list\<lparr>list_mutex := Mut shared_robust (Locked (self w)), claim_counter := claim_counter list + 1\<rparr>"
  have held: "held w ?l0" using assms(1) by (simp add: held_def ready_def)
  have wf: "list_wf ?l0" using held by (simp add: held_def)
  have lock: "ipm_mutex_lock (list_mutex list) w =
      Ret (IPM_RESULT_SUCCESS, Mut shared_robust (Locked (self w)))"
    using assms(1) by (simp add: ready_def)
  have "claim_wait (region_claim acc off cnt me list) ?l0 w =
      Ret (condition_wait_error (errno w), False, ?l0, w\<lparr>faults := es\<rparr>)"
    using assms(2-5) ipm_condition_wait_held [OF held] by (simp add: claim_wait_step [OF wf] next_fault_def)
  then show ?thesis
    using assms(1)
    by (simp add: claim_region_list_def lock Let_def unlock_list_def IPM_ERROR_def ready_def ipm_mutex_unlock_def
        split: prod.split)
qed

theorem claim_region_hides_wait_failure_witness:
  "\<exists>list' w'. claim_region_list test_ctx IPM_ACCESS_MODE_READ_WRITE 0 8 2 sample_list (sample_client\<lparr>faults := [EINVAL]\<rparr>) =
     Ret (IPM_RESULT_SUCCESS, None, list', w') \<and> active list' = active sample_list"
proof -
  have "\<not> grantable (region_claim IPM_ACCESS_MODE_READ_WRITE 0 8 2 sample_list) sample_list"
    by (simp add: grantable_def active_def sample_list_def sample_claim_def claims_conflict_def)
  then show ?thesis
    using claim_region_hides_wait_failure [OF sample_list_ready, where acc = IPM_ACCESS_MODE_READ_WRITE
        and off = 0 and cnt = 8 and me = 2 and ctx = test_ctx and w = "sample_client\<lparr>faults := [EINVAL]\<rparr>"]
    by (auto simp: sample_client_def)
qed

end
