(* ===== verification/Shared_Memory.thy ===== *)
theory Shared_Memory
  imports Claim_Region
begin

text \<open>
  \<^verbatim>\<open>source/shared_memory.c\<close> and \<^verbatim>\<open>source/shared_memory.h\<close>: blocks of POSIX shared memory with a header
  page that counts the handles of the block and hands out access ids. The kernel is modelled as far
  as the code uses it: named objects, file descriptors and mappings of the calling process. Every
  system call that may fail for reasons outside the program asks the script of faults.
\<close>

unbundle bit_operations_syntax

section \<open>Headers and blocks\<close>

text \<open>The array \<^verbatim>\<open>block_name\<close> is kept with all its bytes.\<close>

record ipm_shared_memory_header =
  segment_mutex :: ipm_mut
  refcount :: uint32
  block_size :: size_t
  id_counter :: ipm_id
  block_id :: ipm_id
  block_name :: string

record ipm_shared_memory_block =
  access_id :: ipm_id
  mapped_size :: size_t
  header :: ptr
  memory :: ptr
  has_ownership :: "8 word"
  access_mode :: ipm_access_mode
  mem_fd :: int

text \<open>\<^verbatim>\<open>memset(block, 0xCC, sizeof(*block))\<close>\<close>

definition poisoned :: ipm_shared_memory_block where
  "poisoned =
     \<lparr>access_id = 0xCCCCCCCCCCCCCCCC, mapped_size = 0xCCCCCCCCCCCCCCCC, header = Wild, memory = Wild,
      has_ownership = 0xCC, access_mode = ACCESS_MODE_RAW 0xCCCCCCCC, mem_fd = - 858993460\<rparr>"

text \<open>What zero bytes mean as a header.\<close>

definition zero_header :: ipm_shared_memory_header where
  "zero_header =
     \<lparr>segment_mutex = Mut_raw, refcount = 0, block_size = 0, id_counter = 0, block_id = 0,
      block_name = replicate (IPM_MAX_NAME_LEN + 1) (CHR 0x00)\<rparr>"

text \<open>The text in a character array, up to its first zero byte.\<close>

definition c_string :: "string \<Rightarrow> string" where
  "c_string arr = takeWhile (\<lambda>c. c \<noteq> CHR 0x00) arr"

section \<open>The kernel\<close>

text \<open>
  An object has a length in bytes, a first page that is read as a header, and contents behind it. Of
  the contents the library itself only reads and writes the claim list, so only that reading of the
  bytes is kept; how many slots it has follows from the length. Sizes are those of x86-64 Linux.
\<close>

definition sizeof_ipm_claim_list :: size_t where
  "sizeof_ipm_claim_list = 112"

definition sizeof_ipm_memory_claim :: size_t where
  "sizeof_ipm_memory_claim = 40"

record shm_obj =
  obj_len :: nat
  obj_header :: ipm_shared_memory_header
  obj_list :: ipm_claim_list

record mapping =
  map_obj :: nat
  map_off :: nat
  map_len :: nat
  map_write :: bool
  map_gone :: nat

text \<open>
  On top of a client: open descriptors, the name space, the objects, the mappings of the process, the
  number of bytes that \<^verbatim>\<open>munmap\<close> was asked to remove beyond the end of a mapping, and what other
  processes do to the objects each time the caller yields the processor.
\<close>

record 'h world = "'h client" +
  fds :: "int \<rightharpoonup> nat"
  next_fd :: nat
  names :: "string \<rightharpoonup> nat"
  objs :: "nat \<Rightarrow> shm_obj"
  next_obj :: nat
  maps :: "nat \<rightharpoonup> mapping"
  next_map :: nat
  strays :: nat
  yields :: "((nat \<Rightarrow> shm_obj) \<Rightarrow> nat \<Rightarrow> shm_obj) list"

definition empty_obj :: shm_obj where
  "empty_obj = \<lparr>obj_len = 0, obj_header = zero_header, obj_list = zero_claim_list 0\<rparr>"

definition claim_slots :: "nat \<Rightarrow> nat" where
  "claim_slots len =
     (len - unat IPM_MEMORY_PAGE_SIZE - unat sizeof_ipm_claim_list) div unat sizeof_ipm_memory_claim"

definition resize_obj :: "nat \<Rightarrow> shm_obj \<Rightarrow> shm_obj" where
  "resize_obj len obj =
     obj\<lparr>obj_len := len,
         obj_header := (if len < unat IPM_MEMORY_PAGE_SIZE then zero_header else obj_header obj),
         obj_list :=
           (if len < unat IPM_MEMORY_PAGE_SIZE + unat sizeof_ipm_claim_list then zero_claim_list 0
            else (obj_list obj)
                   \<lparr>claims := take (claim_slots len)
                      (claims (obj_list obj) @ replicate (claim_slots len) zero_claim)\<rparr>)\<rparr>"

definition page_ceil :: "nat \<Rightarrow> nat" where
  "page_ceil n = (n + 4095) div 4096 * 4096"

subsection \<open>System calls\<close>

definition shm_open ::
  "string \<Rightarrow> bool \<Rightarrow> ('h, 'a) world_scheme \<Rightarrow> int \<times> ('h, 'a) world_scheme" where
  "shm_open name creat_excl w =
     (let (e, w) = next_fault w
      in if e \<noteq> ENONE then (- 1, w\<lparr>errno := e\<rparr>)
         else
           (case names w name of
              Some i \<Rightarrow>
                if creat_excl then (- 1, w\<lparr>errno := EEXIST\<rparr>)
                else (int (next_fd w),
                      w\<lparr>fds := (fds w)(int (next_fd w) \<mapsto> i), next_fd := Suc (next_fd w)\<rparr>)
            | None \<Rightarrow>
                if creat_excl
                then (int (next_fd w),
                      w\<lparr>fds := (fds w)(int (next_fd w) \<mapsto> next_obj w), next_fd := Suc (next_fd w),
                        names := (names w)(name \<mapsto> next_obj w),
                        objs := (objs w)(next_obj w := empty_obj), next_obj := Suc (next_obj w)\<rparr>)
                else (- 1, w\<lparr>errno := ENOENT\<rparr>)))"

definition ftruncate ::
  "int \<Rightarrow> size_t \<Rightarrow> ('h, 'a) world_scheme \<Rightarrow> int \<times> ('h, 'a) world_scheme" where
  "ftruncate fd len w =
     (let (e, w) = next_fault w
      in if e \<noteq> ENONE then (- 1, w\<lparr>errno := e\<rparr>)
         else
           (case fds w fd of
              None \<Rightarrow> (- 1, w\<lparr>errno := EBADF\<rparr>)
            | Some i \<Rightarrow>
                if sint len < 0 then (- 1, w\<lparr>errno := EINVAL\<rparr>)
                else (0, w\<lparr>objs := (objs w)(i := resize_obj (unat len) (objs w i))\<rparr>)))"

definition mmap ::
  "size_t \<Rightarrow> bool \<Rightarrow> int \<Rightarrow> size_t \<Rightarrow> ('h, 'a) world_scheme \<Rightarrow> ptr \<times> ('h, 'a) world_scheme" where
  "mmap len writable fd off w =
     (let (e, w) = next_fault w
      in if e \<noteq> ENONE then (MAP_FAILED, w\<lparr>errno := e\<rparr>)
         else if len = 0 then (MAP_FAILED, w\<lparr>errno := EINVAL\<rparr>)
         else
           (case fds w fd of
              None \<Rightarrow> (MAP_FAILED, w\<lparr>errno := EBADF\<rparr>)
            | Some i \<Rightarrow>
                (Addr (next_map w),
                 w\<lparr>maps := (maps w)(next_map w \<mapsto>
                     \<lparr>map_obj = i, map_off = unat off, map_len = page_ceil (unat len),
                      map_write = writable, map_gone = 0\<rparr>),
                   next_map := Suc (next_map w)\<rparr>)))"

definition munmap :: "ptr \<Rightarrow> size_t \<Rightarrow> ('h, 'a) world_scheme \<Rightarrow> ('h, 'a) world_scheme" where
  "munmap p len w =
     (if len = 0 then w\<lparr>errno := EINVAL\<rparr>
      else
        (case p of
           NULL \<Rightarrow> w
         | MAP_FAILED \<Rightarrow> w\<lparr>errno := EINVAL\<rparr>
         | Wild \<Rightarrow> w\<lparr>errno := EINVAL\<rparr>
         | Addr a \<Rightarrow>
             (case maps w a of
                None \<Rightarrow> w
              | Some m \<Rightarrow>
                  (let n = page_ceil (unat len);
                       w = w\<lparr>strays := strays w + (n - map_len m)\<rparr>
                   in if map_len m \<le> n then w\<lparr>maps := (maps w)(a := None)\<rparr>
                      else w\<lparr>maps := (maps w)(a \<mapsto> m\<lparr>map_gone := max (map_gone m) n\<rparr>)\<rparr>))))"

definition sys_close :: "int \<Rightarrow> ('h, 'a) world_scheme \<Rightarrow> ('h, 'a) world_scheme" where
  "sys_close fd w =
     (case fds w fd of
        None \<Rightarrow> w\<lparr>errno := EBADF\<rparr>
      | Some i \<Rightarrow> w\<lparr>fds := (fds w)(fd := None)\<rparr>)"

definition shm_unlink :: "string \<Rightarrow> ('h, 'a) world_scheme \<Rightarrow> int \<times> ('h, 'a) world_scheme" where
  "shm_unlink name w =
     (let (e, w) = next_fault w
      in if e \<noteq> ENONE then (- 1, w\<lparr>errno := e\<rparr>)
         else
           (case names w name of
              None \<Rightarrow> (- 1, w\<lparr>errno := ENOENT\<rparr>)
            | Some i \<Rightarrow> (0, w\<lparr>names := (names w)(name := None)\<rparr>)))"

subsection \<open>Access to mapped memory\<close>

text \<open>
  The object behind a pointer to a header page or to a claim list. Reading through a pointer that is
  not such a mapping, or a page past the end of the object, is undefined behaviour.
\<close>

definition page_at :: "nat \<Rightarrow> nat \<Rightarrow> ptr \<Rightarrow> ('h, 'a) world_scheme \<Rightarrow> nat option" where
  "page_at off need p w =
     (case p of
        Addr a \<Rightarrow>
          (case maps w a of
             Some m \<Rightarrow>
               if map_off m = off \<and> map_gone m = 0 \<and> map_write m \<and> need \<le> map_len m \<and>
                  off + need \<le> obj_len (objs w (map_obj m))
               then Some (map_obj m) else None
           | None \<Rightarrow> None)
      | _ \<Rightarrow> None)"

definition header_at :: "ptr \<Rightarrow> ('h, 'a) world_scheme \<Rightarrow> nat option" where
  "header_at p w = page_at 0 (unat IPM_MEMORY_PAGE_SIZE) p w"

definition read_header :: "ptr \<Rightarrow> ('h, 'a) world_scheme \<Rightarrow> ipm_shared_memory_header outcome" where
  "read_header p w =
     (case header_at p w of None \<Rightarrow> UB | Some i \<Rightarrow> Ret (obj_header (objs w i)))"

definition write_header ::
  "ptr \<Rightarrow> (ipm_shared_memory_header \<Rightarrow> ipm_shared_memory_header) \<Rightarrow> ('h, 'a) world_scheme \<Rightarrow>
     ('h, 'a) world_scheme outcome" where
  "write_header p f w =
     (case header_at p w of
        None \<Rightarrow> UB
      | Some i \<Rightarrow> Ret (w\<lparr>objs := (objs w)(i := obj_header_update f (objs w i))\<rparr>))"

definition list_at :: "ptr \<Rightarrow> ('h, 'a) world_scheme \<Rightarrow> nat option" where
  "list_at p w = page_at (unat IPM_MEMORY_PAGE_SIZE) (unat sizeof_ipm_claim_list) p w"

definition read_list :: "ptr \<Rightarrow> ('h, 'a) world_scheme \<Rightarrow> ipm_claim_list outcome" where
  "read_list p w = (case list_at p w of None \<Rightarrow> UB | Some i \<Rightarrow> Ret (obj_list (objs w i)))"

definition write_list ::
  "ptr \<Rightarrow> ipm_claim_list \<Rightarrow> ('h, 'a) world_scheme \<Rightarrow> ('h, 'a) world_scheme outcome" where
  "write_list p l w =
     (case list_at p w of
        None \<Rightarrow> UB
      | Some i \<Rightarrow> Ret (w\<lparr>objs := (objs w)(i := (objs w i)\<lparr>obj_list := l\<rparr>)\<rparr>))"

section \<open>Names of blocks\<close>

definition make_block_name_based_on_id :: "nat \<Rightarrow> string \<Rightarrow> ipm_id \<Rightarrow> string" where
  "make_block_name_based_on_id buffer_size bname bid =
     snprintf buffer_size [Lit ''/'', StrN IPM_MAX_NAME_LEN bname, Lit ''-'', HexId bid]"

definition name_buffer_size :: nat where
  "name_buffer_size = IPM_MAX_NAME_LEN + 32"

section \<open>Error numbers to results\<close>

text \<open>One function per \<^verbatim>\<open>switch (errno)\<close>.\<close>

fun create_open_error :: "errno \<Rightarrow> ipm_result" where
  "create_open_error EACCES = IPM_RESULT_ERR_ACCESS"
| "create_open_error EINVAL = IPM_RESULT_ERR_BAD_VALUE"
| "create_open_error EMFILE = IPM_RESULT_ERR_MAX_FDS"
| "create_open_error ENFILE = IPM_RESULT_ERR_MAX_FDS_SYS"
| "create_open_error ENAMETOOLONG = IPM_RESULT_ERR_NAME_TOO_LONG"
| "create_open_error _ = IPM_RESULT_ERR_OS_UNEXPECTED"

fun create_truncate_error :: "errno \<Rightarrow> ipm_result" where
  "create_truncate_error EACCES = IPM_RESULT_ERR_ACCESS"
| "create_truncate_error EBADF = IPM_RESULT_ERR_INVALID_FD"
| "create_truncate_error EINVAL = IPM_RESULT_ERR_INVALID_FD"
| "create_truncate_error EPERM = IPM_RESULT_ERR_BAD_FS"
| "create_truncate_error EROFS = IPM_RESULT_ERR_BAD_FS"
| "create_truncate_error _ = IPM_RESULT_ERR_OS_UNEXPECTED"

fun mmap_error :: "errno \<Rightarrow> ipm_result" where
  "mmap_error EACCES = IPM_RESULT_ERR_ACCESS"
| "mmap_error EAGAIN = IPM_RESULT_ERR_OS_OUT_OF_MEMORY"
| "mmap_error ENOMEM = IPM_RESULT_ERR_OS_OUT_OF_MEMORY"
| "mmap_error EINVAL = IPM_RESULT_ERR_BAD_VALUE"
| "mmap_error ENFILE = IPM_RESULT_ERR_MAX_FDS_SYS"
| "mmap_error _ = IPM_RESULT_ERR_OS_UNEXPECTED"

fun open_error :: "errno \<Rightarrow> ipm_result" where
  "open_error EACCES = IPM_RESULT_ERR_ACCESS"
| "open_error EINVAL = IPM_RESULT_ERR_BAD_VALUE"
| "open_error EMFILE = IPM_RESULT_ERR_MAX_FDS"
| "open_error ENFILE = IPM_RESULT_ERR_MAX_FDS_SYS"
| "open_error ENAMETOOLONG = IPM_RESULT_ERR_NAME_TOO_LONG"
| "open_error ENOENT = IPM_RESULT_ERR_DOES_NOT_EXIST"
| "open_error _ = IPM_RESULT_ERR_OS_UNEXPECTED"

fun unlink_error :: "errno \<Rightarrow> ipm_result" where
  "unlink_error EACCES = IPM_RESULT_ERR_ACCESS"
| "unlink_error _ = IPM_RESULT_ERR_OS_UNEXPECTED"

fun resize_error :: "errno \<Rightarrow> ipm_result" where
  "resize_error EACCES = IPM_RESULT_ERR_ACCESS"
| "resize_error EFBIG = IPM_RESULT_ERR_OS_OUT_OF_MEMORY"
| "resize_error EINVAL = IPM_RESULT_ERR_OS_OUT_OF_MEMORY"
| "resize_error EPERM = IPM_RESULT_ERR_BAD_FS"
| "resize_error EROFS = IPM_RESULT_ERR_BAD_FS"
| "resize_error EBADF = IPM_RESULT_ERR_BAD_VALUE"
| "resize_error _ = IPM_RESULT_ERR_OS_UNEXPECTED"

text \<open>\<^verbatim>\<open>IPM_ERROR\<close> from this file, and the piece \<^verbatim>\<open>reason: strerror(errno)\<close>.\<close>

definition shm_report ::
  "'h ipm_context \<Rightarrow> fmt_piece list \<Rightarrow> int \<Rightarrow> string \<Rightarrow> ('h, 'a) world_scheme \<Rightarrow> ('h, 'a) world_scheme" where
  "shm_report ctx msg line func w = IPM_ERROR ctx msg ''shared_memory.c'' line func w"

definition errno_reason :: "('h, 'a) client_scheme \<Rightarrow> fmt_piece list" where
  "errno_reason w = [Lit '', reason: '', Str (strerror w (errno w))]"

section \<open>Creating a block\<close>

text \<open>\<^verbatim>\<open>memcpy\<close> of the name with its terminator into the array of the header.\<close>

definition store_name :: "string \<Rightarrow> string \<Rightarrow> string outcome" where
  "store_name bname arr =
     (if length bname < length arr
      then Ret (bname @ CHR 0x00 # drop (Suc (length bname)) arr)
      else UB)"

text \<open>The part after both mappings exist: fill the header and hand out the first access id.\<close>

definition create_fill_header ::
  "'h ipm_context \<Rightarrow> string \<Rightarrow> ipm_id \<Rightarrow> size_t \<Rightarrow> ipm_access_mode \<Rightarrow> string \<Rightarrow> int \<Rightarrow> ptr \<Rightarrow> ptr \<Rightarrow>
     ipm_shared_memory_block \<Rightarrow> ('h, 'a) world_scheme \<Rightarrow>
     (ipm_result \<times> ipm_shared_memory_block \<times> ('h, 'a) world_scheme) outcome" where
  "create_fill_header ctx bname bid sz acc name_buffer fd block_memory hdr p_block w =
     bind_outcome (write_header hdr (\<lambda>h. h\<lparr>block_id := bid, block_size := sz, id_counter := 1\<rparr>) w) (\<lambda>w.
     bind_outcome (read_header hdr w) (\<lambda>h.
     let (res, m, w) = ipm_mutex_init (segment_mutex h) w
     in bind_outcome (write_header hdr (\<lambda>h. h\<lparr>segment_mutex := m\<rparr>) w) (\<lambda>w.
     if res \<noteq> IPM_RESULT_SUCCESS then
       (let w = sys_close fd w;
            w = shm_report ctx (Lit ''Could not create block mutex'' # errno_reason w) 123
                  ''shared_memory_block_create'' w;
            w = munmap hdr IPM_MEMORY_PAGE_SIZE w;
            w = munmap block_memory sz w;
            (u, w) = shm_unlink name_buffer w
        in Ret (res, p_block, w))
     else
       bind_outcome (read_header hdr w) (\<lambda>h.
       bind_outcome (store_name bname (block_name h)) (\<lambda>arr.
       bind_outcome (write_header hdr (\<lambda>h. h\<lparr>block_name := arr, id_counter := id_counter h + 1, refcount := 1\<rparr>) w) (\<lambda>w.
       Ret (IPM_RESULT_SUCCESS,
            \<lparr>access_id = id_counter h, mapped_size = sz, header = hdr, memory = block_memory,
             has_ownership = 0, access_mode = acc, mem_fd = fd\<rparr>, w)))))))"

text \<open>The part after the object has its length: map the contents, then the header.\<close>

definition create_map ::
  "'h ipm_context \<Rightarrow> string \<Rightarrow> ipm_id \<Rightarrow> size_t \<Rightarrow> ipm_access_mode \<Rightarrow> string \<Rightarrow> int \<Rightarrow>
     ipm_shared_memory_block \<Rightarrow> ('h, 'a) world_scheme \<Rightarrow>
     (ipm_result \<times> ipm_shared_memory_block \<times> ('h, 'a) world_scheme) outcome" where
  "create_map ctx bname bid sz acc name_buffer fd p_block w =
     (let (block_memory, w) = mmap sz (acc \<noteq> IPM_ACCESS_MODE_READ_ONLY) fd IPM_MEMORY_PAGE_SIZE w
      in if block_memory = MAP_FAILED then
           (let w = sys_close fd w;
                w = shm_report ctx (Lit ''Could not map shared memory to memory'' # errno_reason w) 75
                      ''shared_memory_block_create'' w;
                (u, w) = shm_unlink name_buffer w
            in Ret (mmap_error (errno w), p_block, w))
         else
     (let (hdr, w) = mmap IPM_MEMORY_PAGE_SIZE True fd 0 w
      in if hdr = NULL then
           (let w = sys_close fd w;
                w = shm_report ctx (Lit ''Could not map shared memory to memory'' # errno_reason w) 96
                      ''shared_memory_block_create'' w;
                w = munmap block_memory sz w;
                (u, w) = shm_unlink name_buffer w
            in Ret (mmap_error (errno w), p_block, w))
         else create_fill_header ctx bname bid sz acc name_buffer fd block_memory hdr p_block w))"

definition shared_memory_block_create ::
  "'h ipm_context \<Rightarrow> string \<Rightarrow> ipm_id \<Rightarrow> size_t \<Rightarrow> ipm_access_mode \<Rightarrow>
     ipm_shared_memory_block \<Rightarrow> ('h, 'a) world_scheme \<Rightarrow>
     (ipm_result \<times> ipm_shared_memory_block \<times> ('h, 'a) world_scheme) outcome" where
  "shared_memory_block_create ctx bname bid sz acc p_block w =
     c_assert (ndebug w) (sz AND IPM_MEMORY_PAGE_SIZE_MASK = 0)
     (c_assert (ndebug w) (sz > 0)
     (c_assert (ndebug w) (length bname \<le> IPM_MAX_NAME_LEN)
     (let name_buffer = make_block_name_based_on_id name_buffer_size bname bid;
          (fd, w) = shm_open name_buffer True w
      in if fd < 0 then
           (if errno w = EEXIST then Ret (IPM_RESULT_ERR_EXISTS, p_block, w)
            else
              (let w = shm_report ctx
                         ([Lit ''Could not open block with id '', HexId bid] @ errno_reason w) 33
                         ''shared_memory_block_create'' w
               in Ret (create_open_error (errno w), p_block, w)))
         else
     (let (truc_res, w) = ftruncate fd (sz + IPM_MEMORY_PAGE_SIZE) w
      in if truc_res < 0 then
           (let w = shm_report ctx
                      ([Lit ''Could not truncate shared memory's FD to '', Zu (sz + IPM_MEMORY_PAGE_SIZE),
                        Lit '' bytes''] @ errno_reason w) 54 ''shared_memory_block_create'' w;
                w = sys_close fd w;
                (u, w) = shm_unlink name_buffer w
            in Ret (create_truncate_error (errno w), p_block, w))
         else create_map ctx bname bid sz acc name_buffer fd p_block w))))"

section \<open>Opening a block\<close>

text \<open>The loop that yields until the creator has set the count of handles.\<close>

function open_wait :: "ptr \<Rightarrow> ('h, 'a) world_scheme \<Rightarrow> ('h, 'a) world_scheme outcome" where
  "open_wait hdr w =
     bind_outcome (read_header hdr w) (\<lambda>h.
     if refcount h \<noteq> 0 then Ret w
     else (case yields w of
             [] \<Rightarrow> Blocked
           | f # fs \<Rightarrow> open_wait hdr (w\<lparr>objs := f (objs w), yields := fs\<rparr>)))"
  by pat_completeness auto
termination
  by (relation "measure (\<lambda>(hdr, w). length (yields w))") auto

declare open_wait.simps [simp del]

text \<open>The part after both mappings exist: wait, compare the header, take a reference.\<close>

definition open_check_header ::
  "'h ipm_context \<Rightarrow> string \<Rightarrow> ipm_id \<Rightarrow> ipm_access_mode \<Rightarrow> int \<Rightarrow> ptr \<Rightarrow> ptr \<Rightarrow> size_t \<Rightarrow>
     ipm_shared_memory_block \<Rightarrow> ('h, 'a) world_scheme \<Rightarrow>
     (ipm_result \<times> ipm_shared_memory_block \<times> ('h, 'a) world_scheme) outcome" where
  "open_check_header ctx bname bid acc fd hdr block_memory sz p_block w =
     bind_outcome (open_wait hdr w) (\<lambda>w.
     bind_outcome (read_header hdr w) (\<lambda>h.
     if block_id h \<noteq> bid then
       (let w = sys_close fd w;
            w = shm_report ctx
                  [Lit ''Block id ('', HexId (block_id h), Lit '') did not match the specified id ('',
                   HexId bid, Lit '')''] 231 ''shared_memory_block_open'' w;
            w = munmap hdr IPM_MEMORY_PAGE_SIZE w;
            w = munmap block_memory sz w
        in Ret (IPM_RESULT_ERR_BAD_ID, p_block, w))
     else if length (block_name h) < length bname then UB
     else if take (length bname) (block_name h) \<noteq> bname then
       (let w = sys_close fd w;
            w = shm_report ctx
                  [Lit ''Block id ('', Str bname, Lit '') did not match the specified id ('',
                   StrN IPM_MAX_NAME_LEN (c_string (block_name h)), Lit '')''] 239
                  ''shared_memory_block_open'' w;
            w = munmap hdr IPM_MEMORY_PAGE_SIZE w;
            w = munmap block_memory sz w
        in Ret (IPM_RESULT_ERR_BAD_ID, p_block, w))
     else
       bind_outcome (write_header hdr (\<lambda>h. h\<lparr>refcount := refcount h + 1, id_counter := id_counter h + 1\<rparr>) w) (\<lambda>w.
       Ret (IPM_RESULT_SUCCESS,
            \<lparr>access_id = id_counter h, mapped_size = sz, header = hdr, memory = block_memory,
             has_ownership = 0, access_mode = acc, mem_fd = fd\<rparr>, w))))"

definition shared_memory_block_open ::
  "'h ipm_context \<Rightarrow> string \<Rightarrow> ipm_id \<Rightarrow> ipm_access_mode \<Rightarrow>
     ipm_shared_memory_block \<Rightarrow> ('h, 'a) world_scheme \<Rightarrow>
     (ipm_result \<times> ipm_shared_memory_block \<times> ('h, 'a) world_scheme) outcome" where
  "shared_memory_block_open ctx bname bid acc p_block w =
     c_assert (ndebug w) (length bname \<le> IPM_MAX_NAME_LEN)
     (let name_buffer = make_block_name_based_on_id name_buffer_size bname bid;
          (fd, w) = shm_open name_buffer False w
      in if fd < 0 then
           (if errno w = EEXIST then Ret (IPM_RESULT_ERR_EXISTS, p_block, w)
            else
              (let w = shm_report ctx
                         ([Lit ''Could not open block with id '', HexId bid] @ errno_reason w) 160
                         ''shared_memory_block_open'' w
               in Ret (open_error (errno w), p_block, w)))
         else
     (let (hdr, w) = mmap IPM_MEMORY_PAGE_SIZE True fd 0 w
      in if hdr = NULL then
           (let w = shm_report ctx (Lit ''Could not map shared memory to memory'' # errno_reason w) 182
                      ''shared_memory_block_open'' w
            in Ret (mmap_error (errno w), p_block, w))
         else
           bind_outcome (read_header hdr w) (\<lambda>h.
           let sz = block_size h;
               (block_memory, w) = mmap sz (acc \<noteq> IPM_ACCESS_MODE_READ_ONLY) fd IPM_MEMORY_PAGE_SIZE w
           in if block_memory = MAP_FAILED then
                (let w = sys_close fd w;
                     w = munmap hdr IPM_MEMORY_PAGE_SIZE w;
                     w = shm_report ctx (Lit ''Could not map shared memory to memory'' # errno_reason w) 205
                           ''shared_memory_block_open'' w
                 in Ret (mmap_error (errno w), p_block, w))
              else open_check_header ctx bname bid acc fd hdr block_memory sz p_block w)))"

section \<open>Closing a block\<close>

text \<open>The callback runs when the last reference goes away; \<open>None\<close> is the null pointer.\<close>

definition shared_memory_block_close ::
  "'h ipm_context \<Rightarrow> ipm_shared_memory_block \<Rightarrow>
     (('h, 'a) world_scheme \<Rightarrow> ('h, 'a) world_scheme outcome) option \<Rightarrow> ('h, 'a) world_scheme \<Rightarrow>
     (ipm_result \<times> ipm_shared_memory_block \<times> ('h, 'a) world_scheme) outcome" where
  "shared_memory_block_close ctx block callback w =
     c_assert (ndebug w) (has_ownership block = 0)
     (let hdr = header block;
          mem = memory block;
          w = sys_close (mem_fd block) w;
          block = poisoned
      in bind_outcome (read_header hdr w) (\<lambda>h.
         let refs = refcount h
         in bind_outcome (write_header hdr (\<lambda>h. h\<lparr>refcount := refcount h - 1\<rparr>) w) (\<lambda>w.
         if refs = 1 then
           bind_outcome (case callback of None \<Rightarrow> Ret w | Some f \<Rightarrow> f w) (\<lambda>w.
           bind_outcome (read_header hdr w) (\<lambda>h.
           bind_outcome
             (write_header hdr (\<lambda>h. h\<lparr>segment_mutex := snd (ipm_mutex_destroy (segment_mutex h) w)\<rparr>) w) (\<lambda>w.
           let bid = block_id h;
               name_buffer = make_block_name_based_on_id name_buffer_size (c_string (block_name h)) bid;
               w = munmap mem (block_size h) w;
               w = munmap hdr IPM_MEMORY_PAGE_SIZE w;
               (res, w) = shm_unlink name_buffer w
           in if res < 0 then
                (let w = shm_report ctx
                           ([Lit ''Could not unlink memory block '', Str name_buffer, Lit ''-'', HexId bid] @
                            errno_reason w) 287 ''shared_memory_block_close'' w
                 in Ret (unlink_error (errno w), block, w))
              else Ret (IPM_RESULT_SUCCESS, block, w))))
         else
           bind_outcome (read_header hdr w) (\<lambda>h.
           let w = munmap mem (block_size h) w;
               w = munmap hdr IPM_MEMORY_PAGE_SIZE w
           in Ret (IPM_RESULT_SUCCESS, block, w)))))"

section \<open>Ownership of a whole block\<close>

definition acquire_memory_block_whole ::
  "'h ipm_context \<Rightarrow> ipm_shared_memory_block \<Rightarrow> ('h, 'a) world_scheme \<Rightarrow>
     (ipm_result \<times> ipm_shared_memory_block \<times> ('h, 'a) world_scheme) outcome" where
  "acquire_memory_block_whole ctx block w =
     (if has_ownership block \<noteq> 0 then
        Ret (IPM_RESULT_ERR_ALREADY_LOCKED, block,
             shm_report ctx [Lit ''Already has block ownership''] 311 ''acquire_memory_block_whole'' w)
      else
        bind_outcome (read_header (header block) w) (\<lambda>h.
        bind_outcome (ipm_mutex_lock (segment_mutex h) w) (\<lambda>(wait_res, m).
        bind_outcome (write_header (header block) (\<lambda>h. h\<lparr>segment_mutex := m\<rparr>) w) (\<lambda>w.
        if wait_res \<noteq> IPM_RESULT_SUCCESS then
          Ret (wait_res, block,
               shm_report ctx (Lit ''Could not wait on block mutex'' # errno_reason w) 317
                 ''acquire_memory_block_whole'' w)
        else Ret (IPM_RESULT_SUCCESS, block\<lparr>has_ownership := 1\<rparr>, w)))))"

definition release_memory_block_whole ::
  "'h ipm_context \<Rightarrow> ipm_shared_memory_block \<Rightarrow> ('h, 'a) world_scheme \<Rightarrow>
     (ipm_result \<times> ipm_shared_memory_block \<times> ('h, 'a) world_scheme) outcome" where
  "release_memory_block_whole ctx block w =
     (if has_ownership block \<noteq> 0 then
        Ret (IPM_RESULT_ERR_NOT_LOCKED, block,
             shm_report ctx [Lit ''Does not have ownership of the block!''] 328
               ''release_memory_block_whole'' w)
      else
        bind_outcome
          (write_header (header block) (\<lambda>h. h\<lparr>segment_mutex := snd (ipm_mutex_unlock (segment_mutex h) w)\<rparr>) w)
          (\<lambda>w. Ret (IPM_RESULT_SUCCESS, block\<lparr>has_ownership := 0\<rparr>, w)))"

section \<open>Mapping again and resizing\<close>

text \<open>\<^verbatim>\<open>block->access_mode = 0\<close> is \<open>IPM_ACCESS_MODE_READ_ONLY\<close>, the first constant of the enum.\<close>

definition shared_memory_block_update_mapping ::
  "'h ipm_context \<Rightarrow> ipm_shared_memory_block \<Rightarrow> ipm_access_mode \<Rightarrow> ('h, 'a) world_scheme \<Rightarrow>
     (ipm_result \<times> ipm_shared_memory_block \<times> ('h, 'a) world_scheme) outcome" where
  "shared_memory_block_update_mapping ctx block acc w =
     bind_outcome (read_header (header block) w) (\<lambda>h.
     let new_size = block_size h
     in if mapped_size block = new_size \<and> acc = access_mode block \<and> memory block \<noteq> NULL
        then Ret (IPM_RESULT_SUCCESS, block, w)
        else
          (let w = munmap (memory block) (mapped_size block) w;
               block = block\<lparr>memory := NULL\<rparr>;
               (new_ptr, w) = mmap new_size (acc \<noteq> IPM_ACCESS_MODE_READ_ONLY) (mem_fd block)
                                IPM_MEMORY_PAGE_SIZE w
           in if new_ptr = MAP_FAILED then
                Ret (IPM_RESULT_ERR_OS_OUT_OF_MEMORY,
                     block\<lparr>mapped_size := 0, access_mode := IPM_ACCESS_MODE_READ_ONLY\<rparr>,
                     shm_report ctx (Lit ''Could not map the updated shared memory block'' # errno_reason w)
                       352 ''shared_memory_block_update_mapping'' w)
              else
                Ret (IPM_RESULT_SUCCESS,
                     block\<lparr>access_mode := acc, mapped_size := new_size, memory := NULL\<rparr>, w)))"

definition unlock_segment ::
  "ipm_shared_memory_block \<Rightarrow> ('h, 'a) world_scheme \<Rightarrow> ('h, 'a) world_scheme outcome" where
  "unlock_segment block w =
     write_header (header block) (\<lambda>h. h\<lparr>segment_mutex := snd (ipm_mutex_unlock (segment_mutex h) w)\<rparr>) w"

definition shared_memory_block_resize ::
  "'h ipm_context \<Rightarrow> ipm_shared_memory_block \<Rightarrow> size_t \<Rightarrow> ('h, 'a) world_scheme \<Rightarrow>
     (ipm_result \<times> ipm_shared_memory_block \<times> ('h, 'a) world_scheme) outcome" where
  "shared_memory_block_resize ctx block new_size w =
     bind_outcome (read_header (header block) w) (\<lambda>h.
     c_assert (ndebug w) (new_size \<ge> block_size h)
     (c_assert (ndebug w) (new_size AND IPM_MEMORY_PAGE_SIZE_MASK = 0)
     (c_assert (ndebug w) (new_size > 0)
     (bind_outcome (ipm_mutex_lock (segment_mutex h) w) (\<lambda>(sem_res, m).
      bind_outcome (write_header (header block) (\<lambda>h. h\<lparr>segment_mutex := m\<rparr>) w) (\<lambda>w.
      if sem_res \<noteq> IPM_RESULT_SUCCESS then
        Ret (sem_res, block,
             shm_report ctx
               (Lit ''Could not wait for semaphore to lock the memory segment'' # errno_reason w) 375
               ''shared_memory_block_resize'' w)
      else
      bind_outcome (read_header (header block) w) (\<lambda>h.
      if new_size = block_size h then
        bind_outcome (unlock_segment block w) (\<lambda>w.
        if new_size \<noteq> mapped_size block
        then shared_memory_block_update_mapping ctx block (access_mode block) w
        else Ret (IPM_RESULT_SUCCESS, block, w))
      else
        (let (res, w) = ftruncate (mem_fd block) (IPM_MEMORY_PAGE_SIZE + new_size) w
         in if res < 0 then
              bind_outcome (unlock_segment block w) (\<lambda>w.
              let w = shm_report ctx
                        ([Lit ''Could not truncate file to '', Zu (IPM_MEMORY_PAGE_SIZE + new_size),
                          Lit '' bytes''] @ errno_reason w) 395 ''shared_memory_block_resize'' w
              in Ret (resize_error (errno w), block, w))
            else
              bind_outcome (write_header (header block) (\<lambda>h. h\<lparr>block_size := new_size\<rparr>) w) (\<lambda>w.
              bind_outcome (unlock_segment block w) (\<lambda>w.
              shared_memory_block_update_mapping ctx block (access_mode block) w))))))))))"

text \<open>Leave the block without giving back the reference.\<close>

definition shared_memory_block_clean ::
  "ipm_shared_memory_block \<Rightarrow> ('h, 'a) world_scheme \<Rightarrow>
     (ipm_result \<times> ipm_shared_memory_block \<times> ('h, 'a) world_scheme) outcome" where
  "shared_memory_block_clean block w =
     c_assert (ndebug w) (has_ownership block = 0)
     (let hdr = header block;
          mem = memory block;
          w = sys_close (mem_fd block) w;
          block = poisoned
      in bind_outcome (read_header hdr w) (\<lambda>h.
         let w = munmap mem (block_size h) w;
             w = munmap hdr IPM_MEMORY_PAGE_SIZE w
         in Ret (IPM_RESULT_SUCCESS, block, w)))"

section \<open>Well-formed worlds and handles\<close>

text \<open>New descriptors, objects and mappings get numbers that are not in use.\<close>

definition kernel_ok :: "('h, 'a) world_scheme \<Rightarrow> bool" where
  "kernel_ok w \<longleftrightarrow>
     (\<forall>fd \<in> dom (fds w). fd < int (next_fd w)) \<and> (\<forall>a \<in> dom (maps w). a < next_map w) \<and>
     (\<forall>i \<in> ran (names w). i < next_obj w) \<and> (\<forall>i \<in> ran (fds w). i < next_obj w) \<and>
     (\<forall>m \<in> ran (maps w). map_obj m < next_obj w)"

text \<open>A handle of the object \<open>i\<close>: an open descriptor and both mappings, the contents mapped whole.\<close>

definition handle_ok :: "('h, 'a) world_scheme \<Rightarrow> nat \<Rightarrow> ipm_shared_memory_block \<Rightarrow> bool" where
  "handle_ok w i blk \<longleftrightarrow>
     has_ownership blk = 0 \<and> fds w (mem_fd blk) = Some i \<and>
     (case (header blk, memory blk) of
        (Addr a, Addr b) \<Rightarrow>
          a \<noteq> b \<and>
          maps w a = Some \<lparr>map_obj = i, map_off = 0, map_len = 4096, map_write = True, map_gone = 0\<rparr> \<and>
          maps w b = Some \<lparr>map_obj = i, map_off = 4096, map_len = page_ceil (unat (mapped_size blk)),
                           map_write = (access_mode blk \<noteq> IPM_ACCESS_MODE_READ_ONLY), map_gone = 0\<rparr>
      | _ \<Rightarrow> False)"

text \<open>An object that was set up as the block \<open>bname\<close> with number \<open>bid\<close>.\<close>

definition block_obj :: "string \<Rightarrow> ipm_id \<Rightarrow> shm_obj \<Rightarrow> bool" where
  "block_obj bname bid obj \<longleftrightarrow>
     (let h = obj_header obj
      in block_id h = bid \<and> length (block_name h) = IPM_MAX_NAME_LEN + 1 \<and>
         (\<exists>rest. block_name h = bname @ CHR 0x00 # rest) \<and>
         block_size h > 0 \<and> obj_len obj = 4096 + unat (block_size h))"

lemma set_tl_subset: "set (tl xs) \<subseteq> set xs"
  by (cases xs) auto

text \<open>Scripts without a fault, and with at most one.\<close>

definition quiet :: "'a platform_scheme \<Rightarrow> bool" where
  "quiet w \<longleftrightarrow> (\<forall>e \<in> set (faults w). e = ENONE)"

definition one_fault :: "'a platform_scheme \<Rightarrow> bool" where
  "one_fault w \<longleftrightarrow> length (filter (\<lambda>e. e \<noteq> ENONE) (faults w)) \<le> 1"

text \<open>A name that can be the text of a C string and fits into the header.\<close>

definition good_name :: "string \<Rightarrow> bool" where
  "good_name bname \<longleftrightarrow> length bname \<le> IPM_MAX_NAME_LEN \<and> CHR 0x00 \<notin> set bname"

definition same_resources :: "('h, 'a) world_scheme \<Rightarrow> ('h, 'a) world_scheme \<Rightarrow> bool" where
  "same_resources w w' \<longleftrightarrow>
     fds w' = fds w \<and> names w' = names w \<and> maps w' = maps w \<and> strays w' = strays w"

section \<open>Frames\<close>

lemma shm_report_frame [simp]:
  "self (shm_report ctx msg l f w) = self w" "ndebug (shm_report ctx msg l f w) = ndebug w"
  "faults (shm_report ctx msg l f w) = faults w" "attr_live (shm_report ctx msg l f w) = attr_live w"
  "strerror (shm_report ctx msg l f w) = strerror w" "others (shm_report ctx msg l f w) = others w"
  "fds (shm_report ctx msg l f w) = fds w" "next_fd (shm_report ctx msg l f w) = next_fd w"
  "names (shm_report ctx msg l f w) = names w" "objs (shm_report ctx msg l f w) = objs w"
  "next_obj (shm_report ctx msg l f w) = next_obj w" "maps (shm_report ctx msg l f w) = maps w"
  "next_map (shm_report ctx msg l f w) = next_map w" "strays (shm_report ctx msg l f w) = strays w"
  "yields (shm_report ctx msg l f w) = yields w"
  by (simp_all add: shm_report_def IPM_ERROR_def split: prod.split)

lemma next_fault_quiet: "quiet w \<Longrightarrow> next_fault w = (ENONE, w\<lparr>faults := tl (faults w)\<rparr>)"
  by (cases w; cases "faults w") (auto simp: next_fault_def quiet_def)

lemma next_fault_one:
  assumes "one_fault w"
  obtains "next_fault w = (ENONE, w\<lparr>faults := tl (faults w)\<rparr>)" "one_fault (w\<lparr>faults := tl (faults w)\<rparr>)"
    | e where "faults w \<noteq> []" "hd (faults w) = e" "e \<noteq> ENONE"
        "next_fault w = (e, w\<lparr>faults := tl (faults w)\<rparr>)" "quiet (w\<lparr>faults := tl (faults w)\<rparr>)"
  using assms
  by (cases w; cases "faults w")
    (auto simp: next_fault_def one_fault_def quiet_def filter_empty_conv split: if_splits)

lemma quiet_tl [simp]: "quiet w \<Longrightarrow> quiet (w\<lparr>faults := tl (faults w)\<rparr>)"
  by (cases "faults w") (auto simp: quiet_def)

lemma quiet_cong: "faults w = faults w' \<Longrightarrow> quiet w = quiet w'"
  by (simp add: quiet_def)

lemma ipm_mutex_init_frame:
  "ipm_mutex_init m w = (r, m', w') \<Longrightarrow> \<exists>fs. w' = w\<lparr>faults := fs\<rparr> \<and> set fs \<subseteq> set (faults w)"
  by (cases w) (auto simp: ipm_mutex_init_def init_defs split: list.splits if_splits)

lemma ipm_mutex_init_quiet:
  assumes "quiet w"
  shows "\<exists>fs. ipm_mutex_init m w = (IPM_RESULT_SUCCESS, Mut shared_robust Unlocked, w\<lparr>faults := fs\<rparr>) \<and>
    quiet (w\<lparr>faults := fs\<rparr>)"
proof -
  have "set (faults w) \<subseteq> {ENONE}" using assms by (auto simp: quiet_def)
  then show ?thesis
    by (cases w)
      (auto simp: ipm_mutex_init_def init_defs default_attr_def shared_robust_def quiet_def split: list.splits)
qed

lemma ipm_mutex_init_one:
  assumes "one_fault w" and "ipm_mutex_init m w = (r, m', w')"
  shows "(r = IPM_RESULT_SUCCESS \<and> m' = Mut shared_robust Unlocked \<and> one_fault w' \<or>
          r \<noteq> IPM_RESULT_SUCCESS \<and> m' = m \<and> quiet w') \<and> (\<exists>fs. w' = w\<lparr>faults := fs\<rparr> \<and> set fs \<subseteq> set (faults w))"
proof (rule conjI)
  show "\<exists>fs. w' = w\<lparr>faults := fs\<rparr> \<and> set fs \<subseteq> set (faults w)" using assms(2) by (rule ipm_mutex_init_frame)
  show "r = IPM_RESULT_SUCCESS \<and> m' = Mut shared_robust Unlocked \<and> one_fault w' \<or>
          r \<noteq> IPM_RESULT_SUCCESS \<and> m' = m \<and> quiet w'"
    using assms
    by (auto simp: ipm_mutex_init_def init_defs default_attr_def shared_robust_def one_fault_def quiet_def
        filter_empty_conv split: list.splits if_splits)
qed

section \<open>Sizes\<close>

lemma page_mask_iff:
  fixes sz :: size_t
  shows "sz AND IPM_MEMORY_PAGE_SIZE_MASK = 0 \<longleftrightarrow> unat sz mod 4096 = 0"
proof -
  have "IPM_MEMORY_PAGE_SIZE_MASK = mask 12"
    by (simp add: IPM_MEMORY_PAGE_SIZE_MASK_def mask_eq_exp_minus_1)
  then have "sz AND IPM_MEMORY_PAGE_SIZE_MASK = take_bit 12 sz" by (simp add: take_bit_eq_mask)
  moreover have "unat (take_bit 12 sz) = unat sz mod 4096"
    by (simp add: unsigned_take_bit_eq take_bit_eq_mod [where 'a = nat])
  ultimately show ?thesis by (metis unat_eq_0)
qed

lemma page_ceil_aligned: "n mod 4096 = 0 \<Longrightarrow> page_ceil n = n"
  by (auto simp: page_ceil_def)

lemma page_ceil_ge: "n \<le> page_ceil n"
  by (simp add: page_ceil_def)

lemma page_ceil_4096 [simp]: "page_ceil 4096 = 4096"
  by (simp add: page_ceil_def)

lemma unat_page_size [simp]: "unat IPM_MEMORY_PAGE_SIZE = 4096"
  by (simp add: IPM_MEMORY_PAGE_SIZE_def)

lemma sint_nonneg:
  fixes x :: size_t
  assumes "unat x < 2 ^ 63"
  shows "\<not> sint x < 0"
proof -
  have "uint x < 2 ^ 63" using assms by (metis of_nat_less_iff of_nat_numeral of_nat_power uint_nat)
  moreover have "- (2 ^ 63) \<le> uint x" by (rule order_trans [of _ 0]) simp_all
  ultimately have "sint x = uint x" by (simp add: sint_uint signed_take_bit_int_eq_self)
  then show ?thesis by simp
qed

lemma unat_plus_page:
  fixes sz :: size_t
  assumes "unat sz + 4096 < 2 ^ 63"
  shows "unat (sz + IPM_MEMORY_PAGE_SIZE) = unat sz + 4096"
  using assms by (subst unat_plus_no_wrap) (simp_all)

section \<open>Names\<close>

lemma block_name_text:
  "make_block_name_based_on_id name_buffer_size bname bid =
   ''/'' @ take IPM_MAX_NAME_LEN bname @ ''-'' @ hex16 bid"
  using length_hex16 [of bid]
  by (auto simp: make_block_name_based_on_id_def snprintf_def fmt_string_def name_buffer_size_def
      IPM_MAX_NAME_LEN_def min_def)

lemma last_dash:
  assumes "CHR ''-'' \<notin> set p" and "CHR ''-'' \<notin> set q" and "xs @ CHR ''-'' # p = ys @ CHR ''-'' # q"
  shows "xs = ys \<and> p = q"
proof -
  have r: "rev p @ CHR ''-'' # rev xs = rev q @ CHR ''-'' # rev ys"
    using arg_cong [OF assms(3), of rev] by simp
  have "rev p = takeWhile (\<lambda>c. c \<noteq> CHR ''-'') (rev p @ CHR ''-'' # rev xs)"
    using assms(1) by (induction p rule: rev_induct) auto
  moreover have "rev q = takeWhile (\<lambda>c. c \<noteq> CHR ''-'') (rev q @ CHR ''-'' # rev ys)"
    using assms(2) by (induction q rule: rev_induct) auto
  ultimately have "rev p = rev q" using r by metis
  then show ?thesis using r by simp
qed

lemma block_name_inj:
  assumes "length a \<le> IPM_MAX_NAME_LEN" and "length b \<le> IPM_MAX_NAME_LEN"
    and "make_block_name_based_on_id name_buffer_size a i = make_block_name_based_on_id name_buffer_size b j"
  shows "a = b \<and> i = j"
proof -
  have "a @ CHR ''-'' # hex16 i = b @ CHR ''-'' # hex16 j"
    using assms by (simp add: block_name_text)
  then show ?thesis using last_dash [OF hex16_no_dash hex16_no_dash] hex16_inj by blast
qed

lemma c_string_stored: "CHR 0x00 \<notin> set bname \<Longrightarrow> c_string (bname @ CHR 0x00 # rest) = bname"
  by (induction bname) (auto simp: c_string_def)


section \<open>Creating\<close>

text \<open>The header and the handle that a successful creation produces.\<close>

definition new_header :: "string \<Rightarrow> ipm_id \<Rightarrow> size_t \<Rightarrow> ipm_shared_memory_header \<Rightarrow> ipm_shared_memory_header" where
  "new_header bname bid sz h =
     \<lparr>segment_mutex = Mut shared_robust Unlocked, refcount = 1, block_size = sz, id_counter = 2,
      block_id = bid, block_name = bname @ CHR 0x00 # drop (Suc (length bname)) (block_name h)\<rparr>"

definition new_block :: "ipm_id \<Rightarrow> size_t \<Rightarrow> ipm_access_mode \<Rightarrow> int \<Rightarrow> ptr \<Rightarrow> ptr \<Rightarrow> ipm_shared_memory_block" where
  "new_block aid sz acc fd hdr mem =
     \<lparr>access_id = aid, mapped_size = sz, header = hdr, memory = mem, has_ownership = 0,
      access_mode = acc, mem_fd = fd\<rparr>"

lemma sys_close_frame [simp]:
  "self (sys_close fd w) = self w" "ndebug (sys_close fd w) = ndebug w" "faults (sys_close fd w) = faults w"
  "host (sys_close fd w) = host w" "others (sys_close fd w) = others w" "yields (sys_close fd w) = yields w"
  "next_fd (sys_close fd w) = next_fd w" "names (sys_close fd w) = names w" "objs (sys_close fd w) = objs w"
  "next_obj (sys_close fd w) = next_obj w" "maps (sys_close fd w) = maps w"
  "next_map (sys_close fd w) = next_map w" "strays (sys_close fd w) = strays w"
  "fds (sys_close fd w) = (fds w)(fd := None)"
  by (auto simp: sys_close_def split: option.split)

lemmas header_access = read_header_def write_header_def header_at_def page_at_def

lemma shm_unlink_quiet:
  assumes "quiet w" and "names w nb = Some i"
  shows "shm_unlink nb w = (0, w\<lparr>faults := tl (faults w), names := (names w)(nb := None)\<rparr>)"
  using assms by (simp add: shm_unlink_def next_fault_quiet)

lemma munmap_whole:
  assumes "maps w a = Some m" and "map_len m = page_ceil (unat len)" and "len \<noteq> 0"
  shows "munmap (Addr a) len w = w\<lparr>maps := (maps w)(a := None)\<rparr>"
  using assms by (cases w) (simp add: munmap_def)

lemma header_at_mapped:
  assumes "maps w a = Some \<lparr>map_obj = i, map_off = 0, map_len = 4096, map_write = True, map_gone = 0\<rparr>"
    and "4096 \<le> obj_len (objs w i)"
  shows "header_at (Addr a) w = Some i"
  using assms by (simp add: header_at_def page_at_def)

lemma header_at_objs:
  "header_at p w = Some i \<Longrightarrow> obj_len (os i) = obj_len (objs w i) \<Longrightarrow> header_at p (w\<lparr>objs := os\<rparr>) = Some i"
  by (auto simp: header_at_def page_at_def split: ptr.splits option.splits if_splits)

lemma header_at_faults [simp]: "header_at p (w\<lparr>faults := fs\<rparr>) = header_at p w"
  by (simp add: header_at_def page_at_def split: ptr.split option.split)

lemma unmap_both:
  assumes a: "maps w a = Some ma" "map_len ma = 4096" and b: "maps w b = Some mb" "map_len mb = page_ceil (unat sz)"
    and "sz \<noteq> 0" and "a \<noteq> b"
  shows "munmap (Addr b) sz (munmap (Addr a) IPM_MEMORY_PAGE_SIZE w) = w\<lparr>maps := (maps w)(a := None, b := None)\<rparr>"
    and "munmap (Addr a) IPM_MEMORY_PAGE_SIZE (munmap (Addr b) sz w) = w\<lparr>maps := (maps w)(b := None, a := None)\<rparr>"
proof -
  have pg: "map_len ma = page_ceil (unat IPM_MEMORY_PAGE_SIZE)" "IPM_MEMORY_PAGE_SIZE \<noteq> 0"
    using a(2) by (simp_all add: IPM_MEMORY_PAGE_SIZE_def)
  note w = munmap_whole [OF a(1) pg] munmap_whole [OF b assms(5)]
  have "maps (w\<lparr>maps := (maps w)(a := None)\<rparr>) b = Some mb" "maps (w\<lparr>maps := (maps w)(b := None)\<rparr>) a = Some ma"
    using assms(6) a(1) b(1) by simp_all
  from munmap_whole [OF this(1) b(2) assms(5)] munmap_whole [OF this(2) pg]
  show "munmap (Addr b) sz (munmap (Addr a) IPM_MEMORY_PAGE_SIZE w) = w\<lparr>maps := (maps w)(a := None, b := None)\<rparr>"
    and "munmap (Addr a) IPM_MEMORY_PAGE_SIZE (munmap (Addr b) sz w) = w\<lparr>maps := (maps w)(b := None, a := None)\<rparr>"
    by (simp_all add: w)
qed

text \<open>Giving back what a creation has got so far: the descriptor, the mappings and the name.\<close>

lemma undo_creation:
  assumes a: "maps v a = Some ma" "map_len ma = 4096" and b: "maps v b = Some mb" "map_len mb = page_ceil (unat sz)"
    and sz: "sz \<noteq> 0" "a \<noteq> b" and nb: "names v nb = Some i" "fds v fd = Some i" and q: "quiet v"
    and w': "w' = snd (shm_unlink nb (munmap (Addr b) sz (munmap (Addr a) IPM_MEMORY_PAGE_SIZE
      (shm_report ctx msg l f (sys_close fd v)))))"
  shows "fds w' = (fds v)(fd := None)" "names w' = (names v)(nb := None)" "maps w' = (maps v)(a := None, b := None)"
    "strays w' = strays v" "objs w' = objs v" "quiet w'" "ndebug w' = ndebug v"
proof -
  define u where "u = shm_report ctx msg l f (sys_close fd v)"
  have u: "fds u = (fds v)(fd := None)" "maps u = maps v" "names u = names v" "strays u = strays v" "objs u = objs v"
    "faults u = faults v" "ndebug u = ndebug v"
    using nb(2) by (simp_all add: u_def sys_close_def)
  have m: "munmap (Addr b) sz (munmap (Addr a) IPM_MEMORY_PAGE_SIZE u) = u\<lparr>maps := (maps v)(a := None, b := None)\<rparr>"
    using unmap_both(1) [OF _ a(2) _ b(2) sz, of u] a(1) b(1) u(2) by simp
  have "quiet (u\<lparr>maps := (maps v)(a := None, b := None)\<rparr>)" using q u(6) by (simp add: quiet_def)
  then have "w' = u\<lparr>maps := (maps v)(a := None, b := None), faults := tl (faults v), names := (names v)(nb := None)\<rparr>"
    using nb(1) u unfolding w' u_def [symmetric] m by (subst shm_unlink_quiet) simp_all
  then show "fds w' = (fds v)(fd := None)" "names w' = (names v)(nb := None)" "maps w' = (maps v)(a := None, b := None)"
    "strays w' = strays v" "objs w' = objs v" "quiet w'" "ndebug w' = ndebug v"
    using u quiet_tl [OF q] by (simp_all add: quiet_def)
qed

lemma create_fill_header_cases:
  assumes flt: "one_fault w" and nm: "good_name bname" and sz: "0 < sz"
    and arr: "length (block_name (obj_header (objs w i))) = IPM_MAX_NAME_LEN + 1"
    and fd: "fds w fd = Some i" and nb: "names w nb = Some i" and ab: "a \<noteq> b"
    and a: "maps w a = Some \<lparr>map_obj = i, map_off = 0, map_len = 4096, map_write = True, map_gone = 0\<rparr>"
    and b: "maps w b = Some m" "map_len m = page_ceil (unat sz)"
    and len: "4096 \<le> obj_len (objs w i)"
  shows
    "(\<exists>fs. set fs \<subseteq> set (faults w) \<and> one_fault (w\<lparr>faults := fs\<rparr>) \<and> create_fill_header ctx bname bid sz acc nb fd (Addr b) (Addr a) p_block w =
        Ret (IPM_RESULT_SUCCESS, new_block 1 sz acc fd (Addr a) (Addr b),
          w\<lparr>faults := fs, objs := (objs w)(i := obj_header_update (new_header bname bid sz) (objs w i))\<rparr>)) \<or>
     (\<exists>r w'. create_fill_header ctx bname bid sz acc nb fd (Addr b) (Addr a) p_block w = Ret (r, p_block, w') \<and>
        r \<noteq> IPM_RESULT_SUCCESS \<and> \<not> quiet w \<and> fds w' = (fds w)(fd := None) \<and> names w' = (names w)(nb := None) \<and>
        maps w' = (maps w)(a := None, b := None) \<and> strays w' = strays w \<and> (\<forall>j. j \<noteq> i \<longrightarrow> objs w' j = objs w j) \<and>
        quiet w' \<and> ndebug w' = ndebug w)"
proof -
  let ?o1 = "obj_header_update (\<lambda>h. h\<lparr>block_id := bid, block_size := sz, id_counter := 1\<rparr>) (objs w i)"
  let ?w1 = "w\<lparr>objs := (objs w)(i := ?o1)\<rparr>"
  have h: "header_at (Addr a) w = Some i" by (rule header_at_mapped [OF a len])
  have h1: "header_at (Addr a) ?w1 = Some i" by (rule header_at_objs [OF h]) simp
  obtain r m' w2 where mi: "ipm_mutex_init (segment_mutex (obj_header ?o1)) ?w1 = (r, m', w2)"
    by (metis surj_pair)
  have "one_fault ?w1" using flt by (simp add: one_fault_def)
  note init = ipm_mutex_init_one [OF this mi]
  then obtain fs where w2: "w2 = ?w1\<lparr>faults := fs\<rparr>" and sub: "set fs \<subseteq> set (faults w)" by auto
  let ?o3 = "obj_header_update (\<lambda>h. h\<lparr>segment_mutex := m'\<rparr>) ?o1"
  let ?w3 = "w2\<lparr>objs := (objs w2)(i := ?o3)\<rparr>"
  have h2: "header_at (Addr a) w2 = Some i" using h1 by (simp add: w2)
  have h3: "header_at (Addr a) ?w3 = Some i" by (rule header_at_objs [OF h2]) (simp add: w2)
  have bn: "length bname < length (block_name (obj_header (objs w i)))"
    using nm arr by (simp add: good_name_def)
  show ?thesis
  proof (cases "r = IPM_RESULT_SUCCESS")
    case True
    then have m': "m' = Mut shared_robust Unlocked" using init by blast
    have upd: "obj_header_update
        (\<lambda>h. h\<lparr>block_name := bname @ CHR 0x00 # drop (Suc (length bname)) (block_name (obj_header (objs w i))),
          id_counter := id_counter h + 1, refcount := 1\<rparr>) ?o3 =
        obj_header_update (new_header bname bid sz) (objs w i)"
      by (cases "objs w i") (simp add: m' new_header_def)
    have "create_fill_header ctx bname bid sz acc nb fd (Addr b) (Addr a) p_block w =
        Ret (IPM_RESULT_SUCCESS, new_block 1 sz acc fd (Addr a) (Addr b),
          w\<lparr>faults := fs, objs := (objs w)(i := obj_header_update (new_header bname bid sz) (objs w i))\<rparr>)"
      using h h1 h2 h3 mi True bn upd
      by (cases w) (simp add: create_fill_header_def write_header_def read_header_def w2 m' store_name_def
          new_block_def Let_def)
    moreover have "one_fault (w\<lparr>faults := fs\<rparr>)" using init True by (simp add: w2 one_fault_def)
    ultimately show ?thesis using sub by blast
  next
    case False
    then have q: "quiet w2" and nq: "\<not> quiet w"
      using init ipm_mutex_init_quiet [of ?w1 "segment_mutex (obj_header ?o1)"] mi
      by (auto simp: quiet_cong [of ?w1 w])
    define w' where "w' = snd (shm_unlink nb (munmap (Addr b) sz (munmap (Addr a) IPM_MEMORY_PAGE_SIZE
      (shm_report ctx (Lit ''Could not create block mutex'' # errno_reason (sys_close fd ?w3)) 123
        ''shared_memory_block_create'' (sys_close fd ?w3)))))"
    have "create_fill_header ctx bname bid sz acc nb fd (Addr b) (Addr a) p_block w = Ret (r, p_block, w')"
      using h h1 h2 h3 mi False
      by (simp add: create_fill_header_def write_header_def read_header_def Let_def w2 w'_def split: prod.split)
    moreover have "quiet ?w3" using q by (simp add: quiet_def)
    note undo_creation [OF _ _ _ b(2) _ ab _ _ this w'_def]
    ultimately show ?thesis using False nq a b(1) sz fd nb by (auto simp: w2)
  qed
qed

lemma kernel_ok_fresh:
  assumes "kernel_ok w"
  shows "next_map w \<le> a \<Longrightarrow> maps w a = None" and "int (next_fd w) \<le> fd \<Longrightarrow> fds w fd = None"
proof -
  have m: "\<forall>a \<in> dom (maps w). a < next_map w" and f: "\<forall>fd \<in> dom (fds w). fd < int (next_fd w)"
    using assms by (simp_all add: kernel_ok_def)
  show "maps w a = None" if "next_map w \<le> a" using m that by (metis domIff leD)
  show "fds w fd = None" if "int (next_fd w) \<le> fd" using f that by (metis domIff leD)
qed

lemma not_quiet_hd: "faults w \<noteq> [] \<Longrightarrow> hd (faults w) \<noteq> ENONE \<Longrightarrow> \<not> quiet w"
  by (auto simp: quiet_def)

lemma quiet_mono: "quiet w \<Longrightarrow> set (faults w') \<subseteq> set (faults w) \<Longrightarrow> quiet w'"
  by (auto simp: quiet_def)

lemma mmap_one:
  assumes flt: "one_fault w" and len: "len \<noteq> 0" and fd: "fds w fd = Some i"
  obtains
    (mapped) "mmap len wr fd off w = (Addr (next_map w),
        w\<lparr>faults := tl (faults w), maps := (maps w)(next_map w \<mapsto>
            \<lparr>map_obj = i, map_off = unat off, map_len = page_ceil (unat len), map_write = wr, map_gone = 0\<rparr>),
          next_map := Suc (next_map w)\<rparr>)"
      "one_fault (w\<lparr>faults := tl (faults w)\<rparr>)"
  | (failed) e where "mmap len wr fd off w = (MAP_FAILED, w\<lparr>faults := tl (faults w), errno := e\<rparr>)"
      "faults w \<noteq> []" "hd (faults w) \<noteq> ENONE" "quiet (w\<lparr>faults := tl (faults w)\<rparr>)"
  using flt
proof (cases rule: next_fault_one)
  case 1
  then show thesis using mapped len fd by (simp add: mmap_def)
next
  case (2 e)
  then show thesis using failed [of e] len fd by (simp add: mmap_def)
qed

lemma errors_not_success [simp]:
  "mmap_error e \<noteq> IPM_RESULT_SUCCESS" "create_open_error e \<noteq> IPM_RESULT_SUCCESS"
  "create_truncate_error e \<noteq> IPM_RESULT_SUCCESS" "open_error e \<noteq> IPM_RESULT_SUCCESS"
  "unlink_error e \<noteq> IPM_RESULT_SUCCESS" "resize_error e \<noteq> IPM_RESULT_SUCCESS"
  by (cases e; simp)+

text \<open>What creating may do once the object exists and has its length, for at most one fault.\<close>

lemma create_map_refused:
  assumes m: "mmap sz (acc \<noteq> IPM_ACCESS_MODE_READ_ONLY) fd IPM_MEMORY_PAGE_SIZE w = (MAP_FAILED, v)"
    and v: "fds v = fds w" "names v = names w" "maps v = maps w" "strays v = strays w" "objs v = objs w" "ndebug v = ndebug w"
    and q: "quiet v" and fd: "fds w fd = Some i" and nb: "names w nb = Some i"
  shows "\<exists>r w'. create_map ctx bname bid sz acc nb fd p_block w = Ret (r, p_block, w') \<and> r \<noteq> IPM_RESULT_SUCCESS \<and>
    fds w' = (fds w)(fd := None) \<and> names w' = (names w)(nb := None) \<and> maps w' = maps w \<and> strays w' = strays w \<and>
    objs w' = objs w \<and> quiet w' \<and> ndebug w' = ndebug w"
proof -
  define u where "u = shm_report ctx (Lit ''Could not map shared memory to memory'' # errno_reason (sys_close fd v)) 75
    ''shared_memory_block_create'' (sys_close fd v)"
  have u: "fds u = (fds w)(fd := None)" "names u = names w" "maps u = maps w" "strays u = strays w" "objs u = objs w"
    "faults u = faults v" "ndebug u = ndebug w"
    using v fd by (simp_all add: u_def sys_close_def)
  have qu: "quiet u" using q u(6) by (simp add: quiet_def)
  then have "shm_unlink nb u = (0, u\<lparr>faults := tl (faults u), names := (names w)(nb := None)\<rparr>)"
    using nb u(2) by (simp add: shm_unlink_quiet)
  then show ?thesis using m u quiet_tl [OF qu] by (simp add: create_map_def Let_def quiet_def flip: u_def)
qed

lemma create_map_cases:
  assumes ker: "kernel_ok w" and flt: "one_fault w" and nm: "good_name bname" and sz: "0 < sz"
    and arr: "length (block_name (obj_header (objs w i))) = IPM_MAX_NAME_LEN + 1"
    and fd: "fds w fd = Some i" and nb: "names w nb = Some i" and len: "4096 \<le> obj_len (objs w i)"
  shows
    "(\<exists>fs. set fs \<subseteq> set (faults w) \<and> one_fault (w\<lparr>faults := fs\<rparr>) \<and> create_map ctx bname bid sz acc nb fd p_block w =
        Ret (IPM_RESULT_SUCCESS, new_block 1 sz acc fd (Addr (Suc (next_map w))) (Addr (next_map w)),
          w\<lparr>faults := fs, objs := (objs w)(i := obj_header_update (new_header bname bid sz) (objs w i)),
            maps := (maps w)
              (next_map w \<mapsto> \<lparr>map_obj = i, map_off = 4096, map_len = page_ceil (unat sz),
                 map_write = (acc \<noteq> IPM_ACCESS_MODE_READ_ONLY), map_gone = 0\<rparr>,
               Suc (next_map w) \<mapsto> \<lparr>map_obj = i, map_off = 0, map_len = 4096, map_write = True, map_gone = 0\<rparr>),
            next_map := Suc (Suc (next_map w))\<rparr>)) \<or>
     (\<exists>r w'. create_map ctx bname bid sz acc nb fd p_block w = Ret (r, p_block, w') \<and>
        r \<noteq> IPM_RESULT_SUCCESS \<and> \<not> quiet w \<and> fds w' = (fds w)(fd := None) \<and> names w' = (names w)(nb := None) \<and>
        maps w' = maps w \<and> strays w' = strays w \<and> (\<forall>j. j \<noteq> i \<longrightarrow> objs w' j = objs w j) \<and>
        quiet w' \<and> ndebug w' = ndebug w) \<or>
     (create_map ctx bname bid sz acc nb fd p_block w = UB \<and>
        Suc 0 < length (faults w) \<and> faults w ! 1 \<noteq> ENONE)"
proof -
  let ?n = "next_map w" and ?wr = "acc \<noteq> IPM_ACCESS_MODE_READ_ONLY"
  let ?b = "\<lparr>map_obj = i, map_off = 4096, map_len = page_ceil (unat sz), map_write = ?wr, map_gone = 0\<rparr>"
  let ?a = "\<lparr>map_obj = i, map_off = 0, map_len = 4096, map_write = True, map_gone = 0\<rparr>"
  have fresh: "maps w ?n = None" "maps w (Suc ?n) = None"
    using kernel_ok_fresh [OF ker] by simp_all
  have sz0: "sz \<noteq> 0" using sz by auto
  show ?thesis
    using flt sz0 fd
  proof (cases rule: mmap_one [where wr = ?wr and off = IPM_MEMORY_PAGE_SIZE])
    case (failed e)
    have "quiet (w\<lparr>faults := tl (faults w), errno := e\<rparr>)" using failed(4) by (simp add: quiet_def)
    then show ?thesis
      using create_map_refused [OF failed(1) _ _ _ _ _ _ _ fd nb, of ctx bname bid p_block] not_quiet_hd [OF failed(2,3)]
      by auto
  next
    case mapped
    let ?w1 = "w\<lparr>faults := tl (faults w), maps := (maps w)(?n \<mapsto> ?b), next_map := Suc ?n\<rparr>"
    have flt1: "one_fault ?w1" using mapped(2) by (simp add: one_fault_def)
    have m1: "mmap sz ?wr fd IPM_MEMORY_PAGE_SIZE w = (Addr ?n, ?w1)" using mapped(1) by simp
    have fd1: "fds ?w1 fd = Some i" using fd by simp
    have pg: "IPM_MEMORY_PAGE_SIZE \<noteq> 0" by (simp add: IPM_MEMORY_PAGE_SIZE_def)
    show ?thesis
      using flt1 pg fd1
    proof (cases rule: mmap_one [where wr = True and off = 0])
      case (failed e)
      then have "create_map ctx bname bid sz acc nb fd p_block w = UB"
        using m1 by (simp add: create_map_def create_fill_header_def header_access)
      moreover have tl: "tl (faults w) \<noteq> []" "hd (tl (faults w)) \<noteq> ENONE" using failed by simp_all
      moreover have "Suc 0 < length (faults w)" using tl(1) by (cases "faults w") simp_all
      ultimately show ?thesis by (simp add: hd_conv_nth nth_tl)
    next
      case mapped
      let ?w2 = "w\<lparr>faults := tl (tl (faults w)), maps := (maps w)(?n \<mapsto> ?b, Suc ?n \<mapsto> ?a), next_map := Suc (Suc ?n)\<rparr>"
      have "create_map ctx bname bid sz acc nb fd p_block w =
          create_fill_header ctx bname bid sz acc nb fd (Addr ?n) (Addr (Suc ?n)) p_block ?w2"
        using m1 mapped(1) by (simp add: create_map_def)
      note eq = this
      have tl2: "set (tl (tl (faults w))) \<subseteq> set (faults w)" by (meson set_tl_subset subset_trans)
      have "one_fault ?w2" using mapped(2) by (simp add: one_fault_def)
      from create_fill_header_cases [OF this nm sz, where i = i and fd = fd and nb = nb and a = "Suc ?n"
          and b = ?n and m = ?b and ctx = ctx and bid = bid and acc = acc and p_block = p_block]
      show ?thesis
      proof (rule disjE)
        assume "\<exists>fs. set fs \<subseteq> set (faults ?w2) \<and> one_fault (?w2\<lparr>faults := fs\<rparr>) \<and> create_fill_header ctx bname bid sz acc nb fd (Addr ?n) (Addr (Suc ?n)) p_block ?w2 =
          Ret (IPM_RESULT_SUCCESS, new_block 1 sz acc fd (Addr (Suc ?n)) (Addr ?n),
            ?w2\<lparr>faults := fs, objs := (objs ?w2)(i := obj_header_update (new_header bname bid sz) (objs ?w2 i))\<rparr>)"
        then show ?thesis unfolding eq using tl2 by (intro disjI1) (cases w; fastforce simp: one_fault_def)
      qed (use arr fd nb len fresh tl2 in \<open>auto simp: eq fun_upd_idem fun_upd_twist quiet_def\<close>)
    qed
  qed
qed

definition new_obj :: "string \<Rightarrow> ipm_id \<Rightarrow> size_t \<Rightarrow> shm_obj" where
  "new_obj bname bid sz = obj_header_update (new_header bname bid sz) (resize_obj (unat sz + 4096) empty_obj)"

text \<open>The world after a successful creation, up to the faults that are left.\<close>

definition created ::
  "string \<Rightarrow> ipm_id \<Rightarrow> size_t \<Rightarrow> ipm_access_mode \<Rightarrow> ('h, 'a) world_scheme \<Rightarrow> ('h, 'a) world_scheme" where
  "created bname bid sz acc w =
     w\<lparr>fds := (fds w)(int (next_fd w) \<mapsto> next_obj w), next_fd := Suc (next_fd w),
       names := (names w)(make_block_name_based_on_id name_buffer_size bname bid \<mapsto> next_obj w),
       objs := (objs w)(next_obj w := new_obj bname bid sz), next_obj := Suc (next_obj w),
       maps := (maps w)
         (next_map w \<mapsto> \<lparr>map_obj = next_obj w, map_off = 4096, map_len = page_ceil (unat sz),
            map_write = (acc \<noteq> IPM_ACCESS_MODE_READ_ONLY), map_gone = 0\<rparr>,
          Suc (next_map w) \<mapsto>
            \<lparr>map_obj = next_obj w, map_off = 0, map_len = 4096, map_write = True, map_gone = 0\<rparr>),
       next_map := Suc (Suc (next_map w))\<rparr>"

lemma kernel_ok_open_new:
  assumes "kernel_ok w"
  shows "kernel_ok (w\<lparr>fds := (fds w)(int (next_fd w) \<mapsto> next_obj w), next_fd := Suc (next_fd w),
    names := (names w)(nb \<mapsto> next_obj w), objs := os, next_obj := Suc (next_obj w), faults := fs\<rparr>)"
proof -
  note k = assms [unfolded kernel_ok_def]
  have "map_obj m < Suc (next_obj w)" if "m \<in> ran (maps w)" for m
    using k that by (meson less_Suc_eq)
  moreover have "i < Suc (next_obj w)" if "i \<in> ran (names w) \<or> i \<in> ran (fds w)" for i
    using k that by (meson less_Suc_eq)
  moreover have "fd < int (Suc (next_fd w))" if "fd \<in> dom (fds w)" for fd
  proof -
    have "fd < int (next_fd w)" using k that by blast
    then show ?thesis by simp
  qed
  ultimately show ?thesis using k unfolding kernel_ok_def
    by (simp add: ran_def) (metis less_Suc_eq)
qed

text \<open>The worlds after the new object was linked to its name, and after it got its length.\<close>

definition linked :: "string \<Rightarrow> ('h, 'a) world_scheme \<Rightarrow> ('h, 'a) world_scheme" where
  "linked nb w =
     w\<lparr>faults := tl (faults w), fds := (fds w)(int (next_fd w) \<mapsto> next_obj w), next_fd := Suc (next_fd w),
       names := (names w)(nb \<mapsto> next_obj w), objs := (objs w)(next_obj w := empty_obj), next_obj := Suc (next_obj w)\<rparr>"

definition sized :: "string \<Rightarrow> size_t \<Rightarrow> ('h, 'a) world_scheme \<Rightarrow> ('h, 'a) world_scheme" where
  "sized nb sz w =
     (linked nb w)\<lparr>faults := tl (tl (faults w)),
       objs := (objs w)(next_obj w := resize_obj (unat sz + 4096) empty_obj)\<rparr>"

lemma shm_open_linked:
  "names w nb = None \<Longrightarrow> next_fault w = (ENONE, w\<lparr>faults := tl (faults w)\<rparr>) \<Longrightarrow>
   shm_open nb True w = (int (next_fd w), linked nb w)"
  by (simp add: shm_open_def linked_def)

lemma create_truncate_fails:
  fixes w :: "('h, 'a) world_scheme"
  defines "w1 \<equiv> \<lambda>nb. linked nb w"
  assumes ker: "kernel_ok w" and checks: "sz AND IPM_MEMORY_PAGE_SIZE_MASK = 0" "0 < sz" "length bname \<le> IPM_MAX_NAME_LEN"
    and nb: "nb = make_block_name_based_on_id name_buffer_size bname bid" "names w nb = None"
    and open_ok: "next_fault w = (ENONE, w\<lparr>faults := tl (faults w)\<rparr>)"
    and fault: "e \<noteq> ENONE" "next_fault (w1 nb) = (e, (w1 nb)\<lparr>faults := tl (faults (w1 nb))\<rparr>)"
      "quiet ((w1 nb)\<lparr>faults := tl (faults (w1 nb))\<rparr>)"
  shows "\<exists>r w'. shared_memory_block_create ctx bname bid sz acc p_block w = Ret (r, p_block, w') \<and>
    r \<noteq> IPM_RESULT_SUCCESS \<and> same_resources w w' \<and> (\<forall>j < next_obj w. objs w' j = objs w j) \<and>
    quiet w' \<and> ndebug w' = ndebug w"
proof -
  let ?fd = "int (next_fd w)" and ?i = "next_obj w"
  let ?we = "(w1 nb)\<lparr>faults := tl (faults (w1 nb)), errno := e\<rparr>"
  have fd_new: "fds w ?fd = None" using kernel_ok_fresh [OF ker] by simp
  define w2 where "w2 = sys_close ?fd (shm_report ctx
    ([Lit ''Could not truncate shared memory's FD to '', Zu (sz + IPM_MEMORY_PAGE_SIZE),
                    Lit '' bytes''] @ errno_reason ?we) 54 ''shared_memory_block_create'' ?we)"
  have w2: "fds w2 = fds w" "names w2 nb = Some ?i" "(names w2)(nb := None) = names w" "maps w2 = maps w"
    "strays w2 = strays w" "\<forall>j < ?i. objs w2 j = objs w j" "faults w2 = tl (faults (w1 nb))" "ndebug w2 = ndebug w"
    using fd_new nb(2) by (simp_all add: w2_def w1_def linked_def fun_upd_idem)
  have q2: "quiet w2" using fault(3) w2(7) by (simp add: quiet_def)
  then have u: "shm_unlink nb w2 = (0, w2\<lparr>faults := tl (faults w2), names := (names w2)(nb := None)\<rparr>)"
    using w2(2) by (rule shm_unlink_quiet)
  have "ftruncate ?fd (sz + IPM_MEMORY_PAGE_SIZE) (w1 nb) = (- 1, ?we)" using fault by (simp add: ftruncate_def)
  then have "shared_memory_block_create ctx bname bid sz acc p_block w =
      Ret (create_truncate_error (errno w2), p_block, snd (shm_unlink nb w2))"
    using shm_open_linked [OF nb(2) open_ok] checks u unfolding w2_def w1_def
    by (simp add: shared_memory_block_create_def Let_def flip: nb(1))
  then show ?thesis using u w2 quiet_tl [OF q2] by (simp add: same_resources_def quiet_def)
qed

text \<open>Mapping and filling the new object.\<close>

lemma create_map_sized:
  assumes ker: "kernel_ok w" and flt: "one_fault (sized nb sz w)" and nm: "good_name bname" and pos: "0 < sz"
    and nb: "nb = make_block_name_based_on_id name_buffer_size bname bid" "names w nb = None"
  defines "fd \<equiv> int (next_fd w)"
  shows
    "(\<exists>fs. set fs \<subseteq> set (faults w) \<and> one_fault (w\<lparr>faults := fs\<rparr>) \<and>
        create_map ctx bname bid sz acc nb fd p_block (sized nb sz w) =
        Ret (IPM_RESULT_SUCCESS, new_block 1 sz acc fd (Addr (Suc (next_map w))) (Addr (next_map w)),
             (created bname bid sz acc w)\<lparr>faults := fs\<rparr>)) \<or>
     (\<exists>r w'. create_map ctx bname bid sz acc nb fd p_block (sized nb sz w) = Ret (r, p_block, w') \<and>
        r \<noteq> IPM_RESULT_SUCCESS \<and> \<not> quiet w \<and> same_resources w w' \<and> (\<forall>j < next_obj w. objs w' j = objs w j) \<and>
        quiet w' \<and> ndebug w' = ndebug w) \<or>
     (create_map ctx bname bid sz acc nb fd p_block (sized nb sz w) = UB \<and>
        3 < length (faults w) \<and> faults w ! 3 \<noteq> ENONE)"
proof -
  let ?i = "next_obj w" and ?w2 = "sized nb sz w"
  have fd_new: "fds w fd = None" using kernel_ok_fresh [OF ker] by (simp add: fd_def)
  have f2: "faults ?w2 = tl (tl (faults w))" by (simp add: sized_def)
  have sub2: "set (faults ?w2) \<subseteq> set (faults w)" unfolding f2 by (meson set_tl_subset subset_trans)
  have o2: "objs ?w2 ?i = resize_obj (unat sz + 4096) empty_obj" by (simp add: sized_def)
  have ker2: "kernel_ok ?w2"
    using kernel_ok_open_new [OF ker] by (simp add: sized_def linked_def kernel_ok_def)
  have arr: "length (block_name (obj_header (objs ?w2 ?i))) = IPM_MAX_NAME_LEN + 1" "4096 \<le> obj_len (objs ?w2 ?i)"
    by (simp_all add: o2 resize_obj_def empty_obj_def zero_header_def)
  have at: "fds ?w2 fd = Some ?i" "names ?w2 nb = Some ?i" by (simp_all add: sized_def linked_def fd_def)
  from create_map_cases [OF ker2 flt nm pos arr(1) at arr(2), of ctx bid acc p_block]
  show ?thesis
  proof (elim disjE exE)
    fix fs
    assume "set fs \<subseteq> set (faults ?w2) \<and> one_fault (?w2\<lparr>faults := fs\<rparr>) \<and>
      create_map ctx bname bid sz acc nb fd p_block ?w2 =
        Ret (IPM_RESULT_SUCCESS, new_block 1 sz acc fd (Addr (Suc (next_map ?w2))) (Addr (next_map ?w2)),
          ?w2\<lparr>faults := fs, objs := (objs ?w2)(?i := obj_header_update (new_header bname bid sz) (objs ?w2 ?i)),
            maps := (maps ?w2)
              (next_map ?w2 \<mapsto> \<lparr>map_obj = ?i, map_off = 4096, map_len = page_ceil (unat sz),
                 map_write = (acc \<noteq> IPM_ACCESS_MODE_READ_ONLY), map_gone = 0\<rparr>,
               Suc (next_map ?w2) \<mapsto> \<lparr>map_obj = ?i, map_off = 0, map_len = 4096, map_write = True, map_gone = 0\<rparr>),
            next_map := Suc (Suc (next_map ?w2))\<rparr>)"
    then show ?thesis using sub2
      by (intro disjI1 exI [of _ fs]) (auto simp: created_def sized_def linked_def new_obj_def one_fault_def nb(1) [symmetric])
  next
    fix r w'
    assume "create_map ctx bname bid sz acc nb fd p_block ?w2 = Ret (r, p_block, w') \<and>
        r \<noteq> IPM_RESULT_SUCCESS \<and> \<not> quiet ?w2 \<and> fds w' = (fds ?w2)(fd := None) \<and> names w' = (names ?w2)(nb := None) \<and>
        maps w' = maps ?w2 \<and> strays w' = strays ?w2 \<and> (\<forall>j. j \<noteq> ?i \<longrightarrow> objs w' j = objs ?w2 j) \<and>
        quiet w' \<and> ndebug w' = ndebug ?w2"
    moreover have "\<not> quiet w" if "\<not> quiet ?w2" using that quiet_mono [OF _ sub2] by blast
    ultimately show ?thesis using fd_new nb(2)
      by (intro disjI2 disjI1) (auto simp: same_resources_def sized_def linked_def fun_upd_idem fd_def)
  next
    assume ub: "create_map ctx bname bid sz acc nb fd p_block ?w2 = UB \<and> Suc 0 < length (faults ?w2) \<and> faults ?w2 ! 1 \<noteq> ENONE"
    then have "3 < length (faults w)" "faults w ! 3 = faults ?w2 ! 1" by (auto simp: f2 nth_tl numeral_3_eq_3)
    then show ?thesis using ub by simp
  qed
qed

lemma block_create_cases:
  assumes ker: "kernel_ok w" and flt: "one_fault w" and nm: "good_name bname" and pos: "0 < sz"
    and al: "unat sz mod 4096 = 0" and small: "unat sz + 4096 < 2 ^ 63"
    and new: "names w (make_block_name_based_on_id name_buffer_size bname bid) = None"
  shows
    "(\<exists>fs. set fs \<subseteq> set (faults w) \<and> one_fault (w\<lparr>faults := fs\<rparr>) \<and> shared_memory_block_create ctx bname bid sz acc p_block w =
        Ret (IPM_RESULT_SUCCESS,
             new_block 1 sz acc (int (next_fd w)) (Addr (Suc (next_map w))) (Addr (next_map w)),
             (created bname bid sz acc w)\<lparr>faults := fs\<rparr>)) \<or>
     (\<exists>r w'. shared_memory_block_create ctx bname bid sz acc p_block w = Ret (r, p_block, w') \<and>
        r \<noteq> IPM_RESULT_SUCCESS \<and> \<not> quiet w \<and> same_resources w w' \<and> (\<forall>j < next_obj w. objs w' j = objs w j) \<and>
        quiet w' \<and> ndebug w' = ndebug w) \<or>
     (shared_memory_block_create ctx bname bid sz acc p_block w = UB \<and>
        3 < length (faults w) \<and> faults w ! 3 \<noteq> ENONE)"
proof -
  define nb where "nb = make_block_name_based_on_id name_buffer_size bname bid"
  have new': "names w nb = None" using new by (simp add: nb_def)
  have checks: "sz AND IPM_MEMORY_PAGE_SIZE_MASK = 0" "length bname \<le> IPM_MAX_NAME_LEN"
    using al nm by (simp_all add: page_mask_iff good_name_def)
  have len: "unat (sz + IPM_MEMORY_PAGE_SIZE) = unat sz + 4096" by (rule unat_plus_page [OF small])
  have nonneg: "\<not> sint (sz + IPM_MEMORY_PAGE_SIZE) < 0"
    by (rule sint_nonneg) (simp only: len small)
  show ?thesis
    using flt
  proof (cases rule: next_fault_one)
    case (2 e)
    then have "\<not> quiet w" using not_quiet_hd by blast
    then show ?thesis using 2 pos checks
      by (simp add: shared_memory_block_create_def shm_open_def Let_def same_resources_def quiet_def split: if_splits)
  next
    case 1
    have f1: "faults (linked nb w) = tl (faults w)" by (simp add: linked_def)
    have "one_fault (linked nb w)" using 1(2) by (simp add: linked_def one_fault_def)
    then show ?thesis
    proof (cases rule: next_fault_one)
      case (2 e)
      have "\<not> quiet w"
        using not_quiet_hd [of "linked nb w"] 2(1-3) quiet_mono [of w "linked nb w"] set_tl_subset [of "faults w"] f1 by auto
      then show ?thesis
        using create_truncate_fails [OF ker checks(1) pos checks(2) nb_def new' 1(1) 2(3-5)] by blast
    next
      case b: 1
      have "one_fault (sized nb sz w)" using b(2) by (simp add: f1 sized_def one_fault_def)
      moreover have "ftruncate (int (next_fd w)) (sz + IPM_MEMORY_PAGE_SIZE) (linked nb w) = (0, sized nb sz w)"
        using b(1) nonneg len by (simp add: ftruncate_def sized_def linked_def)
      then have "shared_memory_block_create ctx bname bid sz acc p_block w =
          create_map ctx bname bid sz acc nb (int (next_fd w)) p_block (sized nb sz w)"
        using shm_open_linked [OF new' 1(1)] pos checks by (simp add: shared_memory_block_create_def Let_def flip: nb_def)
      ultimately show ?thesis using create_map_sized [OF ker _ nm pos nb_def new'] by simp
    qed
  qed
qed

section \<open>Opening\<close>

text \<open>The world after a successful opening of the object \<open>i\<close>.\<close>

definition opened :: "nat \<Rightarrow> ipm_access_mode \<Rightarrow> ('h, 'a) world_scheme \<Rightarrow> ('h, 'a) world_scheme" where
  "opened i acc w =
     w\<lparr>fds := (fds w)(int (next_fd w) \<mapsto> i), next_fd := Suc (next_fd w),
       objs := (objs w)(i := obj_header_update
         (\<lambda>h. h\<lparr>refcount := refcount h + 1, id_counter := id_counter h + 1\<rparr>) (objs w i)),
       maps := (maps w)
         (next_map w \<mapsto> \<lparr>map_obj = i, map_off = 0, map_len = 4096, map_write = True, map_gone = 0\<rparr>,
          Suc (next_map w) \<mapsto>
            \<lparr>map_obj = i, map_off = 4096, map_len = page_ceil (unat (block_size (obj_header (objs w i)))),
             map_write = (acc \<noteq> IPM_ACCESS_MODE_READ_ONLY), map_gone = 0\<rparr>),
       next_map := Suc (Suc (next_map w))\<rparr>"

lemma mmap_quiet:
  assumes "quiet w" and "len \<noteq> 0" and "fds w fd = Some i"
  shows "mmap len wr fd off w = (Addr (next_map w),
    w\<lparr>faults := tl (faults w), maps := (maps w)(next_map w \<mapsto>
        \<lparr>map_obj = i, map_off = unat off, map_len = page_ceil (unat len), map_write = wr, map_gone = 0\<rparr>),
      next_map := Suc (next_map w)\<rparr>)"
  using assms by (simp add: mmap_def next_fault_quiet)

text \<open>The first two system calls of opening: the descriptor and the mapping of the header.\<close>

definition header_mapped :: "nat \<Rightarrow> ('h, 'a) world_scheme \<Rightarrow> ('h, 'a) world_scheme" where
  "header_mapped i w =
     w\<lparr>fds := (fds w)(int (next_fd w) \<mapsto> i), next_fd := Suc (next_fd w),
       maps := (maps w)(next_map w \<mapsto> \<lparr>map_obj = i, map_off = 0, map_len = 4096, map_write = True, map_gone = 0\<rparr>),
       next_map := Suc (next_map w), faults := tl (tl (faults w))\<rparr>"

lemma open_maps_header:
  assumes q: "quiet w" and nm: "length bname \<le> IPM_MAX_NAME_LEN"
    and nb: "names w (make_block_name_based_on_id name_buffer_size bname bid) = Some i"
  shows "shared_memory_block_open ctx bname bid acc p_block w =
    bind_outcome (read_header (Addr (next_map w)) (header_mapped i w)) (\<lambda>h.
      let sz = block_size h;
          (block_memory, w') = mmap sz (acc \<noteq> IPM_ACCESS_MODE_READ_ONLY) (int (next_fd w)) IPM_MEMORY_PAGE_SIZE (header_mapped i w)
      in if block_memory = MAP_FAILED then
           (let w' = sys_close (int (next_fd w)) w';
                w' = munmap (Addr (next_map w)) IPM_MEMORY_PAGE_SIZE w';
                w' = shm_report ctx (Lit ''Could not map shared memory to memory'' # errno_reason w') 205
                       ''shared_memory_block_open'' w'
            in Ret (mmap_error (errno w'), p_block, w'))
         else open_check_header ctx bname bid acc (int (next_fd w)) (Addr (next_map w)) block_memory sz p_block w')"
proof -
  let ?fd = "int (next_fd w)" and ?nb = "make_block_name_based_on_id name_buffer_size bname bid"
  let ?w1 = "w\<lparr>faults := tl (faults w), fds := (fds w)(?fd \<mapsto> i), next_fd := Suc (next_fd w)\<rparr>"
  have o: "shm_open ?nb False w = (?fd, ?w1)" using q nb by (simp add: shm_open_def next_fault_quiet)
  have q1: "quiet ?w1" using quiet_tl [OF q] by (simp add: quiet_def)
  have "mmap IPM_MEMORY_PAGE_SIZE True ?fd 0 ?w1 = (Addr (next_map w), header_mapped i w)"
    using mmap_quiet [OF q1, of IPM_MEMORY_PAGE_SIZE ?fd i] by (simp add: IPM_MEMORY_PAGE_SIZE_def header_mapped_def)
  then show ?thesis using o nm by (simp add: shared_memory_block_open_def Let_def)
qed

lemma header_mapped_read:
  "read_header (Addr (next_map w)) (header_mapped i w) =
     (if 4096 \<le> obj_len (objs w i) then Ret (obj_header (objs w i)) else UB)"
  by (simp add: read_header_def header_at_def page_at_def header_mapped_def)

lemma block_objD:
  assumes "block_obj bname bid obj"
  shows "block_id (obj_header obj) = bid" "0 < block_size (obj_header obj)"
    "obj_len obj = 4096 + unat (block_size (obj_header obj))"
    "take (length bname) (block_name (obj_header obj)) = bname"
    "length bname \<le> length (block_name (obj_header obj))"
    "CHR 0x00 \<notin> set bname \<Longrightarrow> c_string (block_name (obj_header obj)) = bname"
  using assms c_string_stored by (auto simp: block_obj_def Let_def)

lemma block_open_ok:
  assumes q: "quiet w" and nm: "length bname \<le> IPM_MAX_NAME_LEN"
    and nb: "names w (make_block_name_based_on_id name_buffer_size bname bid) = Some i"
    and obj: "block_obj bname bid (objs w i)" and live: "refcount (obj_header (objs w i)) \<noteq> 0"
  shows "\<exists>fs. shared_memory_block_open ctx bname bid acc p_block w =
      Ret (IPM_RESULT_SUCCESS,
        new_block (id_counter (obj_header (objs w i))) (block_size (obj_header (objs w i))) acc
          (int (next_fd w)) (Addr (next_map w)) (Addr (Suc (next_map w))),
        (opened i acc w)\<lparr>faults := fs\<rparr>) \<and> quiet (w\<lparr>faults := fs\<rparr>)"
proof -
  let ?h = "obj_header (objs w i)" and ?fd = "int (next_fd w)" and ?n = "next_map w"
  note d = block_objD [OF obj]
  let ?w2 = "header_mapped i w"
  have q2: "quiet ?w2" using quiet_tl [OF quiet_tl [OF q]] by (simp add: header_mapped_def quiet_def)
  define w3 where "w3 = ?w2\<lparr>faults := tl (tl (tl (faults w))), maps := (maps ?w2)
      (Suc ?n \<mapsto> \<lparr>map_obj = i, map_off = 4096, map_len = page_ceil (unat (block_size ?h)),
        map_write = (acc \<noteq> IPM_ACCESS_MODE_READ_ONLY), map_gone = 0\<rparr>), next_map := Suc (Suc ?n)\<rparr>"
  have m2: "mmap (block_size ?h) (acc \<noteq> IPM_ACCESS_MODE_READ_ONLY) ?fd IPM_MEMORY_PAGE_SIZE ?w2 = (Addr (Suc ?n), w3)"
    using mmap_quiet [OF q2, of "block_size ?h" ?fd i] d(2) by (simp add: w3_def header_mapped_def)
  have h3: "header_at (Addr ?n) w3 = Some i" using d(3) by (intro header_at_mapped) (simp_all add: w3_def header_mapped_def)
  have o3: "objs w3 = objs w" by (simp add: w3_def header_mapped_def)
  have r3: "read_header (Addr ?n) w3 = Ret ?h" using h3 o3 by (simp add: read_header_def)
  have "open_wait (Addr ?n) w3 = Ret w3" using live r3 by (subst open_wait.simps) simp
  then have "open_check_header ctx bname bid acc ?fd (Addr ?n) (Addr (Suc ?n)) (block_size ?h) p_block w3 =
      Ret (IPM_RESULT_SUCCESS, new_block (id_counter ?h) (block_size ?h) acc ?fd (Addr ?n) (Addr (Suc ?n)),
        (opened i acc w)\<lparr>faults := tl (tl (tl (faults w)))\<rparr>)"
    using d r3 h3 o3
    by (simp add: open_check_header_def not_less write_header_def new_block_def)
      (simp add: opened_def w3_def header_mapped_def)
  then have "shared_memory_block_open ctx bname bid acc p_block w =
      Ret (IPM_RESULT_SUCCESS, new_block (id_counter ?h) (block_size ?h) acc ?fd (Addr ?n) (Addr (Suc ?n)),
        (opened i acc w)\<lparr>faults := tl (tl (tl (faults w)))\<rparr>)"
    using m2 d(3) by (simp add: open_maps_header [OF q nm nb] header_mapped_read)
  moreover have "quiet (w\<lparr>faults := tl (tl (tl (faults w)))\<rparr>)"
    using quiet_tl [OF q2] by (simp add: quiet_def header_mapped_def)
  ultimately show ?thesis by blast
qed

section \<open>Closing\<close>

text \<open>The world after a handle of the object \<open>i\<close> was closed, apart from what happens at the last one.\<close>

definition detached :: "nat \<Rightarrow> ipm_shared_memory_block \<Rightarrow> ('h, 'a) world_scheme \<Rightarrow> ('h, 'a) world_scheme" where
  "detached i blk w =
     w\<lparr>fds := (fds w)(mem_fd blk := None),
       objs := (objs w)(i := obj_header_update (\<lambda>h. h\<lparr>refcount := refcount h - 1\<rparr>) (objs w i)),
       maps := (case (header blk, memory blk) of
                  (Addr a, Addr b) \<Rightarrow> (maps w)(a := None, b := None) | _ \<Rightarrow> maps w)\<rparr>"

lemma handle_okE:
  assumes "handle_ok w i blk"
  obtains a b where "header blk = Addr a" "memory blk = Addr b" "a \<noteq> b" "has_ownership blk = 0"
    "fds w (mem_fd blk) = Some i"
    "maps w a = Some \<lparr>map_obj = i, map_off = 0, map_len = 4096, map_write = True, map_gone = 0\<rparr>"
    "maps w b = Some \<lparr>map_obj = i, map_off = 4096, map_len = page_ceil (unat (mapped_size blk)),
                      map_write = (access_mode blk \<noteq> IPM_ACCESS_MODE_READ_ONLY), map_gone = 0\<rparr>"
  using assms by (auto simp: handle_ok_def split: ptr.splits)

lemma block_close_shared:
  assumes h: "handle_ok w i blk" and obj: "block_obj bname bid (objs w i)"
    and sz: "mapped_size blk = block_size (obj_header (objs w i))"
    and refs: "refcount (obj_header (objs w i)) \<noteq> 1"
  shows "shared_memory_block_close ctx blk callback w = Ret (IPM_RESULT_SUCCESS, poisoned, detached i blk w)"
proof -
  obtain a b where ab: "header blk = Addr a" "memory blk = Addr b" "a \<noteq> b" "has_ownership blk = 0"
    "fds w (mem_fd blk) = Some i"
    "maps w a = Some \<lparr>map_obj = i, map_off = 0, map_len = 4096, map_write = True, map_gone = 0\<rparr>"
    "maps w b = Some \<lparr>map_obj = i, map_off = 4096, map_len = page_ceil (unat (mapped_size blk)),
                      map_write = (access_mode blk \<noteq> IPM_ACCESS_MODE_READ_ONLY), map_gone = 0\<rparr>"
    using h by (rule handle_okE)
  note d = block_objD [OF obj]
  let ?w1 = "w\<lparr>fds := (fds w)(mem_fd blk := None)\<rparr>"
  have c: "sys_close (mem_fd blk) w = ?w1" using ab(5) by (simp add: sys_close_def)
  have h1: "header_at (Addr a) ?w1 = Some i" using ab(6) d(3) by (intro header_at_mapped) simp_all
  let ?o = "obj_header_update (\<lambda>h. h\<lparr>refcount := refcount h - 1\<rparr>) (objs w i)"
  define w2 where "w2 = ?w1\<lparr>objs := (objs w)(i := ?o)\<rparr>"
  have h2: "header_at (Addr a) w2 = Some i" using header_at_objs [OF h1] by (simp add: w2_def)
  have bs: "block_size (obj_header (objs w2 i)) = mapped_size blk" using sz by (simp add: w2_def)
  have mw: "maps w2 = maps w" by (simp add: w2_def)
  have u1: "munmap (Addr b) (mapped_size blk) w2 = w2\<lparr>maps := (maps w)(b := None)\<rparr>"
    using munmap_whole [OF ab(7) [folded mw], of "mapped_size blk"] d(2) sz mw by simp
  have "maps (w2\<lparr>maps := (maps w)(b := None)\<rparr>) a =
      Some \<lparr>map_obj = i, map_off = 0, map_len = 4096, map_write = True, map_gone = 0\<rparr>"
    using ab(3,6) by simp
  from munmap_whole [OF this, of IPM_MEMORY_PAGE_SIZE]
  have u2: "munmap (Addr a) IPM_MEMORY_PAGE_SIZE (w2\<lparr>maps := (maps w)(b := None)\<rparr>) =
      w2\<lparr>maps := (maps w)(b := None, a := None)\<rparr>"
    by (simp add: IPM_MEMORY_PAGE_SIZE_def)
  have "shared_memory_block_close ctx blk callback w =
      Ret (IPM_RESULT_SUCCESS, poisoned, w2\<lparr>maps := (maps w)(b := None, a := None)\<rparr>)"
    using ab(1,2,4) c h1 h2 refs u1 u2 bs
    by (simp add: shared_memory_block_close_def read_header_def write_header_def flip: w2_def)
  then show ?thesis using ab(1-3) by (simp add: detached_def w2_def fun_upd_twist)
qed

text \<open>
  The last handle: the callback runs before anything is unmapped, the segment mutex is destroyed and the
  name goes away. The callback is allowed to change what the object holds behind its header, by \<open>g\<close>.
\<close>

definition unlinked ::
  "string \<Rightarrow> nat \<Rightarrow> (ipm_claim_list \<Rightarrow> ipm_claim_list) \<Rightarrow> ('h, 'a) world_scheme \<Rightarrow> ('h, 'a) world_scheme" where
  "unlinked nb i g w =
     w\<lparr>objs := (objs w)(i := obj_header_update
           (\<lambda>h. h\<lparr>segment_mutex := snd (ipm_mutex_destroy (segment_mutex h) w)\<rparr>)
           (obj_list_update g (objs w i))),
       names := (names w)(nb := None), faults := tl (faults w)\<rparr>"

lemma snd_mutex_calls:
  "snd (ipm_mutex_destroy m w) = snd (pthread_mutex_destroy m)"
  "snd (ipm_mutex_unlock m w) = snd (pthread_mutex_unlock (self w) m)"
  by (simp_all add: ipm_mutex_destroy_def ipm_mutex_unlock_def split: prod.split)

lemma block_close_last:
  assumes h: "handle_ok w i blk" and obj: "block_obj bname bid (objs w i)" and nm: "good_name bname"
    and sz: "mapped_size blk = block_size (obj_header (objs w i))"
    and refs: "refcount (obj_header (objs w i)) = 1" and q: "quiet w"
    and nb: "names w (make_block_name_based_on_id name_buffer_size bname bid) = Some i"
    and cb: "\<And>v. list_at (memory blk) v = list_at (memory blk) w \<Longrightarrow> objs v i = objs (detached i blk w) i \<Longrightarrow>
      ndebug v = ndebug w \<Longrightarrow> errno v = errno w \<Longrightarrow> self v = self w \<Longrightarrow>
      (case callback of None \<Rightarrow> Ret v | Some f \<Rightarrow> f v) = Ret (v\<lparr>objs := (objs v)(i := obj_list_update g (objs v i))\<rparr>)"
  shows "shared_memory_block_close ctx blk callback w =
    Ret (IPM_RESULT_SUCCESS, poisoned,
         unlinked (make_block_name_based_on_id name_buffer_size bname bid) i g (detached i blk w))"
proof -
  obtain a b where ab: "header blk = Addr a" "memory blk = Addr b" "a \<noteq> b" "has_ownership blk = 0"
    "fds w (mem_fd blk) = Some i"
    "maps w a = Some \<lparr>map_obj = i, map_off = 0, map_len = 4096, map_write = True, map_gone = 0\<rparr>"
    "maps w b = Some \<lparr>map_obj = i, map_off = 4096, map_len = page_ceil (unat (mapped_size blk)),
                      map_write = (access_mode blk \<noteq> IPM_ACCESS_MODE_READ_ONLY), map_gone = 0\<rparr>"
    using h by (rule handle_okE)
  note d = block_objD [OF obj]
  define nb where "nb = make_block_name_based_on_id name_buffer_size bname bid"
  let ?w1 = "w\<lparr>fds := (fds w)(mem_fd blk := None)\<rparr>"
  have c: "sys_close (mem_fd blk) w = ?w1" using ab(5) by (simp add: sys_close_def)
  have h1: "header_at (Addr a) ?w1 = Some i" using ab(6) d(3) by (intro header_at_mapped) simp_all
  let ?o = "obj_header_update (\<lambda>h. h\<lparr>refcount := refcount h - 1\<rparr>) (objs w i)"
  define w2 where "w2 = ?w1\<lparr>objs := (objs w)(i := ?o)\<rparr>"
  let ?o3 = "obj_list_update g ?o"
  define w3 where "w3 = w2\<lparr>objs := (objs w)(i := ?o3)\<rparr>"
  define m where "m = snd (ipm_mutex_destroy (segment_mutex (obj_header (objs w i))) w)"
  let ?o4 = "obj_header_update (\<lambda>h. h\<lparr>segment_mutex := m\<rparr>) ?o3"
  define w4 where "w4 = w3\<lparr>objs := (objs w)(i := ?o4)\<rparr>"
  have h2: "header_at (Addr a) w2 = Some i" using header_at_objs [OF h1] by (simp add: w2_def)
  have h3: "header_at (Addr a) w3 = Some i" using header_at_objs [OF h2] by (simp add: w3_def w2_def)
  have "list_at (memory blk) w2 = list_at (memory blk) w"
    by (auto simp: list_at_def page_at_def w2_def split: ptr.split option.split)
  then have cb': "(case callback of None \<Rightarrow> Ret w2 | Some f \<Rightarrow> f w2) = Ret w3"
    using cb [of w2] by (simp add: w2_def w3_def detached_def)
  have hd3: "block_id (obj_header (objs w3 i)) = bid" "block_size (obj_header (objs w3 i)) = mapped_size blk"
    "c_string (block_name (obj_header (objs w3 i))) = bname"
    using d sz nm by (simp_all add: w3_def good_name_def)
  have mw: "maps w4 = maps w" by (simp add: w4_def w3_def w2_def)
  have u: "munmap (Addr a) IPM_MEMORY_PAGE_SIZE (munmap (Addr b) (mapped_size blk) w4) =
      w4\<lparr>maps := (maps w)(b := None, a := None)\<rparr>"
    using unmap_both(2) [OF ab(6) [folded mw] _ ab(7) [folded mw] _ _ ab(3)] d(2) sz mw by simp
  let ?w5 = "w4\<lparr>maps := (maps w)(b := None, a := None)\<rparr>"
  have "quiet ?w5" using q by (simp add: quiet_def w4_def w3_def w2_def)
  then have u3: "shm_unlink nb ?w5 = (0, ?w5\<lparr>faults := tl (faults w), names := (names w)(nb := None)\<rparr>)"
    using shm_unlink_quiet [of ?w5 nb i] nb by (simp add: w4_def w3_def w2_def nb_def)
  have o4: "obj_header_update (\<lambda>h. h\<lparr>segment_mutex := snd (pthread_mutex_destroy (segment_mutex h))\<rparr>) ?o3 = ?o4"
    by (cases "objs w i") (simp add: m_def snd_mutex_calls)
  have wh: "write_header (Addr a) (\<lambda>h. h\<lparr>segment_mutex := snd (ipm_mutex_destroy (segment_mutex h) w3)\<rparr>) w3 = Ret w4"
    using h3 o4 unfolding snd_mutex_calls by (simp add: write_header_def w4_def) (simp add: w3_def)
  have "shared_memory_block_close ctx blk callback w =
      Ret (IPM_RESULT_SUCCESS, poisoned, ?w5\<lparr>faults := tl (faults w), names := (names w)(nb := None)\<rparr>)"
    using ab(1,2,4) c h1 h3 refs u u3 cb' wh hd3
    by (simp add: shared_memory_block_close_def read_header_def write_header_def flip: w2_def nb_def)
  then show ?thesis using ab(1-3) o4
    by (simp add: detached_def unlinked_def w4_def w3_def w2_def snd_mutex_calls fun_upd_twist flip: nb_def)
qed

section \<open>Mapping again\<close>

text \<open>The block as the code leaves it after a successful remapping, and the world with the new mapping.\<close>

definition remapped ::
  "nat \<Rightarrow> ipm_shared_memory_block \<Rightarrow> ipm_access_mode \<Rightarrow> ('h, 'a) world_scheme \<Rightarrow> ('h, 'a) world_scheme" where
  "remapped i blk acc w =
     w\<lparr>faults := tl (faults w),
       maps := (case memory blk of Addr b \<Rightarrow> (maps w)(b := None) | _ \<Rightarrow> maps w)
         (next_map w \<mapsto>
            \<lparr>map_obj = i, map_off = 4096, map_len = page_ceil (unat (block_size (obj_header (objs w i)))),
             map_write = (acc \<noteq> IPM_ACCESS_MODE_READ_ONLY), map_gone = 0\<rparr>),
       next_map := Suc (next_map w)\<rparr>"

lemma handle_header:
  assumes "handle_ok w i blk" and "4096 \<le> obj_len (objs w i)"
  shows "header_at (header blk) w = Some i"
  using assms header_at_mapped by (metis handle_okE)

lemma handle_ok_cong: "fds w' = fds w \<Longrightarrow> maps w' = maps w \<Longrightarrow> handle_ok w' i b = handle_ok w i b"
  by (simp add: handle_ok_def split: ptr.split)

lemma update_mapping_quiet:
  assumes h: "handle_ok w i blk" and len: "4096 \<le> obj_len (objs w i)" and q: "quiet w"
    and sz: "0 < block_size (obj_header (objs w i))" "0 < mapped_size blk"
  shows "shared_memory_block_update_mapping ctx blk acc w =
    (if mapped_size blk = block_size (obj_header (objs w i)) \<and> acc = access_mode blk
     then Ret (IPM_RESULT_SUCCESS, blk, w)
     else Ret (IPM_RESULT_SUCCESS,
            blk\<lparr>access_mode := acc, mapped_size := block_size (obj_header (objs w i)), memory := NULL\<rparr>,
            remapped i blk acc w))"
proof -
  obtain a b where ab: "header blk = Addr a" "memory blk = Addr b" "fds w (mem_fd blk) = Some i"
    "maps w b = Some \<lparr>map_obj = i, map_off = 4096, map_len = page_ceil (unat (mapped_size blk)),
                      map_write = (access_mode blk \<noteq> IPM_ACCESS_MODE_READ_ONLY), map_gone = 0\<rparr>"
    using h by (metis handle_okE)
  let ?sz = "block_size (obj_header (objs w i))"
  let ?w1 = "w\<lparr>maps := (maps w)(b := None)\<rparr>"
  have r: "read_header (header blk) w = Ret (obj_header (objs w i))"
    using handle_header [OF h len] by (simp add: read_header_def)
  have u: "munmap (Addr b) (mapped_size blk) w = ?w1"
    using munmap_whole [OF ab(4), of "mapped_size blk"] sz(2) by simp
  have "quiet ?w1" using q by (simp add: quiet_def)
  from mmap_quiet [OF this, of ?sz "mem_fd blk" i]
  have m: "mmap ?sz (acc \<noteq> IPM_ACCESS_MODE_READ_ONLY) (mem_fd blk) IPM_MEMORY_PAGE_SIZE ?w1 =
      (Addr (next_map w), remapped i blk acc w)"
    using sz(1) ab(2,3) by (simp add: remapped_def)
  show ?thesis using r u m ab(2) by (simp add: shared_memory_block_update_mapping_def Let_def)
qed

section \<open>Resizing\<close>

text \<open>The object after it was grown by the handle of a thread that got the segment mutex.\<close>

definition grown_obj :: "size_t \<Rightarrow> shm_obj \<Rightarrow> shm_obj" where
  "grown_obj new_size obj =
     obj_header_update (\<lambda>h. h\<lparr>block_size := new_size, segment_mutex := Mut shared_robust Unlocked\<rparr>)
       (resize_obj (unat new_size + 4096) obj)"

lemma block_resize_grows:
  assumes h: "handle_ok w i blk" and obj: "block_obj bname bid (objs w i)" and q: "quiet w"
    and mtx: "segment_mutex (obj_header (objs w i)) = Mut shared_robust Unlocked"
    and sz: "block_size (obj_header (objs w i)) < new_size" "unat new_size mod 4096 = 0"
      "unat new_size + 4096 < 2 ^ 63" and mp: "0 < mapped_size blk" "mapped_size blk \<noteq> new_size"
  shows "shared_memory_block_resize ctx blk new_size w =
    (let w1 = w\<lparr>faults := tl (faults w), objs := (objs w)(i := grown_obj new_size (objs w i))\<rparr>
     in Ret (IPM_RESULT_SUCCESS,
            blk\<lparr>mapped_size := new_size, memory := NULL\<rparr>, remapped i blk (access_mode blk) w1))"
proof -
  let ?h = "obj_header (objs w i)"
  note d = block_objD [OF obj]
  have h0: "header_at (header blk) w = Some i" using handle_header [OF h] d(3) by simp
  have len: "unat (IPM_MEMORY_PAGE_SIZE + new_size) = unat new_size + 4096"
    using unat_plus_page [OF sz(3)] by (simp add: add.commute)
  have ge: "\<not> sint (IPM_MEMORY_PAGE_SIZE + new_size) < 0"
    by (rule sint_nonneg) (simp only: len sz(3))
  let ?lk = "Mut shared_robust (Locked (self w))"
  define w1 where "w1 = w\<lparr>objs := (objs w)(i := obj_header_update (\<lambda>h. h\<lparr>segment_mutex := ?lk\<rparr>) (objs w i))\<rparr>"
  have h1: "header_at (header blk) w1 = Some i" using header_at_objs [OF h0] by (simp add: w1_def)
  define w2 where "w2 = w1\<lparr>faults := tl (faults w), objs := (objs w)
    (i := resize_obj (unat new_size + 4096) (objs w1 i))\<rparr>"
  have fd: "fds w1 (mem_fd blk) = Some i" using h by (auto simp: w1_def elim: handle_okE)
  have q1: "quiet w1" using q by (simp add: w1_def quiet_def)
  have t: "ftruncate (mem_fd blk) (IPM_MEMORY_PAGE_SIZE + new_size) w1 = (0, w2)"
    using next_fault_quiet [OF q1] fd ge len by (simp add: ftruncate_def w2_def w1_def)
  have h2: "header_at (header blk) w2 = Some i"
    using h0 by (auto simp: header_at_def page_at_def w2_def w1_def resize_obj_def split: ptr.splits option.splits if_splits)
  define w3 where "w3 = w2\<lparr>objs := (objs w)(i := obj_header_update (\<lambda>h. h\<lparr>block_size := new_size\<rparr>) (objs w2 i))\<rparr>"
  have h3: "header_at (header blk) w3 = Some i" using header_at_objs [OF h2] by (simp add: w3_def)
  define w4 where "w4 = w\<lparr>faults := tl (faults w), objs := (objs w)(i := grown_obj new_size (objs w i))\<rparr>"
  have "obj_header_update (\<lambda>h. h\<lparr>segment_mutex := snd (pthread_mutex_unlock (self w) (segment_mutex h))\<rparr>) (objs w3 i) =
      grown_obj new_size (objs w i)"
    by (cases "objs w i") (simp add: w3_def w2_def w1_def grown_obj_def resize_obj_def)
  then have u: "unlock_segment blk w3 = Ret w4"
    using h3 by (simp add: unlock_segment_def write_header_def snd_mutex_calls w4_def)
      (simp add: w3_def w2_def w1_def)
  have "handle_ok w4 i blk" using h handle_ok_cong [of w4 w] by (simp add: w4_def)
  moreover have "4096 \<le> obj_len (objs w4 i)" "block_size (obj_header (objs w4 i)) = new_size"
    by (simp_all add: w4_def grown_obj_def resize_obj_def)
  moreover have "quiet w4" using quiet_tl [OF q] by (simp add: w4_def quiet_def)
  moreover have "0 < new_size" using sz(1) by (rule order_le_less_trans [rotated]) simp
  ultimately have up: "shared_memory_block_update_mapping ctx blk (access_mode blk) w4 =
      Ret (IPM_RESULT_SUCCESS, blk\<lparr>mapped_size := new_size, memory := NULL\<rparr>, remapped i blk (access_mode blk) w4)"
    using update_mapping_quiet [of w4 i blk ctx "access_mode blk"] mp by simp
  have "shared_memory_block_resize ctx blk new_size w =
      shared_memory_block_update_mapping ctx blk (access_mode blk) w4"
  proof -
    have ne: "new_size \<noteq> block_size ?h" "0 < new_size" using sz(1) \<open>0 < new_size\<close> by auto
    have l: "ipm_mutex_lock (segment_mutex ?h) w = Ret (IPM_RESULT_SUCCESS, ?lk)" by (simp add: mtx)
    have r: "read_header (header blk) w = Ret ?h" using h0 by (simp add: read_header_def)
    have a: "write_header (header blk) (\<lambda>h. h\<lparr>segment_mutex := ?lk\<rparr>) w = Ret w1"
      using h0 by (simp add: write_header_def w1_def)
    have r1: "read_header (header blk) w1 = Ret (?h\<lparr>segment_mutex := ?lk\<rparr>)" using h1 by (simp add: read_header_def) (simp add: w1_def)
    have b: "write_header (header blk) (\<lambda>h. h\<lparr>block_size := new_size\<rparr>) w2 = Ret w3"
      using h2 by (simp add: write_header_def w3_def) (simp add: w2_def w1_def)
    show ?thesis using ne sz(1,2)
      by (simp add: shared_memory_block_resize_def r r1 l a t b u page_mask_iff less_imp_le)
  qed
  then show ?thesis using up by (simp add: Let_def w4_def)
qed

lemma block_obj_new:
  assumes "good_name bname" and "0 < sz"
  shows "block_obj bname bid (new_obj bname bid sz)"
  using assms
  by (auto simp: block_obj_def new_obj_def new_header_def resize_obj_def empty_obj_def zero_header_def
      good_name_def Let_def)

lemma obj_list_id: "obj_list_update (\<lambda>l. l) obj = (obj :: shm_obj)"
  by (cases obj) simp

lemma no_list_edit:
  "objs v i = obj \<Longrightarrow> v\<lparr>objs := (objs v)(i := obj_list_update (\<lambda>l. l) obj)\<rparr> = v"
  by (cases v) (simp add: obj_list_id fun_upd_idem)

section \<open>A sample block\<close>

text \<open>A process with no block open, and the world after it created the block of the test programs.\<close>

definition cool_block :: string where
  "cool_block = ''cool_block''"

definition sample_world :: "test_host world" where
  "sample_world =
     \<lparr>self = 1, errno = ENONE, ndebug = False, faults = [], attr_live = 0,
      host = \<lparr>live_blocks = {}, next_block = 0, malloc_budget = 100, stderr_text = [], bad_state = False\<rparr>,
      strerror = (\<lambda>_. []), others = [],
      fds = Map.empty, next_fd = 3, names = Map.empty, objs = (\<lambda>_. empty_obj), next_obj = 0,
      maps = Map.empty, next_map = 0, strays = 0, yields = []\<rparr>"

definition sample_created :: "test_host world" where
  "sample_created = created cool_block 1 4096 IPM_ACCESS_MODE_READ_WRITE sample_world"

definition sample_block :: ipm_shared_memory_block where
  "sample_block = new_block 1 4096 IPM_ACCESS_MODE_READ_WRITE 3 (Addr 1) (Addr 0)"

lemma sample_world_ok [simp]: "kernel_ok sample_world" "quiet sample_world" "one_fault sample_world"
  "names sample_world nb = None" "faults sample_world = []" "next_obj sample_world = 0"
  by (simp_all add: kernel_ok_def quiet_def one_fault_def sample_world_def)

lemma cool_block_ok [simp]: "good_name cool_block" "length cool_block = 10"
  by (simp_all add: good_name_def cool_block_def IPM_MAX_NAME_LEN_def)

lemma sample_size [simp]: "unat (4096 :: size_t) = 4096"
  by simp

lemma sample_created_ok [simp]:
  "quiet sample_created" "handle_ok sample_created 0 sample_block"
  "names sample_created (make_block_name_based_on_id name_buffer_size cool_block 1) = Some 0"
  "block_obj cool_block 1 (objs sample_created 0)"
  "refcount (obj_header (objs sample_created 0)) = 1" "block_size (obj_header (objs sample_created 0)) = 4096"
  "segment_mutex (obj_header (objs sample_created 0)) = Mut shared_robust Unlocked"
  "mapped_size sample_block = 4096"
proof -
  have o: "objs sample_created 0 = new_obj cool_block 1 4096"
    by (simp add: sample_created_def created_def sample_world_def)
  show "block_obj cool_block 1 (objs sample_created 0)" unfolding o by (rule block_obj_new) simp_all
qed (simp_all add: sample_created_def created_def sample_world_def sample_block_def new_block_def quiet_def
    handle_ok_def new_obj_def new_header_def)

section \<open>Properties\<close>

text \<open>
  The name of the shared memory object determines the block: it is never cut off by the buffer, and two
  blocks share a name only if their names and numbers agree.
\<close>
lemma block_names_injective:
  assumes "length a \<le> IPM_MAX_NAME_LEN" and "length b \<le> IPM_MAX_NAME_LEN"
  shows "make_block_name_based_on_id name_buffer_size a i = ''/'' @ a @ ''-'' @ hex16 i \<and>
    (make_block_name_based_on_id name_buffer_size a i = make_block_name_based_on_id name_buffer_size b j
      \<longleftrightarrow> a = b \<and> i = j)"
  using block_name_inj [OF assms] assms(1) by (auto simp: block_name_text)

text \<open>
  C17. Creating a block is all or nothing as long as at most one system call fails: either the handle and
  the object are complete and the first access id is 1, or every descriptor, name and mapping is as before
  (and some call did fail). The exception is a failing \<^verbatim>\<open>mmap\<close> of the header, the fourth call: its result is
  compared with the null pointer instead of \<^verbatim>\<open>MAP_FAILED\<close> and then written through.
\<close>
theorem block_create_all_or_nothing:
  assumes "kernel_ok w" and "one_fault w" and "good_name bname" and "0 < sz"
    and "unat sz mod 4096 = 0" and "unat sz + 4096 < 2 ^ 63"
    and "names w (make_block_name_based_on_id name_buffer_size bname bid) = None"
  shows
    "(\<exists>blk w'. shared_memory_block_create ctx bname bid sz acc p_block w = Ret (IPM_RESULT_SUCCESS, blk, w') \<and>
        handle_ok w' (next_obj w) blk \<and> block_obj bname bid (objs w' (next_obj w)) \<and>
        names w' = (names w)(make_block_name_based_on_id name_buffer_size bname bid \<mapsto> next_obj w) \<and>
        access_id blk = 1 \<and> access_mode blk = acc \<and> mapped_size blk = sz \<and>
        refcount (obj_header (objs w' (next_obj w))) = 1 \<and> id_counter (obj_header (objs w' (next_obj w))) = 2) \<or>
     (\<exists>r w'. shared_memory_block_create ctx bname bid sz acc p_block w = Ret (r, p_block, w') \<and>
        r \<noteq> IPM_RESULT_SUCCESS \<and> \<not> quiet w \<and> same_resources w w' \<and>
        (\<forall>j < next_obj w. objs w' j = objs w j)) \<or>
     (shared_memory_block_create ctx bname bid sz acc p_block w = UB \<and>
        3 < length (faults w) \<and> faults w ! 3 \<noteq> ENONE)"
proof -
  let ?blk = "new_block 1 sz acc (int (next_fd w)) (Addr (Suc (next_map w))) (Addr (next_map w))"
  have "handle_ok ((created bname bid sz acc w)\<lparr>faults := fs\<rparr>) (next_obj w) ?blk" for fs
    by (simp add: handle_ok_def new_block_def created_def)
  moreover have "obj_header (new_obj bname bid sz) = new_header bname bid sz zero_header"
    by (simp add: new_obj_def resize_obj_def empty_obj_def)
  ultimately show ?thesis
    using block_create_cases [OF assms, of ctx acc p_block] block_obj_new [OF assms(3,4), of bid]
    by (elim disjE exE conjE) (simp_all add: created_def new_block_def new_header_def)
qed

theorem block_create_all_or_nothing_witness:
  "\<exists>blk w'. shared_memory_block_create test_ctx cool_block 1 4096 IPM_ACCESS_MODE_READ_WRITE poisoned sample_world =
      Ret (IPM_RESULT_SUCCESS, blk, w') \<and> handle_ok w' 0 blk \<and> access_id blk = 1"
  using block_create_all_or_nothing [of sample_world cool_block 4096 1 test_ctx IPM_ACCESS_MODE_READ_WRITE poisoned]
  by (auto simp: word_less_nat_alt)

text \<open>
  Opening a block that was set up takes a reference and an access id that no earlier handle got from
  the counter, and maps the whole block; nothing else of the object changes.
\<close>
lemma block_open_takes_reference:
  assumes "quiet w" and "length bname \<le> IPM_MAX_NAME_LEN"
    and "names w (make_block_name_based_on_id name_buffer_size bname bid) = Some i"
    and "block_obj bname bid (objs w i)" and "refcount (obj_header (objs w i)) \<noteq> 0"
  shows "\<exists>blk w'. shared_memory_block_open ctx bname bid acc p_block w = Ret (IPM_RESULT_SUCCESS, blk, w') \<and>
    handle_ok w' i blk \<and> access_id blk = id_counter (obj_header (objs w i)) \<and>
    mapped_size blk = block_size (obj_header (objs w i)) \<and> access_mode blk = acc \<and> names w' = names w \<and>
    objs w' = (objs w)(i := obj_header_update
      (\<lambda>h. h\<lparr>refcount := refcount h + 1, id_counter := id_counter h + 1\<rparr>) (objs w i))"
proof -
  obtain fs where o: "shared_memory_block_open ctx bname bid acc p_block w =
      Ret (IPM_RESULT_SUCCESS,
        new_block (id_counter (obj_header (objs w i))) (block_size (obj_header (objs w i))) acc
          (int (next_fd w)) (Addr (next_map w)) (Addr (Suc (next_map w))), (opened i acc w)\<lparr>faults := fs\<rparr>)"
    using block_open_ok [OF assms] by blast
  show ?thesis unfolding o by (simp add: handle_ok_def new_block_def opened_def)
qed

text \<open>
  Closing a handle whose view of the block is up to date gives back its descriptor, both mappings and
  one reference, and unmaps nothing else. The name disappears exactly with the last reference.
\<close>
lemma block_close_releases:
  assumes "handle_ok w i blk" and "block_obj bname bid (objs w i)" and "good_name bname" and "quiet w"
    and "mapped_size blk = block_size (obj_header (objs w i))"
    and "names w (make_block_name_based_on_id name_buffer_size bname bid) = Some i"
  shows "\<exists>w'. shared_memory_block_close ctx blk None w = Ret (IPM_RESULT_SUCCESS, poisoned, w') \<and>
    fds w' = (fds w)(mem_fd blk := None) \<and> strays w' = strays w \<and>
    (\<forall>a. maps w' a = (if Addr a \<in> {header blk, memory blk} then None else maps w a)) \<and>
    refcount (obj_header (objs w' i)) = refcount (obj_header (objs w i)) - 1 \<and>
    names w' = (if refcount (obj_header (objs w i)) = 1
                then (names w)(make_block_name_based_on_id name_buffer_size bname bid := None) else names w)"
proof (cases "refcount (obj_header (objs w i)) = 1")
  case True
  have "shared_memory_block_close ctx blk None w =
      Ret (IPM_RESULT_SUCCESS, poisoned,
        unlinked (make_block_name_based_on_id name_buffer_size bname bid) i (\<lambda>l. l) (detached i blk w))"
    using assms True by (intro block_close_last) (simp_all add: no_list_edit)
  then show ?thesis using assms(1) True by (auto simp: unlinked_def detached_def elim!: handle_okE)
next
  case False
  have "shared_memory_block_close ctx blk None w = Ret (IPM_RESULT_SUCCESS, poisoned, detached i blk w)"
    by (rule block_close_shared [OF assms(1,2,5) False])
  then show ?thesis using assms(1) False by (auto simp: detached_def elim!: handle_okE)
qed

text \<open>
  Updating the mapping of a handle: if the size and the access mode already agree nothing happens. Otherwise
  the old mapping goes away and the block is mapped again in its present size and with the new access, but
  the handle ends with a null pointer: no pointer to the new mapping is kept anywhere.
\<close>
lemma update_mapping_forgets_pointer:
  assumes "handle_ok w i blk" and "4096 \<le> obj_len (objs w i)" and "quiet w"
    and "0 < block_size (obj_header (objs w i))" and "0 < mapped_size blk"
    and "\<not> (mapped_size blk = block_size (obj_header (objs w i)) \<and> acc = access_mode blk)"
  shows "\<exists>blk' w'. shared_memory_block_update_mapping ctx blk acc w = Ret (IPM_RESULT_SUCCESS, blk', w') \<and>
    memory blk' = NULL \<and> mapped_size blk' = block_size (obj_header (objs w i)) \<and> access_mode blk' = acc \<and>
    maps w' (next_map w) =
      Some \<lparr>map_obj = i, map_off = 4096, map_len = page_ceil (unat (block_size (obj_header (objs w i)))),
            map_write = (acc \<noteq> IPM_ACCESS_MODE_READ_ONLY), map_gone = 0\<rparr>"
  using update_mapping_quiet [OF assms(1-5), of ctx acc] assms(6) by (auto simp: remapped_def)

text \<open>
  Growing a block whose segment mutex is free: the object gets the new length, the header the new size, the
  mutex is free again and all that was in the block is kept; the handle is mapped again as above.
\<close>
lemma block_resize_grows_object:
  assumes "handle_ok w i blk" and "block_obj bname bid (objs w i)" and "quiet w"
    and "segment_mutex (obj_header (objs w i)) = Mut shared_robust Unlocked"
    and "block_size (obj_header (objs w i)) < new_size" and "unat new_size mod 4096 = 0"
    and "unat new_size + 4096 < 2 ^ 63" and "0 < mapped_size blk" and "mapped_size blk \<noteq> new_size"
  shows "\<exists>blk' w'. shared_memory_block_resize ctx blk new_size w = Ret (IPM_RESULT_SUCCESS, blk', w') \<and>
    block_obj bname bid (objs w' i) \<and> block_size (obj_header (objs w' i)) = new_size \<and>
    refcount (obj_header (objs w' i)) = refcount (obj_header (objs w i)) \<and>
    segment_mutex (obj_header (objs w' i)) = Mut shared_robust Unlocked \<and>
    (\<forall>j. j \<noteq> i \<longrightarrow> objs w' j = objs w j) \<and> names w' = names w \<and>
    mapped_size blk' = new_size \<and> memory blk' = NULL"
proof -
  have "0 < new_size" using assms(5) by (rule order_le_less_trans [rotated]) simp
  then have "block_obj bname bid (grown_obj new_size (objs w i))"
    using assms(2) by (simp add: block_obj_def grown_obj_def resize_obj_def Let_def)
  then show ?thesis using block_resize_grows [OF assms, of ctx]
    by (simp add: remapped_def Let_def) (simp add: grown_obj_def resize_obj_def)
qed

text \<open>
  C39. Taking a whole block gives the segment mutex to the caller, and then the matching release always fails and
  leaves the mutex locked, because it tests the ownership flag the wrong way round.
\<close>
theorem block_ownership_stuck:
  assumes "handle_ok w i blk" and "4096 \<le> obj_len (objs w i)"
    and "segment_mutex (obj_header (objs w i)) = Mut shared_robust Unlocked"
  shows "\<exists>blk' w'. acquire_memory_block_whole ctx blk w = Ret (IPM_RESULT_SUCCESS, blk', w') \<and>
    segment_mutex (obj_header (objs w' i)) = Mut shared_robust (Locked (self w)) \<and> has_ownership blk' = 1 \<and>
    (\<exists>w''. release_memory_block_whole ctx blk' w' = Ret (IPM_RESULT_ERR_NOT_LOCKED, blk', w'') \<and> objs w'' = objs w')"
proof -
  have h: "header_at (header blk) w = Some i" using handle_header [OF assms(1,2)] .
  have "has_ownership blk = 0" using assms(1) by (auto elim: handle_okE)
  then show ?thesis using h assms(3)
    by (simp add: acquire_memory_block_whole_def release_memory_block_whole_def read_header_def write_header_def)
qed

theorem block_ownership_stuck_witness:
  "\<exists>blk' w'. acquire_memory_block_whole test_ctx sample_block sample_created = Ret (IPM_RESULT_SUCCESS, blk', w') \<and>
    (\<exists>w''. release_memory_block_whole test_ctx blk' w' = Ret (IPM_RESULT_ERR_NOT_LOCKED, blk', w''))"
proof -
  have "4096 \<le> obj_len (objs sample_created 0)" using block_objD(3) [OF sample_created_ok(4)] by simp
  then show ?thesis using block_ownership_stuck [of sample_created 0 sample_block test_ctx] by auto
qed

end
