(* ===== verification/Block_Lifetime.thy ===== *)
theory Block_Lifetime
  imports Shared_Memory
begin

text \<open>
  The handles of one shared memory block over time: the reference count in the header equals the number of
  handles, the name exists exactly while there is a handle, and the handles never share a descriptor, a
  mapping or an access id.
\<close>

section \<open>Names that exist and names that do not\<close>

text \<open>Reporting may change \<^verbatim>\<open>errno\<close>, which the code reads again afterwards. These callbacks leave it alone.\<close>

definition keeps_errno :: "'h ipm_context \<Rightarrow> 'h \<Rightarrow> bool" where
  "keeps_errno ctx h \<longleftrightarrow>
     (\<forall>msg fl line func e. fst (ipm_report_error ctx msg fl line func (e, h)) = e)"

lemma shm_report_errno: "keeps_errno ctx (host w) \<Longrightarrow> errno (shm_report ctx msg l f w) = errno w"
  by (simp add: shm_report_def IPM_ERROR_def keeps_errno_def split: prod.split)
    (metis fst_conv)

lemma block_create_exists:
  assumes "quiet w" and "length bname \<le> IPM_MAX_NAME_LEN" and "0 < sz" and "unat sz mod 4096 = 0"
    and "names w (make_block_name_based_on_id name_buffer_size bname bid) = Some i"
  shows "shared_memory_block_create ctx bname bid sz acc p_block w =
    Ret (IPM_RESULT_ERR_EXISTS, p_block, w\<lparr>faults := tl (faults w), errno := EEXIST\<rparr>)"
  using assms by (simp add: shared_memory_block_create_def shm_open_def next_fault_quiet page_mask_iff)

lemma block_open_missing:
  assumes "quiet w" and "length bname \<le> IPM_MAX_NAME_LEN"
    and "names w (make_block_name_based_on_id name_buffer_size bname bid) = None"
  shows "\<exists>r w'. shared_memory_block_open ctx bname bid acc p_block w = Ret (r, p_block, w') \<and>
    r \<noteq> IPM_RESULT_SUCCESS \<and> same_resources w w' \<and> objs w' = objs w \<and>
    (keeps_errno ctx (host w) \<longrightarrow> r = IPM_RESULT_ERR_DOES_NOT_EXIST)"
  using assms
  by (auto simp: shared_memory_block_open_def shm_open_def next_fault_quiet same_resources_def Let_def
      shm_report_errno)

section \<open>Handles of one block over time\<close>

text \<open>
  All the handles that exist of the block \<open>bname\<close>, \<open>bid\<close>, as creations, openings and closings by any process
  that succeed follow each other: \<open>life n (w, bs)\<close> says that after \<open>n\<close> of them the world is \<open>w\<close> and the
  handles are \<open>bs\<close>.
\<close>

inductive life ::
  "'h ipm_context \<Rightarrow> string \<Rightarrow> ipm_id \<Rightarrow> ('h, 'a) world_scheme \<Rightarrow> nat \<Rightarrow>
     ('h, 'a) world_scheme \<Rightarrow> ipm_shared_memory_block list \<Rightarrow> bool"
  for ctx :: "'h ipm_context" and bname :: string and bid :: ipm_id and w0 :: "('h, 'a) world_scheme" where
  start: "life ctx bname bid w0 0 w0 []"
| create: "life ctx bname bid w0 n w bs \<Longrightarrow> 0 < sz \<Longrightarrow> unat sz mod 4096 = 0 \<Longrightarrow> unat sz + 4096 < 2 ^ 63 \<Longrightarrow>
    shared_memory_block_create ctx bname bid sz acc p_block w = Ret (IPM_RESULT_SUCCESS, blk, w') \<Longrightarrow>
    life ctx bname bid w0 (Suc n) w' (bs @ [blk])"
| attach: "life ctx bname bid w0 n w bs \<Longrightarrow>
    shared_memory_block_open ctx bname bid acc p_block w = Ret (IPM_RESULT_SUCCESS, blk, w') \<Longrightarrow>
    life ctx bname bid w0 (Suc n) w' (bs @ [blk])"
| detach: "life ctx bname bid w0 n w bs \<Longrightarrow> blk \<in> set bs \<Longrightarrow>
    shared_memory_block_close ctx blk None w = Ret (r, blk', w') \<Longrightarrow>
    life ctx bname bid w0 (Suc n) w' (remove1 blk bs)"

text \<open>The handles own disjoint descriptors and mappings.\<close>

definition owned :: "ipm_shared_memory_block \<Rightarrow> ptr list" where
  "owned blk = [header blk, memory blk]"

definition separate :: "ipm_shared_memory_block list \<Rightarrow> bool" where
  "separate bs \<longleftrightarrow> distinct (map mem_fd bs) \<and> distinct (concat (map owned bs)) \<and> distinct (map access_id bs)"

definition shared_ok ::
  "string \<Rightarrow> ipm_id \<Rightarrow> ('h, 'a) world_scheme \<Rightarrow> nat \<Rightarrow> nat \<Rightarrow> ipm_shared_memory_block list \<Rightarrow> bool" where
  "shared_ok bname bid w i n bs \<longleftrightarrow>
     block_obj bname bid (objs w i) \<and> unat (refcount (obj_header (objs w i))) = length bs \<and>
     unat (id_counter (obj_header (objs w i))) \<le> Suc n \<and>
     (\<forall>b \<in> set bs. handle_ok w i b \<and> mapped_size b = block_size (obj_header (objs w i)) \<and>
        access_id b < id_counter (obj_header (objs w i))) \<and> separate bs"

definition life_inv ::
  "string \<Rightarrow> ipm_id \<Rightarrow> nat \<Rightarrow> ('h, 'a) world_scheme \<Rightarrow> ipm_shared_memory_block list \<Rightarrow> bool" where
  "life_inv bname bid n w bs \<longleftrightarrow>
     kernel_ok w \<and> quiet w \<and> length bs \<le> n \<and>
     (case names w (make_block_name_based_on_id name_buffer_size bname bid) of
        None \<Rightarrow> bs = []
      | Some i \<Rightarrow> bs \<noteq> [] \<and> shared_ok bname bid w i n bs)"

lemma quiet_one_fault: "quiet w \<Longrightarrow> one_fault w"
proof -
  assume "quiet w"
  then have "filter (\<lambda>e. e \<noteq> ENONE) (faults w) = []" by (simp add: quiet_def filter_empty_conv)
  then show "one_fault w" by (simp add: one_fault_def)
qed

lemma kernel_ok_iff:
  "kernel_ok w \<longleftrightarrow>
     (\<forall>fd i. fds w fd = Some i \<longrightarrow> fd < int (next_fd w) \<and> i < next_obj w) \<and>
     (\<forall>nm i. names w nm = Some i \<longrightarrow> i < next_obj w) \<and>
     (\<forall>a m. maps w a = Some m \<longrightarrow> a < next_map w \<and> map_obj m < next_obj w)"
  unfolding kernel_ok_def ran_def dom_def by blast

lemma int_less_inc: "x < int n \<Longrightarrow> x < 1 + int n"
  by simp

lemma kernel_ok_created: "kernel_ok w \<Longrightarrow> kernel_ok ((created bname bid sz acc w)\<lparr>faults := fs\<rparr>)"
proof (unfold kernel_ok_iff, elim conjE, intro conjI allI impI)
qed (auto simp: created_def less_Suc_eq intro: int_less_inc split: if_splits)

lemma kernel_ok_opened:
  "kernel_ok w \<Longrightarrow> i < next_obj w \<Longrightarrow> kernel_ok ((opened i acc w)\<lparr>faults := fs\<rparr>)"
proof (unfold kernel_ok_iff, elim conjE, intro conjI allI impI)
qed (auto simp: opened_def less_Suc_eq intro: int_less_inc split: if_splits)

lemma kernel_ok_detached: "kernel_ok w \<Longrightarrow> kernel_ok (detached i blk w)"
  unfolding kernel_ok_iff detached_def by (auto split: ptr.splits if_splits)

lemma kernel_ok_unlinked: "kernel_ok w \<Longrightarrow> kernel_ok (unlinked nb i g w)"
  unfolding kernel_ok_iff unlinked_def by auto

lemma created_inv:
  assumes "kernel_ok w" and "good_name bname" and "0 < sz" and "quiet (w\<lparr>faults := fs\<rparr>)"
  shows "life_inv bname bid (Suc n) ((created bname bid sz acc w)\<lparr>faults := fs\<rparr>)
    [new_block 1 sz acc (int (next_fd w)) (Addr (Suc (next_map w))) (Addr (next_map w))]"
proof -
  have "handle_ok ((created bname bid sz acc w)\<lparr>faults := fs\<rparr>) (next_obj w)
      (new_block 1 sz acc (int (next_fd w)) (Addr (Suc (next_map w))) (Addr (next_map w)))"
    by (simp add: handle_ok_def new_block_def created_def)
  moreover have "obj_header (new_obj bname bid sz) = new_header bname bid sz zero_header"
    by (simp add: new_obj_def resize_obj_def empty_obj_def)
  ultimately show ?thesis
    using block_obj_new [OF assms(2,3), of bid] kernel_ok_created [OF assms(1)] assms(4)
    by (simp add: life_inv_def shared_ok_def separate_def owned_def new_block_def new_header_def quiet_def
        created_def)
qed

lemma block_obj_count:
  "block_obj bname bid obj \<Longrightarrow>
   block_obj bname bid (obj_header_update (\<lambda>h. h\<lparr>refcount := f h, id_counter := g h\<rparr>) obj)"
  "block_obj bname bid obj \<Longrightarrow> block_obj bname bid (obj_header_update (\<lambda>h. h\<lparr>refcount := f h\<rparr>) obj)"
  by (simp_all add: block_obj_def Let_def)

text \<open>Existing handles do not notice a new one.\<close>

lemma handle_ok_opened:
  assumes "kernel_ok w" and "handle_ok w j b"
  shows "handle_ok ((opened i acc w)\<lparr>faults := fs\<rparr>) j b"
proof -
  have m: "maps w (next_map w) = None" "maps w (Suc (next_map w)) = None"
    and f: "fds w (int (next_fd w)) = None"
    using kernel_ok_fresh [OF assms(1)] by simp_all
  show ?thesis using assms(2) m f
    by (auto simp: handle_ok_def opened_def split: ptr.splits)
qed

lemma separate_snoc:
  "separate (bs @ [b]) \<longleftrightarrow>
     separate bs \<and> mem_fd b \<notin> mem_fd ` set bs \<and> access_id b \<notin> access_id ` set bs \<and> header b \<noteq> memory b \<and>
     (\<forall>x \<in> set bs. header b \<notin> set (owned x) \<and> memory b \<notin> set (owned x))"
  by (auto simp: separate_def owned_def)

lemma opened_inv:
  assumes inv: "life_inv bname bid n w bs" and n: "Suc n < 2 ^ 32 - 1"
    and nb: "names w (make_block_name_based_on_id name_buffer_size bname bid) = Some i"
    and q: "quiet (w\<lparr>faults := fs\<rparr>)"
  shows "life_inv bname bid (Suc n) ((opened i acc w)\<lparr>faults := fs\<rparr>)
    (bs @ [new_block (id_counter (obj_header (objs w i))) (block_size (obj_header (objs w i))) acc
             (int (next_fd w)) (Addr (next_map w)) (Addr (Suc (next_map w)))])"
proof -
  let ?h = "obj_header (objs w i)"
  let ?new = "new_block (id_counter ?h) (block_size ?h) acc (int (next_fd w)) (Addr (next_map w))
                (Addr (Suc (next_map w)))"
  let ?w = "(opened i acc w)\<lparr>faults := fs\<rparr>"
  have ker: "kernel_ok w" and len: "length bs \<le> n" and ok: "shared_ok bname bid w i n bs"
    using inv nb by (simp_all add: life_inv_def)
  have i: "i < next_obj w" using ker nb unfolding kernel_ok_iff by blast
  have obj: "block_obj bname bid (objs w i)" and ref: "unat (refcount ?h) = length bs"
    and idc: "unat (id_counter ?h) \<le> Suc n" and sep: "separate bs"
    and hs: "\<forall>b \<in> set bs. handle_ok w i b \<and> mapped_size b = block_size ?h \<and> access_id b < id_counter ?h"
    using ok by (simp_all add: shared_ok_def)
  have o: "objs (opened i acc w) i = obj_header_update (\<lambda>h. h\<lparr>refcount := refcount h + 1, id_counter := id_counter h + 1\<rparr>) (objs w i)"
    by (simp add: opened_def)
  have ref': "unat (refcount ?h + 1) = Suc (length bs)"
    using ref len n by (subst unat_word_ariths) simp
  have idc': "unat (id_counter ?h + 1) = Suc (unat (id_counter ?h))"
    using idc n by (subst unat_word_ariths) simp
  have new: "handle_ok ?w i ?new" by (simp add: handle_ok_def new_block_def opened_def)
  have old: "handle_ok ?w i b" if "b \<in> set bs" for b using hs that handle_ok_opened [OF ker] by blast
  have fresh: "maps w (next_map w) = None" "maps w (Suc (next_map w)) = None" "fds w (int (next_fd w)) = None"
    using kernel_ok_fresh [OF ker] by simp_all
  have "separate (bs @ [?new])"
  proof -
    have "mem_fd b \<noteq> int (next_fd w) \<and> Addr (next_map w) \<notin> set (owned b) \<and>
        Addr (Suc (next_map w)) \<notin> set (owned b) \<and> access_id b \<noteq> id_counter ?h" if "b \<in> set bs" for b
    proof -
      have "handle_ok w i b" "access_id b < id_counter ?h" using hs that by blast+
      then show ?thesis using fresh by (auto simp: owned_def elim!: handle_okE)
    qed
    then show ?thesis using sep by (simp add: separate_snoc) (force simp: new_block_def)
  qed
  moreover have "access_id b < id_counter ?h + 1" if "b \<in> set (bs @ [?new])" for b
    using hs that idc' by (auto simp: new_block_def word_less_nat_alt)
  ultimately have "shared_ok bname bid ?w i (Suc n) (bs @ [?new])"
    using obj ref' idc idc' new old hs
    by (auto simp: shared_ok_def o block_obj_count) (simp add: new_block_def)
  then show ?thesis using len kernel_ok_opened [OF ker i] q nb
    by (simp add: life_inv_def opened_def quiet_def)
qed

text \<open>The other handles do not notice that one is closed.\<close>

lemma separate_remove1: "separate bs \<Longrightarrow> separate (remove1 b bs)"
proof (induction bs)
  case (Cons x bs)
  have "set (remove1 b bs) \<subseteq> set bs" by (rule set_remove1_subset)
  then show ?case using Cons by (auto simp: separate_def)
qed (simp add: separate_def)

lemma separate_apart:
  assumes "separate bs" and "b \<in> set bs" and "x \<in> set (remove1 b bs)"
  shows "mem_fd x \<noteq> mem_fd b \<and> set (owned x) \<inter> set (owned b) = {}"
  using assms
  by (induction bs) (auto simp: separate_def split: if_splits, metis image_eqI)

lemma handle_ok_detached:
  assumes "handle_ok w i x" and "handle_ok w j b"
    and "mem_fd x \<noteq> mem_fd b" and "set (owned x) \<inter> set (owned b) = {}"
  shows "handle_ok (detached j b w) i x"
  using assms by (auto simp: handle_ok_def detached_def owned_def split: ptr.splits)

lemma shared_ok_detached:
  assumes ok: "shared_ok bname bid w i n bs" and b: "b \<in> set bs"
  shows "shared_ok bname bid (detached i b w) i (Suc n) (remove1 b bs)"
proof -
  let ?h = "obj_header (objs w i)"
  have obj: "block_obj bname bid (objs w i)" and ref: "unat (refcount ?h) = length bs" and sep: "separate bs"
    and idc: "unat (id_counter ?h) \<le> Suc n"
    and hs: "\<forall>b \<in> set bs. handle_ok w i b \<and> mapped_size b = block_size ?h \<and> access_id b < id_counter ?h"
    using ok by (simp_all add: shared_ok_def)
  have hb: "handle_ok w i b" using hs b by blast
  have o: "objs (detached i b w) i = obj_header_update (\<lambda>h. h\<lparr>refcount := refcount h - 1\<rparr>) (objs w i)"
    by (simp add: detached_def)
  have "refcount ?h \<noteq> 0" using ref b by (auto simp: unat_eq_zero)
  then have "unat (refcount ?h - 1) = length (remove1 b bs)"
    using ref b by (simp add: unat_minus_one length_remove1)
  moreover have "handle_ok (detached i b w) i x \<and> mapped_size x = block_size ?h \<and> access_id x < id_counter ?h"
    if x: "x \<in> set (remove1 b bs)" for x
  proof -
    have "x \<in> set bs" using x set_remove1_subset by fastforce
    then show ?thesis using hs handle_ok_detached [OF _ hb] separate_apart [OF sep b x] by blast
  qed
  ultimately show ?thesis using obj idc separate_remove1 [OF sep]
    by (simp add: shared_ok_def o block_obj_count)
qed

lemma detached_inv:
  assumes inv: "life_inv bname bid n w bs" and nm: "good_name bname" and b: "b \<in> set bs" and n: "n < 2 ^ 32"
    and step: "shared_memory_block_close ctx b None w = Ret (r, blk', w')"
  shows "r = IPM_RESULT_SUCCESS \<and> life_inv bname bid (Suc n) w' (remove1 b bs)"
proof -
  let ?nb = "make_block_name_based_on_id name_buffer_size bname bid"
  obtain i where nb: "names w ?nb = Some i" using inv b by (auto simp: life_inv_def split: option.splits)
  let ?h = "obj_header (objs w i)"
  have ker: "kernel_ok w" and q: "quiet w" and len: "length bs \<le> n" and ok: "shared_ok bname bid w i n bs"
    using inv nb by (simp_all add: life_inv_def)
  have obj: "block_obj bname bid (objs w i)" and ref: "unat (refcount ?h) = length bs"
    and hb: "handle_ok w i b" "mapped_size b = block_size ?h"
    using ok b by (simp_all add: shared_ok_def)
  have ref1: "refcount ?h = 1 \<longleftrightarrow> length bs = 1" using ref by (metis of_nat_1 unsigned_1 word_unat_eq_iff)
  show ?thesis
  proof (cases "length bs = 1")
    case True
    then have "bs = [b]" using b by (cases bs) auto
    moreover have "shared_memory_block_close ctx b None w =
        Ret (IPM_RESULT_SUCCESS, poisoned, unlinked ?nb i (\<lambda>l. l) (detached i b w))"
      using hb obj nm ref1 True q nb by (intro block_close_last) (simp_all add: no_list_edit)
    moreover have "names (unlinked ?nb i (\<lambda>l. l) (detached i b w)) ?nb = None"
      "faults (unlinked ?nb i (\<lambda>l. l) (detached i b w)) = tl (faults w)"
      by (simp_all add: unlinked_def detached_def)
    moreover have "quiet (w\<lparr>faults := tl (faults w)\<rparr>)" using q by (rule quiet_tl)
    ultimately show ?thesis
      using step kernel_ok_unlinked [OF kernel_ok_detached [OF ker]] by (simp add: life_inv_def quiet_def)
  next
    case False
    have w': "r = IPM_RESULT_SUCCESS" "w' = detached i b w"
      using block_close_shared [OF hb(1) obj hb(2), of ctx None] ref1 False step by simp_all
    have "remove1 b bs \<noteq> []" using False b by (metis One_nat_def Suc_pred length_pos_if_in_set length_remove1 list.size(3))
    moreover have "shared_ok bname bid (detached i b w) i (Suc n) (remove1 b bs)" by (rule shared_ok_detached [OF ok b])
    moreover have "names (detached i b w) ?nb = Some i" "quiet (detached i b w)"
      using nb q by (simp_all add: detached_def quiet_def)
    moreover have "length (remove1 b bs) \<le> Suc n" using len b by (simp add: length_remove1)
    ultimately show ?thesis using w' kernel_ok_detached [OF ker, of i b] by (simp add: life_inv_def)
  qed
qed

lemma life_invariant:
  assumes "life ctx bname bid w0 n w bs" and "n < 2 ^ 32 - 2"
    and "kernel_ok w0" and "quiet w0" and "good_name bname"
    and "names w0 (make_block_name_based_on_id name_buffer_size bname bid) = None"
  shows "life_inv bname bid n w bs"
  using assms(1,2)
proof (induction rule: life.induct)
  case start
  then show ?case using assms by (simp add: life_inv_def)
next
  case (create n w bs sz acc p_block blk w')
  then have inv: "life_inv bname bid n w bs" by simp
  have q: "quiet w" and ker: "kernel_ok w" using inv by (simp_all add: life_inv_def)
  have nm: "length bname \<le> IPM_MAX_NAME_LEN" using assms(5) by (simp add: good_name_def)
  have new: "names w (make_block_name_based_on_id name_buffer_size bname bid) = None"
    using create.hyps(5) block_create_exists [OF q nm create.hyps(2,3), of bid _ ctx acc p_block] by fastforce
  then have bs: "bs = []" using inv by (simp add: life_inv_def)
  obtain fs where "set fs \<subseteq> set (faults w)" "w' = (created bname bid sz acc w)\<lparr>faults := fs\<rparr>"
      "blk = new_block 1 sz acc (int (next_fd w)) (Addr (Suc (next_map w))) (Addr (next_map w))"
    using block_create_cases [OF ker quiet_one_fault [OF q] assms(5) create.hyps(2,3,4) new, of ctx acc p_block]
      create.hyps(5) by auto
  moreover have "quiet (w\<lparr>faults := fs\<rparr>)" using q calculation(1) by (auto simp: quiet_def)
  ultimately show ?case using created_inv [OF ker assms(5) create.hyps(2)] bs by simp
next
  case (attach n w bs acc p_block blk w')
  then have inv: "life_inv bname bid n w bs" by simp
  have q: "quiet w" using inv by (simp add: life_inv_def)
  have nm: "length bname \<le> IPM_MAX_NAME_LEN" using assms(5) by (simp add: good_name_def)
  obtain i where nb: "names w (make_block_name_based_on_id name_buffer_size bname bid) = Some i"
    using attach.hyps(2) block_open_missing [OF q nm, of bid ctx acc p_block] by fastforce
  then have obj: "block_obj bname bid (objs w i)" and ne: "refcount (obj_header (objs w i)) \<noteq> 0"
    using inv by (auto simp: life_inv_def shared_ok_def)
  obtain fs where "quiet (w\<lparr>faults := fs\<rparr>)" "w' = (opened i acc w)\<lparr>faults := fs\<rparr>"
    "blk = new_block (id_counter (obj_header (objs w i))) (block_size (obj_header (objs w i))) acc
          (int (next_fd w)) (Addr (next_map w)) (Addr (Suc (next_map w)))"
    using block_open_ok [OF q nm nb obj ne, of ctx acc p_block] attach.hyps(2) by auto
  then show ?case using opened_inv [OF inv _ nb] attach.prems by simp
next
  case (detach n w bs blk r blk' w')
  then show ?case using detached_inv [of bname bid n w bs blk ctx r blk' w'] assms(5) by simp
qed

section \<open>Properties\<close>

text \<open>
  C9. Along every run of successful creations, openings and closings of a block, in any order and shorter than the
  32-bit reference count can hold: the name exists exactly while there is a handle; the reference count is the
  number of handles; every handle maps the header and the whole block; no two handles share a
  descriptor, a mapping or an access id.
\<close>
theorem block_lifetime:
  assumes "life ctx bname bid w0 n w bs" and "n < 2 ^ 32 - 2"
    and "kernel_ok w0" and "quiet w0" and "good_name bname"
    and "names w0 (make_block_name_based_on_id name_buffer_size bname bid) = None"
  shows "(names w (make_block_name_based_on_id name_buffer_size bname bid) = None \<longleftrightarrow> bs = []) \<and>
    (\<forall>i. names w (make_block_name_based_on_id name_buffer_size bname bid) = Some i \<longrightarrow>
       unat (refcount (obj_header (objs w i))) = length bs \<and>
       (\<forall>b \<in> set bs. handle_ok w i b \<and> mapped_size b = block_size (obj_header (objs w i)))) \<and>
    distinct (map access_id bs) \<and> distinct (map mem_fd bs) \<and>
    distinct (concat (map (\<lambda>b. [header b, memory b]) bs))"
  using life_invariant [OF assms]
  by (auto simp: life_inv_def shared_ok_def separate_def owned_def [abs_def] split: option.splits)

theorem block_lifetime_witness:
  "\<exists>w bs. life test_ctx cool_block 1 sample_world 2 w bs \<and> length bs = 2 \<and>
    names w (make_block_name_based_on_id name_buffer_size cool_block 1) \<noteq> None \<and> distinct (map access_id bs)"
proof -
  let ?rw = IPM_ACCESS_MODE_READ_WRITE
  obtain fs b1 where fs: "set fs \<subseteq> {}" and c: "shared_memory_block_create test_ctx cool_block 1 4096 ?rw poisoned sample_world =
      Ret (IPM_RESULT_SUCCESS, b1, sample_created\<lparr>faults := fs\<rparr>)"
    using block_create_cases [of sample_world cool_block 4096 1 test_ctx ?rw poisoned]
    by (auto simp: word_less_nat_alt simp flip: sample_created_def)
  have "sample_created\<lparr>faults := fs\<rparr> = sample_created"
    using fs by (simp add: sample_created_def created_def sample_world_def)
  then have l1: "life test_ctx cool_block 1 sample_world (Suc 0) sample_created ([] @ [b1])"
    using life.create [OF life.start _ _ _ c] by (simp add: word_less_nat_alt)
  obtain b2 w where "shared_memory_block_open test_ctx cool_block 1 ?rw poisoned sample_created =
      Ret (IPM_RESULT_SUCCESS, b2, w)"
    using block_open_ok [of sample_created cool_block 1 0 test_ctx ?rw poisoned] by (auto simp: IPM_MAX_NAME_LEN_def)
  then have l2: "life test_ctx cool_block 1 sample_world 2 w [b1, b2]"
    using life.attach [OF l1] by (simp add: numeral_2_eq_2)
  then show ?thesis using block_lifetime [OF l2] by fastforce
qed

text \<open>
  While the name exists a second creation returns \<^verbatim>\<open>IPM_RESULT_ERR_EXISTS\<close> and opens nothing; when it does not
  exist opening fails and opens nothing, and the result is \<^verbatim>\<open>IPM_RESULT_ERR_DOES_NOT_EXIST\<close> provided that the error
  report leaves \<^verbatim>\<open>errno\<close> alone.
\<close>
lemma block_name_decides:
  assumes "quiet w" and "length bname \<le> IPM_MAX_NAME_LEN" and "0 < sz" and "unat sz mod 4096 = 0"
  shows "case names w (make_block_name_based_on_id name_buffer_size bname bid) of
      Some i \<Rightarrow> \<exists>w'. shared_memory_block_create ctx bname bid sz acc p_block w =
        Ret (IPM_RESULT_ERR_EXISTS, p_block, w') \<and> same_resources w w' \<and> objs w' = objs w
    | None \<Rightarrow> \<exists>r w'. shared_memory_block_open ctx bname bid acc p_block w = Ret (r, p_block, w') \<and>
        r \<noteq> IPM_RESULT_SUCCESS \<and> same_resources w w' \<and> objs w' = objs w \<and>
        (keeps_errno ctx (host w) \<longrightarrow> r = IPM_RESULT_ERR_DOES_NOT_EXIST)"
  using block_create_exists [OF assms, of bid] block_open_missing [OF assms(1,2), of bid]
  by (auto simp: same_resources_def split: option.split)

text \<open>
  C24. Opening a block while another process is creating it. The size is read before the loop that waits for the creator:
  before the object has got its size, reading the header is undefined behaviour; after that and before the
  creator has written the size of the block, the opener does not wait but fails, with \<^verbatim>\<open>IPM_RESULT_ERR_BAD_VALUE\<close> if the
  error report leaves \<^verbatim>\<open>errno\<close> alone, and keeps nothing; only after that it waits, and for ever if the creator never
  gets to the reference count.
\<close>

theorem open_during_creation:
  assumes "kernel_ok w" and "quiet w" and "length bname \<le> IPM_MAX_NAME_LEN"
    and "names w (make_block_name_based_on_id name_buffer_size bname bid) = Some i"
    and "refcount (obj_header (objs w i)) = 0" and "yields w = []"
  shows "if obj_len (objs w i) < 4096 then shared_memory_block_open ctx bname bid acc p_block w = UB
    else if block_size (obj_header (objs w i)) = 0 then
      \<exists>r w'. shared_memory_block_open ctx bname bid acc p_block w = Ret (r, p_block, w') \<and> r \<noteq> IPM_RESULT_SUCCESS \<and>
        (keeps_errno ctx (host w) \<longrightarrow> r = IPM_RESULT_ERR_BAD_VALUE) \<and> same_resources w w' \<and> objs w' = objs w
    else shared_memory_block_open ctx bname bid acc p_block w = Blocked"
proof -
  let ?w2 = "header_mapped i w"
  have q2: "quiet ?w2" using quiet_tl [OF quiet_tl [OF assms(2)]] by (simp add: header_mapped_def quiet_def)
  note run = open_maps_header [OF assms(2-4), of ctx acc p_block, unfolded header_mapped_read]
  consider "obj_len (objs w i) < 4096" | "4096 \<le> obj_len (objs w i)" "block_size (obj_header (objs w i)) = 0"
    | "4096 \<le> obj_len (objs w i)" "block_size (obj_header (objs w i)) \<noteq> 0" by linarith
  then show ?thesis
  proof cases
    case 1
    then show ?thesis using run by simp
  next
    case 2
    have mm: "mmap 0 (acc \<noteq> IPM_ACCESS_MODE_READ_ONLY) (int (next_fd w)) IPM_MEMORY_PAGE_SIZE ?w2 =
        (MAP_FAILED, ?w2\<lparr>faults := tl (faults ?w2), errno := EINVAL\<rparr>)"
      by (simp add: mmap_def next_fault_quiet [OF q2])
    define v where "v = w\<lparr>next_fd := Suc (next_fd w), next_map := Suc (next_map w), faults := tl (faults ?w2), errno := EINVAL\<rparr>"
    define w' where "w' = shm_report ctx (Lit ''Could not map shared memory to memory'' # errno_reason v) 205
      ''shared_memory_block_open'' v"
    have "fds w (int (next_fd w)) = None" "maps w (next_map w) = None" using kernel_ok_fresh [OF assms(1)] by simp_all
    then have "munmap (Addr (next_map w)) IPM_MEMORY_PAGE_SIZE
        (sys_close (int (next_fd w)) (?w2\<lparr>faults := tl (faults ?w2), errno := EINVAL\<rparr>)) = v"
      by (simp add: sys_close_def munmap_def header_mapped_def v_def IPM_MEMORY_PAGE_SIZE_def fun_upd_idem)
    then have "shared_memory_block_open ctx bname bid acc p_block w = Ret (mmap_error (errno w'), p_block, w')"
      using run 2 mm by (simp add: Let_def w'_def)
    moreover have "mmap_error (errno w') \<noteq> IPM_RESULT_SUCCESS" by simp
    moreover have "keeps_errno ctx (host w) \<Longrightarrow> mmap_error (errno w') = IPM_RESULT_ERR_BAD_VALUE"
      using shm_report_errno [of ctx v] by (simp add: w'_def v_def)
    ultimately show ?thesis using 2 by (auto simp: same_resources_def w'_def v_def)
  next
    case 3
    let ?sz = "block_size (obj_header (objs w i))"
    obtain w3 where mm: "mmap ?sz (acc \<noteq> IPM_ACCESS_MODE_READ_ONLY) (int (next_fd w)) IPM_MEMORY_PAGE_SIZE ?w2 =
        (Addr (Suc (next_map w)), w3)"
      and w3: "maps w3 (next_map w) = maps ?w2 (next_map w)" "objs w3 = objs w" "yields w3 = []"
      using mmap_quiet [OF q2 3(2), of "int (next_fd w)" i] assms(6) by (simp add: header_mapped_def)
    have "read_header (Addr (next_map w)) w3 = Ret (obj_header (objs w i))"
      using 3(1) w3 by (simp add: read_header_def header_at_def page_at_def header_mapped_def)
    then have "open_wait (Addr (next_map w)) w3 = Blocked" using assms(5) w3(3) by (subst open_wait.simps) simp
    then show ?thesis using run 3 mm by (simp add: open_check_header_def)
  qed
qed

theorem open_during_creation_witness:
  "\<exists>(w :: test_host world) r w'. shared_memory_block_open test_ctx cool_block 1 IPM_ACCESS_MODE_READ_WRITE poisoned w = Ret (r, poisoned, w') \<and>
    names w (make_block_name_based_on_id name_buffer_size cool_block 1) \<noteq> None \<and> r \<noteq> IPM_RESULT_SUCCESS"
proof -
  define w where "w = sample_world\<lparr>names := [make_block_name_based_on_id name_buffer_size cool_block 1 \<mapsto> 0], next_obj := 1,
      objs := \<lambda>_. empty_obj\<lparr>obj_len := 8192\<rparr>\<rparr>"
  have w: "kernel_ok w" "quiet w" "yields w = []" "obj_len (objs w 0) = 8192" "block_size (obj_header (objs w 0)) = 0"
    "refcount (obj_header (objs w 0)) = 0" "names w (make_block_name_based_on_id name_buffer_size cool_block 1) = Some 0"
    by (simp_all add: w_def kernel_ok_def quiet_def sample_world_def empty_obj_def zero_header_def)
  then obtain r w' where "shared_memory_block_open test_ctx cool_block 1 IPM_ACCESS_MODE_READ_WRITE poisoned w =
      Ret (r, poisoned, w')" "r \<noteq> IPM_RESULT_SUCCESS"
    using open_during_creation [OF w(1,2) _ w(7,6,3), of test_ctx IPM_ACCESS_MODE_READ_WRITE poisoned]
    by (auto simp: IPM_MAX_NAME_LEN_def)
  then show ?thesis using w(7) by (intro exI [of _ w] exI [of _ r] exI [of _ w']) simp
qed

end
