(* ===== verification/IPM_Memory.thy ===== *)
theory IPM_Memory
  imports Block_Lifetime
begin

text \<open>
  \<^verbatim>\<open>source/ipm_memory.c\<close> and \<^verbatim>\<open>source/ipm_memory_internal.h\<close>: the handles of the library. A handle lives in a
  block of the user's allocator and owns two shared memory blocks, the memory itself and the list of
  active claims. The claim operations work on the list in the mapped block; between taking and
  releasing the list mutex they are the functions of \<^verbatim>\<open>Claim_Region\<close>.
\<close>

section \<open>Handles\<close>

text \<open>
  The array \<^verbatim>\<open>block_name\<close> of a handle comes from \<^verbatim>\<open>malloc\<close>: a byte that was never written is \<open>None\<close>. A handle is
  passed around by value; \<open>mem_at\<close> is its address, which only \<^verbatim>\<open>ipm_free\<close> looks at.
\<close>

record 'h ipm_memory =
  mem_at :: ptr
  mem_ctx :: "'h ipm_context"
  handle_name :: "char option list"
  real_memory :: ipm_shared_memory_block
  active_claims :: ipm_shared_memory_block

definition IPM_MEMORY_BLOCK_REAL_MEMORY :: ipm_id where
  "IPM_MEMORY_BLOCK_REAL_MEMORY = 1"

definition IPM_MEMORY_BLOCK_ACTIVE_CALIMS :: ipm_id where
  "IPM_MEMORY_BLOCK_ACTIVE_CALIMS = 2"

definition sizeof_ipm_memory :: size_t where
  "sizeof_ipm_memory = 408"

record 'h ipm_memory_info =
  p_ctx :: "'h ipm_context"
  memory_access_mode :: ipm_access_mode
  info_access_id :: ipm_id
  info_name :: "char option list"
  info_block_size :: size_t
  mapping_address :: ptr
  info_active_claims :: size_t

text \<open>\<^verbatim>\<open>strncpy(this->block_name, block_name, sizeof(this->block_name) - 1)\<close>: the last byte stays as it was.\<close>

definition strncpy_name :: "string \<Rightarrow> char option list" where
  "strncpy_name bname =
     take IPM_MAX_NAME_LEN (map Some bname @ replicate IPM_MAX_NAME_LEN (Some (CHR 0x00))) @ [None]"

text \<open>Reading such an array as a string is undefined if a byte that was never written comes first.\<close>

fun array_text :: "char option list \<Rightarrow> string outcome" where
  "array_text [] = UB"
| "array_text (None # cs) = UB"
| "array_text (Some c # cs) =
     (if c = CHR 0x00 then Ret [] else bind_outcome (array_text cs) (\<lambda>t. Ret (c # t)))"

section \<open>Calls on the world\<close>

definition mem_report ::
  "'h ipm_context \<Rightarrow> fmt_piece list \<Rightarrow> int \<Rightarrow> string \<Rightarrow> ('h, 'a) world_scheme \<Rightarrow> ('h, 'a) world_scheme" where
  "mem_report context msg line func w = IPM_ERROR context msg ''ipm_memory.c'' line func w"

definition ipm_alloc ::
  "'h ipm_context \<Rightarrow> size_t \<Rightarrow> int \<Rightarrow> string \<Rightarrow> ('h, 'a) world_scheme \<Rightarrow> ptr \<times> ('h, 'a) world_scheme" where
  "ipm_alloc context sz line func w =
     (let (p, e, h) = ipm_alloc_real context sz ''ipm_memory.c'' line func (errno w, host w)
      in (p, w\<lparr>errno := e, host := h\<rparr>))"

definition free_handle :: "'h ipm_context \<Rightarrow> ptr \<Rightarrow> ('h, 'a) world_scheme \<Rightarrow> ('h, 'a) world_scheme" where
  "free_handle context p w =
     (let (e, h) = ipm_free context p (errno w, host w) in w\<lparr>errno := e, host := h\<rparr>)"

text \<open>Run an operation on the claim list behind a pointer.\<close>

definition on_list ::
  "ptr \<Rightarrow> (ipm_claim_list \<Rightarrow> ('h, 'a) world_scheme \<Rightarrow> ('r \<times> ipm_claim_list \<times> ('h, 'a) world_scheme) outcome) \<Rightarrow>
     ('h, 'a) world_scheme \<Rightarrow> ('r \<times> ('h, 'a) world_scheme) outcome" where
  "on_list p oper w =
     bind_outcome (read_list p w) (\<lambda>l.
     bind_outcome (oper l w) (\<lambda>(r, l, w).
     bind_outcome (write_list p l w) (\<lambda>w. Ret (r, w))))"

section \<open>Sizes\<close>

definition round_size :: "size_t \<Rightarrow> size_t" where
  "round_size sz =
     (let remainder = sz mod IPM_MEMORY_PAGE_SIZE
      in if remainder \<noteq> 0 then sz + (IPM_MEMORY_PAGE_SIZE - remainder) else sz)"

definition claim_size :: size_t where
  "claim_size = round_size (sizeof_ipm_claim_list + IPM_DEFAULT_CLAIM_CAPACITY * sizeof_ipm_memory_claim)"

definition real_claim_capacity :: size_t where
  "real_claim_capacity = (claim_size - sizeof_ipm_claim_list) div sizeof_ipm_memory_claim"

section \<open>Creating and opening\<close>

definition valid_access :: "ipm_access_mode \<Rightarrow> bool" where
  "valid_access acc \<longleftrightarrow> acc = IPM_ACCESS_MODE_READ_ONLY \<or> acc = IPM_ACCESS_MODE_READ_WRITE"

definition uninit_list ::
  "ptr \<Rightarrow> ('h, 'a) world_scheme \<Rightarrow> ('h, 'a) world_scheme outcome" where
  "uninit_list p w =
     bind_outcome (read_list p w) (\<lambda>l. write_list p (claim_list_uninit l w) w)"

text \<open>The part after the block of the claim list exists.\<close>

definition create_with_list ::
  "'h ipm_context \<Rightarrow> size_t \<Rightarrow> string \<Rightarrow> ipm_access_mode \<Rightarrow> ptr \<Rightarrow> ipm_shared_memory_block \<Rightarrow>
     ('h, 'a) world_scheme \<Rightarrow> (ipm_result \<times> 'h ipm_memory option \<times> ('h, 'a) world_scheme) outcome" where
  "create_with_list context proper_size bname acc this acl w =
     bind_outcome
       (on_list (memory acl) (\<lambda>l w. let (r, l, w) = claim_list_init l real_claim_capacity w in Ret (r, l, w)) w)
       (\<lambda>(res, w).
     if res \<noteq> IPM_RESULT_SUCCESS then
       (let w = mem_report context
                  ([Lit ''Could not initialize the claims list for the memory block '', Str bname] @
                   result_reason res) 57 ''ipm_memory_create'' w
        in bind_outcome (shared_memory_block_close context acl None w) (\<lambda>(r, b, w).
           Ret (res, None, free_handle context this w)))
     else
       bind_outcome
         (shared_memory_block_create context bname IPM_MEMORY_BLOCK_REAL_MEMORY proper_size acc poisoned w)
         (\<lambda>(res, real, w).
       if res \<noteq> IPM_RESULT_SUCCESS then
         (let w = mem_report context
                    ([Lit ''Could not create the shared memory block '', Str bname] @ result_reason res) 68
                    ''ipm_memory_create'' w
          in bind_outcome (uninit_list (memory acl) w) (\<lambda>w.
             bind_outcome (shared_memory_block_close context acl None w) (\<lambda>(r, b, w).
             Ret (res, None, free_handle context this w))))
       else
         Ret (IPM_RESULT_SUCCESS,
              Some \<lparr>mem_at = this, mem_ctx = context, handle_name = strncpy_name bname, real_memory = real,
                    active_claims = acl\<rparr>, w)))"

definition ipm_memory_create ::
  "'h ipm_context \<Rightarrow> size_t \<Rightarrow> string \<Rightarrow> ipm_access_mode \<Rightarrow> ('h, 'a) world_scheme \<Rightarrow>
     (ipm_result \<times> 'h ipm_memory option \<times> ('h, 'a) world_scheme) outcome" where
  "ipm_memory_create context sz bname acc w =
     c_assert (ndebug w) (sz > 0)
     (c_assert (ndebug w) (CHR ''/'' \<notin> set bname)
     (c_assert (ndebug w) (valid_access acc)
     (c_assert (ndebug w) (length bname \<le> IPM_MAX_NAME_LEN)
     (let (this, w) = ipm_alloc context sizeof_ipm_memory 31 ''ipm_memory_create'' w
      in if this = NULL then Ret (IPM_RESULT_ERR_OS_OUT_OF_MEMORY, None, w)
         else
           (let proper_size = round_size sz
            in c_assert (ndebug w) (proper_size > 0)
               (c_assert (ndebug w) (proper_size AND IPM_MEMORY_PAGE_SIZE_MASK = 0)
               (bind_outcome
                  (shared_memory_block_create context bname IPM_MEMORY_BLOCK_ACTIVE_CALIMS claim_size
                     IPM_ACCESS_MODE_READ_WRITE poisoned w)
                  (\<lambda>(res, acl, w).
                if res \<noteq> IPM_RESULT_SUCCESS then
                  (let w = mem_report context
                             ([Lit ''Could not create the shared memory block claim list '', Str bname] @
                              result_reason res) 48 ''ipm_memory_create'' w
                   in Ret (res, None, free_handle context this w))
                else create_with_list context proper_size bname acc this acl w))))))))"

definition ipm_memory_open ::
  "'h ipm_context \<Rightarrow> string \<Rightarrow> ipm_access_mode \<Rightarrow> ('h, 'a) world_scheme \<Rightarrow>
     (ipm_result \<times> 'h ipm_memory option \<times> ('h, 'a) world_scheme) outcome" where
  "ipm_memory_open context bname acc w =
     c_assert (ndebug w) (CHR ''/'' \<notin> set bname)
     (c_assert (ndebug w) (valid_access acc)
     (c_assert (ndebug w) (length bname \<le> IPM_MAX_NAME_LEN)
     (let (this, w) = ipm_alloc context sizeof_ipm_memory 89 ''ipm_memory_open'' w
      in if this = NULL then Ret (IPM_RESULT_ERR_OS_OUT_OF_MEMORY, None, w)
         else
           bind_outcome
             (shared_memory_block_open context bname IPM_MEMORY_BLOCK_REAL_MEMORY acc poisoned w)
             (\<lambda>(res, real, w).
           if res \<noteq> IPM_RESULT_SUCCESS then
             (let w = mem_report context
                        ([Lit ''Could not open the shared memory block '', Str bname] @ result_reason res) 102
                        ''ipm_memory_open'' w
              in Ret (res, None, free_handle context this w))
           else
             bind_outcome
               (shared_memory_block_open context bname IPM_MEMORY_BLOCK_ACTIVE_CALIMS
                  IPM_ACCESS_MODE_READ_WRITE poisoned w)
               (\<lambda>(res, acl, w).
             if res \<noteq> IPM_RESULT_SUCCESS then
               (let w = mem_report context
                          ([Lit ''Could not open the shared memory block claim list '', Str bname] @
                           result_reason res) 112 ''ipm_memory_open'' w
                in bind_outcome (shared_memory_block_close context real None w) (\<lambda>(r, b, w).
                   Ret (res, None, free_handle context this w)))
             else
               Ret (IPM_RESULT_SUCCESS,
                    Some \<lparr>mem_at = this, mem_ctx = context, handle_name = strncpy_name bname, real_memory = real,
                          active_claims = acl\<rparr>, w))))))"

section \<open>Claims\<close>

text \<open>The checks that come before the list is looked at, and the whole handler.\<close>

definition ipm_memory_claim_region ::
  "'h ipm_memory \<Rightarrow> ipm_access_mode \<Rightarrow> size_t \<Rightarrow> size_t \<Rightarrow> ('h, 'a) world_scheme \<Rightarrow>
     (ipm_result \<times> ipm_id option \<times> ('h, 'a) world_scheme) outcome" where
  "ipm_memory_claim_region mem acc off cnt w =
     c_assert (ndebug w) (valid_access acc)
     (c_assert (ndebug w) (cnt > 0)
     (if access_mode (real_memory mem) = IPM_ACCESS_MODE_READ_ONLY \<and> acc = IPM_ACCESS_MODE_READ_WRITE then
        Ret (IPM_RESULT_ERR_BAD_ACCESS, None,
             mem_report (mem_ctx mem)
               [Lit ''Memory block was opened as read-only and can not be claimed for read only access''] 211
               ''ipm_memory_claim_region'' w)
      else if mapped_size (real_memory mem) < off + cnt then
        Ret (IPM_RESULT_ERR_BAD_VALUE, None,
             mem_report (mem_ctx mem)
               [Lit ''Memory block has the size of '', Zu (mapped_size (real_memory mem)), Lit '', so region ['',
                Zu off, Lit '', '', Zu (off + cnt), Lit '') can not be claimed''] 216
               ''ipm_memory_claim_region'' w)
      else
        c_assert (ndebug w) (memory (active_claims mem) \<noteq> NULL)
        (bind_outcome
           (on_list (memory (active_claims mem)) (\<lambda>l w.
              bind_outcome (claim_region_list (mem_ctx mem) acc off cnt (access_id (real_memory mem)) l w)
                (\<lambda>(res, cid, l, w). Ret ((res, cid), l, w))) w)
           (\<lambda>((res, cid), w). Ret (res, cid, w)))))"

definition ipm_memory_release_region ::
  "'h ipm_memory \<Rightarrow> ipm_id \<Rightarrow> ('h, 'a) world_scheme \<Rightarrow> (ipm_result \<times> ('h, 'a) world_scheme) outcome" where
  "ipm_memory_release_region mem cid w =
     c_assert (ndebug w) (memory (active_claims mem) \<noteq> NULL)
     (on_list (memory (active_claims mem)) (release_region_list (mem_ctx mem) cid) w)"

definition ipm_memory_release_all ::
  "'h ipm_memory \<Rightarrow> ('h, 'a) world_scheme \<Rightarrow> (ipm_result \<times> ('h, 'a) world_scheme) outcome" where
  "ipm_memory_release_all mem w =
     on_list (memory (active_claims mem)) (release_all_list (mem_ctx mem) (access_id (real_memory mem))) w"

definition ipm_memory_remove_all_active_claims ::
  "'h ipm_memory \<Rightarrow> ('h, 'a) world_scheme \<Rightarrow> (ipm_result \<times> ('h, 'a) world_scheme) outcome" where
  "ipm_memory_remove_all_active_claims mem w =
     on_list (memory (active_claims mem)) (remove_all_list (mem_ctx mem)) w"

section \<open>Closing\<close>

definition claim_list_dtor_wrapper ::
  "ptr \<Rightarrow> ('h, 'a) world_scheme \<Rightarrow> ('h, 'a) world_scheme outcome" where
  "claim_list_dtor_wrapper p w = uninit_list p w"

definition ipm_memory_close ::
  "'h ipm_memory \<Rightarrow> ('h, 'a) world_scheme \<Rightarrow> ('h, 'a) world_scheme outcome" where
  "ipm_memory_close mem w =
     bind_outcome (ipm_memory_release_all mem w) (\<lambda>(r, w).
     bind_outcome
       (shared_memory_block_close (mem_ctx mem) (active_claims mem)
          (Some (claim_list_dtor_wrapper (memory (active_claims mem)))) w) (\<lambda>(r, b, w).
     bind_outcome (shared_memory_block_close (mem_ctx mem) (real_memory mem) None w) (\<lambda>(r, b, w).
     Ret (free_handle (mem_ctx mem) (mem_at mem) w))))"

definition ipm_memory_clean ::
  "'h ipm_memory \<Rightarrow> ('h, 'a) world_scheme \<Rightarrow> ('h, 'a) world_scheme outcome" where
  "ipm_memory_clean mem w =
     bind_outcome (shared_memory_block_clean (active_claims mem) w) (\<lambda>(r, b, w).
     bind_outcome (shared_memory_block_clean (real_memory mem) w) (\<lambda>(r, b, w).
     Ret (free_handle (mem_ctx mem) (mem_at mem) w)))"

section \<open>Queries and changes of the mapping\<close>

definition ipm_memory_get_info ::
  "'h ipm_memory \<Rightarrow> ('h, 'a) world_scheme \<Rightarrow> 'h ipm_memory_info outcome" where
  "ipm_memory_get_info mem w =
     bind_outcome (read_list (memory (active_claims mem)) w) (\<lambda>l.
     Ret \<lparr>p_ctx = mem_ctx mem, memory_access_mode = access_mode (real_memory mem),
          info_access_id = access_id (real_memory mem), info_name = handle_name mem,
          info_block_size = mapped_size (real_memory mem), mapping_address = memory (real_memory mem),
          info_active_claims = count l\<rparr>)"

text \<open>A message that names the block and the reason.\<close>

definition report_named ::
  "'h ipm_memory \<Rightarrow> fmt_piece list \<Rightarrow> ipm_result \<Rightarrow> int \<Rightarrow> string \<Rightarrow> ('h, 'a) world_scheme \<Rightarrow>
     ('h, 'a) world_scheme outcome" where
  "report_named mem before res line func w =
     bind_outcome (array_text (handle_name mem)) (\<lambda>nm.
     Ret (mem_report (mem_ctx mem)
       (before @ [Lit '' for block \"'', Str nm, Lit ''\" failed''] @ result_reason res) line func w))"

definition ipm_memory_sync ::
  "'h ipm_memory \<Rightarrow> ('h, 'a) world_scheme \<Rightarrow> (ipm_result \<times> 'h ipm_memory \<times> ('h, 'a) world_scheme) outcome" where
  "ipm_memory_sync mem w =
     bind_outcome
       (shared_memory_block_update_mapping (mem_ctx mem) (real_memory mem) (access_mode (real_memory mem)) w)
       (\<lambda>(res, b, w).
     let mem = mem\<lparr>real_memory := b\<rparr>
     in if res \<noteq> IPM_RESULT_SUCCESS then
          bind_outcome (report_named mem [Lit ''Memory sync''] res 163 ''ipm_memory_sync'' w) (\<lambda>w.
          Ret (res, mem, w))
        else Ret (res, mem, w))"

definition ipm_memory_change_access ::
  "'h ipm_memory \<Rightarrow> ipm_access_mode \<Rightarrow> ('h, 'a) world_scheme \<Rightarrow>
     (ipm_result \<times> 'h ipm_memory \<times> ('h, 'a) world_scheme) outcome" where
  "ipm_memory_change_access mem acc w =
     bind_outcome (shared_memory_block_update_mapping (mem_ctx mem) (real_memory mem) acc w)
       (\<lambda>(res, b, w).
     let mem = mem\<lparr>real_memory := b\<rparr>
     in if res \<noteq> IPM_RESULT_SUCCESS then
          bind_outcome
            (report_named mem [Lit ''Memory access change''] res 194 ''ipm_memory_change_access'' w) (\<lambda>w.
          Ret (res, mem, w))
        else Ret (res, mem, w))"

definition ipm_memory_resize_grow ::
  "'h ipm_memory \<Rightarrow> size_t \<Rightarrow> ('h, 'a) world_scheme \<Rightarrow>
     (ipm_result \<times> 'h ipm_memory \<times> ('h, 'a) world_scheme) outcome" where
  "ipm_memory_resize_grow mem new_size w =
     (let new_size = round_size new_size
      in if new_size < mapped_size (real_memory mem) then
           Ret (IPM_RESULT_ERR_BAD_VALUE, mem,
                mem_report (mem_ctx mem)
                  [Lit ''Can not decrease the size of the memory block from '',
                   Zu (mapped_size (real_memory mem)), Lit '' to '', Zu new_size] 173
                  ''ipm_memory_resize_grow'' w)
         else
           bind_outcome (shared_memory_block_resize (mem_ctx mem) (real_memory mem) new_size w)
             (\<lambda>(res, b, w).
           let mem = mem\<lparr>real_memory := b\<rparr>
           in if res \<noteq> IPM_RESULT_SUCCESS then
                bind_outcome
                  (report_named mem
                     [Lit ''Memory resizing to '', Zu (mapped_size (real_memory mem)), Lit '' bytes''] res 179
                     ''ipm_memory_resize_grow'' w) (\<lambda>w.
                let w = (if memory (real_memory mem) = NULL
                         then mem_report (mem_ctx mem)
                                [Lit ''Failure with resizing made it so that the block mapping is no longer valid'']
                                182 ''ipm_memory_resize_grow'' w
                         else w)
                in Ret (res, mem, w))
              else Ret (IPM_RESULT_SUCCESS, mem, w)))"

definition ipm_memory_ref_count :: "'h ipm_memory \<Rightarrow> ('h, 'a) world_scheme \<Rightarrow> uint32 outcome" where
  "ipm_memory_ref_count mem w =
     bind_outcome (read_header (header (real_memory mem)) w) (\<lambda>h. Ret (refcount h))"

definition ipm_memory_pointer :: "'h ipm_memory \<Rightarrow> ptr" where
  "ipm_memory_pointer mem = memory (real_memory mem)"

definition internal_ipm_memory_clam_list :: "'h ipm_memory \<Rightarrow> ptr" where
  "internal_ipm_memory_clam_list mem = memory (active_claims mem)"


section \<open>Sizes\<close>

lemma unat_mod_page: "unat (sz mod IPM_MEMORY_PAGE_SIZE) = unat sz mod 4096"
  by (simp add: unat_mod)

lemma page_ceil_unaligned:
  assumes "0 < n mod 4096"
  shows "page_ceil n = n + (4096 - n mod 4096)"
proof -
  define q r where "q = n div 4096" and "r = n mod 4096"
  have n: "n = q * 4096 + r" and r: "0 < r" "r < 4096" using assms by (simp_all add: q_def r_def)
  have "(n + 4095) div 4096 = q + (r + 4095) div 4096" by (simp add: n add.assoc)
  also have "(r + 4095) div 4096 = 1" using r by (intro div_nat_eqI) simp_all
  finally show ?thesis using n r unfolding page_ceil_def r_def [symmetric] by simp
qed

lemma round_size_exact:
  assumes "unat sz + 4095 < 2 ^ 64"
  shows "unat (round_size sz) = page_ceil (unat sz)"
proof -
  let ?r = "sz mod IPM_MEMORY_PAGE_SIZE"
  have r: "unat ?r = unat sz mod 4096" by (rule unat_mod_page)
  show ?thesis
  proof (cases "?r = 0")
    case True
    then have "unat sz mod 4096 = 0" using r by (metis unat_0)
    then show ?thesis using True by (simp add: round_size_def page_ceil_aligned)
  next
    case False
    then have pos: "0 < unat sz mod 4096" using r by (metis neq0_conv unat_eq_0)
    have "?r \<le> IPM_MEMORY_PAGE_SIZE" using r by (simp add: word_le_nat_alt)
    then have d: "unat (IPM_MEMORY_PAGE_SIZE - ?r) = 4096 - unat sz mod 4096" by (simp add: unat_sub r)
    have "unat (sz + (IPM_MEMORY_PAGE_SIZE - ?r)) = unat sz + (4096 - unat sz mod 4096)"
      using assms d pos by (subst unat_plus_no_wrap) simp_all
    moreover have "unat sz + (4096 - unat sz mod 4096) = page_ceil (unat sz)"
      using page_ceil_unaligned [OF pos] by simp
    ultimately show ?thesis using False by (simp add: round_size_def Let_def)
  qed
qed

lemma round_size_69: "round_size 69 = 4096"
proof -
  have "unat (round_size 69) = page_ceil (unat (69 :: size_t))" by (rule round_size_exact) simp
  then have "unat (round_size 69) = unat (4096 :: size_t)" by (simp add: page_ceil_def)
  then show ?thesis by (simp only: word_unat_eq_iff)
qed

lemma round_size_wraps:
  assumes "2 ^ 64 - 4096 < unat sz"
  shows "round_size sz = 0"
proof -
  let ?r = "sz mod IPM_MEMORY_PAGE_SIZE"
  have lt: "unat sz < 2 ^ 64" using unsigned_less [of sz] by simp
  define k where "k = unat sz - (2 ^ 64 - 4096)"
  have k: "unat sz = (2 ^ 52 - 1) * 4096 + k" "0 < k" "k < 4096"
    using assms lt by (simp_all add: k_def)
  have "((2 ^ 52 - 1) * 4096 + k) mod 4096 = k mod 4096" by (rule mod_mult_self3)
  then have pos: "unat sz mod 4096 = k" using k(3) unfolding k(1) by simp
  have ne: "?r \<noteq> 0" using pos k(2) unat_mod_page [of sz] by (metis less_irrefl unat_0)
  have "?r \<le> IPM_MEMORY_PAGE_SIZE" using unat_mod_page [of sz] by (simp add: word_le_nat_alt)
  then have "unat (IPM_MEMORY_PAGE_SIZE - ?r) = 4096 - unat sz mod 4096" by (simp add: unat_sub unat_mod_page)
  then have "unat sz + unat (IPM_MEMORY_PAGE_SIZE - ?r) = 2 ^ 64" using pos k by simp
  then have "unat (sz + (IPM_MEMORY_PAGE_SIZE - ?r)) = 0" by (simp add: unat_word_ariths)
  then show ?thesis using ne by (simp add: round_size_def Let_def unat_eq_0)
qed

lemma claim_size_eq [simp]: "claim_size = 4096"
proof -
  have s: "sizeof_ipm_claim_list + IPM_DEFAULT_CLAIM_CAPACITY * sizeof_ipm_memory_claim = (2672 :: size_t)"
    by (simp add: sizeof_ipm_claim_list_def IPM_DEFAULT_CLAIM_CAPACITY_def sizeof_ipm_memory_claim_def)
  have "unat (round_size 2672) = page_ceil (unat (2672 :: size_t))" by (rule round_size_exact) simp
  then have "unat (round_size 2672) = unat (4096 :: size_t)" by (simp add: page_ceil_def)
  then show ?thesis unfolding claim_size_def s by (simp only: word_unat_eq_iff)
qed

lemma real_claim_capacity_eq [simp]: "real_claim_capacity = 99"
proof -
  have "unat real_claim_capacity = 99"
    by (simp add: real_claim_capacity_def sizeof_ipm_claim_list_def sizeof_ipm_memory_claim_def unat_div)
  then have "unat real_claim_capacity = unat (99 :: size_t)" by simp
  then show ?thesis by (simp only: word_unat_eq_iff)
qed

section \<open>Frames\<close>

lemma mem_report_frame [simp]:
  "self (mem_report ctx msg l f w) = self w" "ndebug (mem_report ctx msg l f w) = ndebug w"
  "faults (mem_report ctx msg l f w) = faults w" "others (mem_report ctx msg l f w) = others w"
  "fds (mem_report ctx msg l f w) = fds w" "next_fd (mem_report ctx msg l f w) = next_fd w"
  "names (mem_report ctx msg l f w) = names w" "objs (mem_report ctx msg l f w) = objs w"
  "next_obj (mem_report ctx msg l f w) = next_obj w" "maps (mem_report ctx msg l f w) = maps w"
  "next_map (mem_report ctx msg l f w) = next_map w" "strays (mem_report ctx msg l f w) = strays w"
  by (simp_all add: mem_report_def IPM_ERROR_def split: prod.split)

lemma free_handle_frame [simp]:
  "self (free_handle ctx p w) = self w" "ndebug (free_handle ctx p w) = ndebug w"
  "faults (free_handle ctx p w) = faults w" "others (free_handle ctx p w) = others w"
  "fds (free_handle ctx p w) = fds w" "next_fd (free_handle ctx p w) = next_fd w"
  "names (free_handle ctx p w) = names w" "objs (free_handle ctx p w) = objs w"
  "next_obj (free_handle ctx p w) = next_obj w" "maps (free_handle ctx p w) = maps w"
  "next_map (free_handle ctx p w) = next_map w" "strays (free_handle ctx p w) = strays w"
  by (simp_all add: free_handle_def split: prod.split)

lemma ipm_alloc_frame:
  "ipm_alloc ctx sz l f w = (p, w') \<Longrightarrow> \<exists>e h. w' = w\<lparr>errno := e, host := h\<rparr>"
  by (auto simp: ipm_alloc_def split: prod.splits)

lemma ipm_condition_init_quiet:
  assumes "quiet w"
  shows "\<exists>fs. ipm_condition_init c w = (IPM_RESULT_SUCCESS, Cnd True 0, w\<lparr>faults := fs\<rparr>) \<and>
    quiet (w\<lparr>faults := fs\<rparr>)"
proof -
  have "set (faults w) \<subseteq> {ENONE}" using assms by (auto simp: quiet_def)
  then show ?thesis
    by (cases w) (auto simp: ipm_condition_init_def init_defs quiet_def split: list.splits)
qed

lemma claim_list_init_quiet:
  assumes "quiet w"
  shows "\<exists>fs. claim_list_init l cap w =
      (IPM_RESULT_SUCCESS,
       l\<lparr>list_mutex := Mut shared_robust Unlocked, list_cnd := Cnd True 0, count := 0, capacity := cap,
         claim_counter := 0\<rparr>, w\<lparr>faults := fs\<rparr>) \<and> quiet (w\<lparr>faults := fs\<rparr>)"
proof -
  obtain fs where m: "ipm_mutex_init (list_mutex l) w =
      (IPM_RESULT_SUCCESS, Mut shared_robust Unlocked, w\<lparr>faults := fs\<rparr>)" and q: "quiet (w\<lparr>faults := fs\<rparr>)"
    using ipm_mutex_init_quiet [OF assms] by blast
  obtain gs where c: "ipm_condition_init (list_cnd l) (w\<lparr>faults := fs\<rparr>) =
      (IPM_RESULT_SUCCESS, Cnd True 0, w\<lparr>faults := gs\<rparr>)" and q': "quiet (w\<lparr>faults := gs\<rparr>)"
    using ipm_condition_init_quiet [OF q, of "list_cnd l"] by auto
  show ?thesis using m c q' by (intro exI [of _ gs]) (simp add: claim_list_init_def Let_def)
qed


section \<open>Sound handles\<close>

text \<open>
  A handle whose memory is a handle of the object \<open>ir\<close> and whose claim list is in the object \<open>ic\<close>, mapped for
  writing in its fixed size.
\<close>

definition mem_ok :: "('h, 'a) world_scheme \<Rightarrow> nat \<Rightarrow> nat \<Rightarrow> 'h ipm_memory \<Rightarrow> bool" where
  "mem_ok w ir ic mem \<longleftrightarrow>
     ir \<noteq> ic \<and> handle_ok w ir (real_memory mem) \<and> handle_ok w ic (active_claims mem) \<and>
     access_mode (active_claims mem) = IPM_ACCESS_MODE_READ_WRITE \<and>
     mapped_size (active_claims mem) = claim_size \<and> obj_len (objs w ic) = 8192 \<and>
     length (claims (obj_list (objs w ic))) = 99 \<and> 4096 \<le> obj_len (objs w ir)"

definition set_list :: "nat \<Rightarrow> ipm_claim_list \<Rightarrow> ('h, 'a) world_scheme \<Rightarrow> ('h, 'a) world_scheme" where
  "set_list ic l w = w\<lparr>objs := (objs w)(ic := (objs w ic)\<lparr>obj_list := l\<rparr>)\<rparr>"

lemma list_at_handle:
  assumes "handle_ok w ic acl" and "access_mode acl = IPM_ACCESS_MODE_READ_WRITE"
    and "mapped_size acl = claim_size" and "obj_len (objs w ic) = 8192"
  shows "list_at (memory acl) w = Some ic" and "memory acl \<noteq> NULL"
  using assms
  by (auto simp: list_at_def page_at_def sizeof_ipm_claim_list_def elim!: handle_okE)

lemma read_write_list:
  assumes "list_at p w = Some ic"
  shows "read_list p w = Ret (obj_list (objs w ic))" and "write_list p l w = Ret (set_list ic l w)"
  using assms by (simp_all add: read_list_def write_list_def set_list_def)

lemma mem_ok_list:
  assumes "mem_ok w ir ic mem"
  shows "list_at (memory (active_claims mem)) w = Some ic" and "memory (active_claims mem) \<noteq> NULL"
proof -
  have "handle_ok w ic (active_claims mem)" "access_mode (active_claims mem) = IPM_ACCESS_MODE_READ_WRITE"
    "mapped_size (active_claims mem) = claim_size" "obj_len (objs w ic) = 8192"
    using assms by (simp_all add: mem_ok_def)
  note l = list_at_handle [OF this]
  show "list_at (memory (active_claims mem)) w = Some ic" and "memory (active_claims mem) \<noteq> NULL"
    by (fact l)+
qed

text \<open>The claim list of a memory holds 99 claims.\<close>

lemma count_full: "ready l \<Longrightarrow> capacity l = 99 \<Longrightarrow> count l = capacity l \<longleftrightarrow> length (active l) = 99"
  using list_wfD(5) [of l] by (auto simp: ready_def word_unat_eq_iff)

lemma ready_room: "ready l \<Longrightarrow> capacity l = 99 \<Longrightarrow> length (active l) < 99 \<Longrightarrow> count l < capacity l"
  using list_wfD(5) [of l] by (simp add: ready_def word_less_nat_alt)

lemma set_list_frame [simp]:
  "obj_list (objs (set_list ic l w) ic) = l" "set_list ic l (set_list ic l' w) = set_list ic l w"
  "obj_header (objs (set_list ic l w) j) = obj_header (objs w j)" "obj_len (objs (set_list ic l w) j) = obj_len (objs w j)"
  "names (set_list ic l w) = names w" "faults (set_list ic l w) = faults w" "host (set_list ic l w) = host w"
  "errno (set_list ic l w) = errno w" "ndebug (set_list ic l w) = ndebug w" "self (set_list ic l w) = self w"
  "quiet (set_list ic l w) = quiet w"
  by (simp_all add: set_list_def quiet_def)

lemma block_obj_set_list [simp]: "block_obj bname bid (objs (set_list ic l w) j) = block_obj bname bid (objs w j)"
  by (simp add: block_obj_def)

lemma mem_ok_set_list:
  "mem_ok w ir ic mem \<Longrightarrow> length (claims l) = 99 \<Longrightarrow> mem_ok (set_list ic l w) ir ic mem"
  by (auto simp: mem_ok_def set_list_def handle_ok_cong [of "w\<lparr>objs := _\<rparr>" w])

lemma on_list_Ret:
  assumes "list_at p w = Some ic" and "oper (obj_list (objs w ic)) w = Ret (r, l, w')" and "list_at p w' = Some ic"
  shows "on_list p oper w = Ret (r, set_list ic l w')"
  using assms by (simp add: on_list_def read_write_list)

lemma list_at_faults [simp]: "list_at p (w\<lparr>faults := fs\<rparr>) = list_at p w"
  by (simp add: list_at_def page_at_def split: ptr.split option.split)

section \<open>Creating\<close>

lemma handle_ok_created:
  assumes "kernel_ok w" and "handle_ok w i b"
  shows "handle_ok ((created bname bid sz acc w)\<lparr>faults := fs\<rparr>) i b"
proof -
  have m: "maps w (next_map w) = None" "maps w (Suc (next_map w)) = None"
    and f: "fds w (int (next_fd w)) = None"
    using kernel_ok_fresh [OF assms(1)] by simp_all
  show ?thesis using assms(2) m f
    by (auto simp: handle_ok_def created_def split: ptr.splits)
qed

text \<open>The list that \<^verbatim>\<open>ipm_memory_create\<close> leaves in a fresh block.\<close>

definition fresh_list :: ipm_claim_list where
  "fresh_list =
     \<lparr>list_mutex = Mut shared_robust Unlocked, list_cnd = Cnd True 0, count = 0, capacity = 99,
      claim_counter = 0, claims = replicate 99 zero_claim\<rparr>"

lemma fresh_list_ready: "ready fresh_list" "active fresh_list = []" "length (claims fresh_list) = 99"
  by (simp_all add: ready_def list_wf_def fresh_list_def active_def)

lemma new_obj_list:
  "obj_list (new_obj bname bid 4096) = zero_claim_list 99" "obj_len (new_obj bname bid 4096) = 8192"
  by (simp_all add: new_obj_def resize_obj_def empty_obj_def claim_slots_def zero_claim_list_def
      sizeof_ipm_claim_list_def sizeof_ipm_memory_claim_def)

lemma block_create_quiet:
  assumes "kernel_ok w" and "quiet w" and "good_name bname" and "0 < sz"
    and "unat sz mod 4096 = 0" and "unat sz + 4096 < 2 ^ 63"
    and "names w (make_block_name_based_on_id name_buffer_size bname bid) = None"
  shows "\<exists>fs. quiet (w\<lparr>faults := fs\<rparr>) \<and> shared_memory_block_create ctx bname bid sz acc p_block w =
    Ret (IPM_RESULT_SUCCESS,
         new_block 1 sz acc (int (next_fd w)) (Addr (Suc (next_map w))) (Addr (next_map w)),
         (created bname bid sz acc w)\<lparr>faults := fs\<rparr>)"
proof -
  have "\<not> (3 < length (faults w) \<and> faults w ! 3 \<noteq> ENONE)" using assms(2) by (auto simp: quiet_def)
  then obtain fs where "set fs \<subseteq> set (faults w)" "shared_memory_block_create ctx bname bid sz acc p_block w =
    Ret (IPM_RESULT_SUCCESS,
         new_block 1 sz acc (int (next_fd w)) (Addr (Suc (next_map w))) (Addr (next_map w)),
         (created bname bid sz acc w)\<lparr>faults := fs\<rparr>)"
    using block_create_cases [OF assms(1) quiet_one_fault [OF assms(2)] assms(3-7), of ctx acc p_block] assms(2)
    by blast
  then show ?thesis using assms(2) by (auto simp: quiet_def)
qed

text \<open>The handle and the world that a creation without failure ends with, up to the faults that are left.\<close>

definition new_memory ::
  "'h ipm_context \<Rightarrow> ptr \<Rightarrow> string \<Rightarrow> size_t \<Rightarrow> ipm_access_mode \<Rightarrow> ('h, 'a) world_scheme \<Rightarrow> 'h ipm_memory" where
  "new_memory ctx this bname sz acc w =
     \<lparr>mem_at = this, mem_ctx = ctx, handle_name = strncpy_name bname,
      real_memory = new_block 1 sz acc (int (Suc (next_fd w))) (Addr (Suc (Suc (Suc (next_map w))))) (Addr (Suc (Suc (next_map w)))),
      active_claims = new_block 1 4096 IPM_ACCESS_MODE_READ_WRITE (int (next_fd w)) (Addr (Suc (next_map w))) (Addr (next_map w))\<rparr>"

definition with_list :: "string \<Rightarrow> ('h, 'a) world_scheme \<Rightarrow> ('h, 'a) world_scheme" where
  "with_list bname w = set_list (next_obj w) fresh_list (created bname 2 4096 IPM_ACCESS_MODE_READ_WRITE w)"

lemma with_list_facts:
  "next_obj (with_list bname w) = Suc (next_obj w)" "next_fd (with_list bname w) = Suc (next_fd w)"
  "next_map (with_list bname w) = Suc (Suc (next_map w))"
  "names (with_list bname w) = (names w)(make_block_name_based_on_id name_buffer_size bname 2 \<mapsto> next_obj w)"
  "objs (with_list bname w) (next_obj w) = (new_obj bname 2 4096)\<lparr>obj_list := fresh_list\<rparr>"
  by (simp_all add: with_list_def set_list_def created_def)

lemma with_list_handle:
  "handle_ok (with_list bname w) (next_obj w) (active_claims (new_memory ctx this bname sz acc w))"
  by (simp add: with_list_def set_list_def handle_ok_def new_memory_def new_block_def created_def)

lemma kernel_ok_with_list: "kernel_ok w \<Longrightarrow> kernel_ok ((with_list bname w)\<lparr>faults := fs\<rparr>)"
  using kernel_ok_created [of w, where bname = bname and bid = 2 and sz = 4096]
  by (simp add: with_list_def set_list_def kernel_ok_def)

lemma init_new_list:
  fixes w :: "('h, 'a) world_scheme"
  defines "v \<equiv> \<lambda>bname fs. (created bname 2 4096 IPM_ACCESS_MODE_READ_WRITE w)\<lparr>faults := fs\<rparr>"
  assumes q: "quiet (w\<lparr>faults := fs\<rparr>)"
  shows "\<exists>gs. quiet (w\<lparr>faults := gs\<rparr>) \<and>
    on_list (Addr (next_map w)) (\<lambda>l w. let (r, l, w) = claim_list_init l real_claim_capacity w in Ret (r, l, w)) (v bname fs) =
      Ret (IPM_RESULT_SUCCESS, (with_list bname w)\<lparr>faults := gs\<rparr>)"
proof -
  let ?v = "v bname fs" and ?ic = "next_obj w"
  have at: "list_at (Addr (next_map w)) (?v\<lparr>faults := gs\<rparr>) = Some ?ic" for gs
    using list_at_handle(1) [of "?v\<lparr>faults := gs\<rparr>" ?ic
        "new_block 1 4096 IPM_ACCESS_MODE_READ_WRITE (int (next_fd w)) (Addr (Suc (next_map w))) (Addr (next_map w))"]
    by (simp add: v_def handle_ok_def new_block_def created_def new_obj_list)
  have "quiet ?v" using q by (simp add: v_def quiet_def)
  from claim_list_init_quiet [OF this, of "zero_claim_list 99" 99]
  obtain gs where i: "claim_list_init (zero_claim_list 99) 99 ?v = (IPM_RESULT_SUCCESS, fresh_list, ?v\<lparr>faults := gs\<rparr>)"
    and q': "quiet (?v\<lparr>faults := gs\<rparr>)"
    by (auto simp: zero_claim_list_def fresh_list_def)
  have "obj_list (objs ?v ?ic) = zero_claim_list 99" by (simp add: v_def created_def new_obj_list)
  then have "on_list (Addr (next_map w)) (\<lambda>l w. let (r, l, w) = claim_list_init l real_claim_capacity w in Ret (r, l, w)) ?v =
      Ret (IPM_RESULT_SUCCESS, set_list ?ic fresh_list (?v\<lparr>faults := gs\<rparr>))"
    using at [of fs] at [of gs] i by (intro on_list_Ret) (simp_all add: v_def)
  moreover have "set_list ?ic fresh_list (?v\<lparr>faults := gs\<rparr>) = (with_list bname w)\<lparr>faults := gs\<rparr>"
    by (simp add: v_def set_list_def with_list_def)
  ultimately show ?thesis using q' by (auto simp: v_def quiet_def)
qed

lemma rounded_size:
  assumes "0 < sz" and "unat sz < 2 ^ 62"
  shows "0 < round_size sz" "unat (round_size sz) mod 4096 = 0" "unat (round_size sz) + 4096 < 2 ^ 63"
    "unat sz \<le> unat (round_size sz)"
proof -
  have r: "unat (round_size sz) = page_ceil (unat sz)" using assms(2) by (intro round_size_exact) simp
  show le: "unat sz \<le> unat (round_size sz)" using r page_ceil_ge by simp
  then show "0 < round_size sz" using assms(1) by (simp add: word_less_nat_alt)
  show "unat (round_size sz) mod 4096 = 0" using r by (simp add: page_ceil_def)
  have "unat (round_size sz) \<le> unat sz + 4095" using r by (simp add: page_ceil_def)
  then show "unat (round_size sz) + 4096 < 2 ^ 63" using assms(2) by simp
qed

lemma memory_create_run:
  assumes ker: "kernel_ok w" and q: "quiet w" and nm: "good_name bname" "CHR ''/'' \<notin> set bname"
    and acc: "valid_access acc" and sz: "0 < sz" "unat sz < 2 ^ 62"
    and new: "\<forall>bid \<in> {1, 2}. names w (make_block_name_based_on_id name_buffer_size bname bid) = None"
    and alloc: "ipm_alloc ctx sizeof_ipm_memory 31 ''ipm_memory_create'' w = (this, w0)" "this \<noteq> NULL"
  shows "\<exists>fs. quiet (w\<lparr>faults := fs\<rparr>) \<and> ipm_memory_create ctx sz bname acc w =
    Ret (IPM_RESULT_SUCCESS, Some (new_memory ctx this bname (round_size sz) acc w),
         (created bname 1 (round_size sz) acc (with_list bname w0))\<lparr>faults := fs\<rparr>)"
proof -
  let ?nb = "make_block_name_based_on_id name_buffer_size bname" and ?rw = IPM_ACCESS_MODE_READ_WRITE
  note rs = rounded_size [OF sz]
  obtain e h where w0: "w0 = w\<lparr>errno := e, host := h\<rparr>" using ipm_alloc_frame [OF alloc(1)] by blast
  have k0: "kernel_ok w0" "quiet w0" "names w0 (?nb 2) = None" using ker q new by (simp_all add: w0 kernel_ok_def quiet_def)
  obtain fs1 where q1: "quiet (w0\<lparr>faults := fs1\<rparr>)" and c1: "shared_memory_block_create ctx bname 2 4096 ?rw poisoned w0 =
      Ret (IPM_RESULT_SUCCESS, active_claims (new_memory ctx this bname (round_size sz) acc w),
         (created bname 2 4096 ?rw w0)\<lparr>faults := fs1\<rparr>)"
    using block_create_quiet [OF k0(1,2) nm(1) _ _ _ k0(3), of 4096 ctx ?rw poisoned]
    by (auto simp: w0 word_less_nat_alt new_memory_def)
  obtain fs2 where q2: "quiet (w0\<lparr>faults := fs2\<rparr>)" and c2: "on_list (Addr (next_map w0))
      (\<lambda>l w. let (r, l, w) = claim_list_init l real_claim_capacity w in Ret (r, l, w))
      ((created bname 2 4096 ?rw w0)\<lparr>faults := fs1\<rparr>) = Ret (IPM_RESULT_SUCCESS, (with_list bname w0)\<lparr>faults := fs2\<rparr>)"
    using init_new_list [OF q1, of bname] by blast
  let ?v = "(with_list bname w0)\<lparr>faults := fs2\<rparr>"
  have "?nb 1 \<noteq> ?nb 2" using block_name_inj [of bname bname 1 2] nm(1) by (auto simp: good_name_def)
  then have n2: "names ?v (?nb 1) = None" using new by (simp add: with_list_facts w0)
  have "quiet ?v" using q2 by (simp add: quiet_def)
  from block_create_quiet [OF kernel_ok_with_list [OF k0(1)] this nm(1) rs(1-3) n2, of ctx acc poisoned]
  obtain fs where q3: "quiet (?v\<lparr>faults := fs\<rparr>)" and c3: "shared_memory_block_create ctx bname 1 (round_size sz) acc poisoned ?v =
      Ret (IPM_RESULT_SUCCESS, real_memory (new_memory ctx this bname (round_size sz) acc w),
        (created bname 1 (round_size sz) acc ?v)\<lparr>faults := fs\<rparr>)"
    by (auto simp: with_list_facts new_memory_def w0)
  have nd: "ndebug w0 = ndebug w" "memory (active_claims (new_memory ctx this bname (round_size sz) acc w)) = Addr (next_map w0)"
    by (simp_all add: w0 new_memory_def new_block_def)
  have "(created bname 1 (round_size sz) acc ?v)\<lparr>faults := fs\<rparr> =
      (created bname 1 (round_size sz) acc (with_list bname w0))\<lparr>faults := fs\<rparr>" by (simp add: created_def)
  then have "ipm_memory_create ctx sz bname acc w =
      Ret (IPM_RESULT_SUCCESS, Some (new_memory ctx this bname (round_size sz) acc w),
         (created bname 1 (round_size sz) acc (with_list bname w0))\<lparr>faults := fs\<rparr>)"
    using nm acc sz(1) alloc rs c1 c2 c3 nd
    by (simp add: ipm_memory_create_def create_with_list_def good_name_def page_mask_iff
        IPM_MEMORY_BLOCK_REAL_MEMORY_def IPM_MEMORY_BLOCK_ACTIVE_CALIMS_def) (simp add: new_memory_def)
  moreover have "quiet (w\<lparr>faults := fs\<rparr>)" using q3 by (simp add: quiet_def)
  ultimately show ?thesis by blast
qed

lemma memory_create_ok:
  assumes ker: "kernel_ok w" and q: "quiet w" and nm: "good_name bname" "CHR ''/'' \<notin> set bname"
    and acc: "valid_access acc" and sz: "0 < sz" "unat sz < 2 ^ 62"
    and new: "\<forall>bid \<in> {1, 2}. names w (make_block_name_based_on_id name_buffer_size bname bid) = None"
    and alloc: "ipm_alloc ctx sizeof_ipm_memory 31 ''ipm_memory_create'' w = (this, w0)" "this \<noteq> NULL"
  shows "\<exists>mem w'. ipm_memory_create ctx sz bname acc w = Ret (IPM_RESULT_SUCCESS, Some mem, w') \<and>
    mem_ok w' (Suc (next_obj w)) (next_obj w) mem \<and> kernel_ok w' \<and> quiet w' \<and>
    obj_list (objs w' (next_obj w)) = fresh_list \<and>
    block_obj bname 2 (objs w' (next_obj w)) \<and> block_obj bname 1 (objs w' (Suc (next_obj w))) \<and>
    refcount (obj_header (objs w' (next_obj w))) = 1 \<and> refcount (obj_header (objs w' (Suc (next_obj w)))) = 1 \<and>
    block_size (obj_header (objs w' (next_obj w))) = claim_size \<and>
    block_size (obj_header (objs w' (Suc (next_obj w)))) = round_size sz \<and>
    segment_mutex (obj_header (objs w' (Suc (next_obj w)))) = Mut shared_robust Unlocked \<and>
    names w' = (names w)(make_block_name_based_on_id name_buffer_size bname 2 \<mapsto> next_obj w,
                         make_block_name_based_on_id name_buffer_size bname 1 \<mapsto> Suc (next_obj w)) \<and>
    mapped_size (real_memory mem) = round_size sz \<and> access_mode (real_memory mem) = acc \<and>
    mem_ctx mem = ctx \<and> mem_at mem = this \<and> access_id (real_memory mem) = 1 \<and>
    fds w = (fds w')(mem_fd (active_claims mem) := None, mem_fd (real_memory mem) := None) \<and>
    (\<forall>a. maps w a = (if Addr a \<in> {header (real_memory mem), memory (real_memory mem),
                                  header (active_claims mem), memory (active_claims mem)}
                     then None else maps w' a)) \<and> strays w' = strays w \<and>
    host w' = host w0 \<and> errno w' = errno w0 \<and> self w' = self w \<and> ndebug w' = ndebug w \<and> others w' = others w"
proof -
  let ?ic = "next_obj w" and ?ir = "Suc (next_obj w)" and ?sz = "round_size sz"
  let ?mem = "new_memory ctx this bname ?sz acc w"
  note rs = rounded_size [OF sz]
  obtain e h where w0: "w0 = w\<lparr>errno := e, host := h\<rparr>" using ipm_alloc_frame [OF alloc(1)] by blast
  obtain fs where q': "quiet (w\<lparr>faults := fs\<rparr>)" and run: "ipm_memory_create ctx sz bname acc w =
      Ret (IPM_RESULT_SUCCESS, Some ?mem, (created bname 1 ?sz acc (with_list bname w0))\<lparr>faults := fs\<rparr>)"
    using memory_create_run [OF assms] by blast
  define w' where "w' = (created bname 1 ?sz acc (with_list bname w0))\<lparr>faults := fs\<rparr>"
  have k0: "kernel_ok w0" using ker by (simp add: w0 kernel_ok_def)
  have kv: "kernel_ok (with_list bname w0)" using kernel_ok_with_list [OF k0, where bname = bname] by (simp add: kernel_ok_def)
  have o: "objs w' ?ic = (new_obj bname 2 4096)\<lparr>obj_list := fresh_list\<rparr>" "objs w' ?ir = new_obj bname 1 ?sz"
    using with_list_facts(5) [of bname w0] by (simp_all add: w'_def created_def with_list_facts(1) w0)
  have hd: "obj_header (new_obj bname bid n) = new_header bname bid n zero_header" for bid n
    by (simp add: new_obj_def resize_obj_def empty_obj_def)
  have mem0: "new_memory ctx this bname ?sz acc w0 = ?mem" by (simp add: w0 new_memory_def)
  have hc: "handle_ok w' ?ic (active_claims ?mem)"
    unfolding w'_def mem0 [symmetric]
    by (rule handle_ok_created [OF kv, of ?ic]) (use with_list_handle [of bname w0 ctx this ?sz acc] in \<open>simp add: w0\<close>)
  have hr: "handle_ok w' ?ir (real_memory ?mem)"
    by (simp add: handle_ok_def w'_def created_def with_list_facts new_memory_def new_block_def w0)
  have "mem_ok w' ?ir ?ic ?mem"
    using hr hc by (simp add: mem_ok_def o fresh_list_ready new_obj_list) (simp add: new_memory_def new_block_def new_obj_def resize_obj_def)
  moreover have "kernel_ok w'" unfolding w'_def by (rule kernel_ok_created [OF kv])
  moreover have "quiet w'" using q' by (simp add: w'_def quiet_def)
  moreover have "block_obj bname 2 (objs w' ?ic)" "block_obj bname 1 (objs w' ?ir)"
    using block_obj_new [OF nm(1), of 4096 2] block_obj_new [OF nm(1) rs(1), of 1] by (simp_all add: o block_obj_def word_less_nat_alt)
  moreover have "names w' = (names w)(make_block_name_based_on_id name_buffer_size bname 2 \<mapsto> ?ic,
                         make_block_name_based_on_id name_buffer_size bname 1 \<mapsto> ?ir)"
    by (simp add: w'_def created_def with_list_facts w0)
  moreover have "fds w = (fds w')(mem_fd (active_claims ?mem) := None, mem_fd (real_memory ?mem) := None)"
    using kernel_ok_fresh(2) [OF ker]
    by (simp add: w'_def new_memory_def new_block_def created_def with_list_def set_list_def w0 fun_eq_iff)
  moreover have "maps w a = (if Addr a \<in> {header (real_memory ?mem), memory (real_memory ?mem),
      header (active_claims ?mem), memory (active_claims ?mem)} then None else maps w' a)" for a
    using kernel_ok_fresh(1) [OF ker]
    by (simp add: w'_def new_memory_def new_block_def created_def with_list_def set_list_def w0)
  moreover have "strays w' = strays w" "host w' = host w0" "errno w' = errno w0" "self w' = self w" "ndebug w' = ndebug w"
    "others w' = others w"
    by (simp_all add: w'_def created_def with_list_def set_list_def w0)
  ultimately show ?thesis
    using run [folded w'_def]
    by (intro exI [of _ ?mem] exI [of _ w']) (simp add: o hd new_header_def; simp add: new_memory_def new_block_def)
qed

section \<open>Claims through a handle\<close>

lemma memory_claim_ok:
  assumes ok: "mem_ok w ir ic mem" and rdy: "ready (obj_list (objs w ic))"
    and chk: "valid_access acc" "0 < cnt"
      "\<not> (access_mode (real_memory mem) = IPM_ACCESS_MODE_READ_ONLY \<and> acc = IPM_ACCESS_MODE_READ_WRITE)"
      "off + cnt \<le> mapped_size (real_memory mem)"
    and g: "grantable (region_claim acc off cnt (access_id (real_memory mem)) (obj_list (objs w ic))) (obj_list (objs w ic))"
  obtains l where "ipm_memory_claim_region mem acc off cnt w =
      Ret (IPM_RESULT_SUCCESS, Some (claim_counter (obj_list (objs w ic))), set_list ic l w)"
    "ready l" "active l = added (region_claim acc off cnt (access_id (real_memory mem)) (obj_list (objs w ic))) (obj_list (objs w ic))"
    "claim_counter l = claim_counter (obj_list (objs w ic)) + 1" "capacity l = capacity (obj_list (objs w ic))"
    "mem_ok (set_list ic l w) ir ic mem"
proof -
  let ?L = "obj_list (objs w ic)"
  obtain l where l: "claim_region_list (mem_ctx mem) acc off cnt (access_id (real_memory mem)) ?L w =
      Ret (IPM_RESULT_SUCCESS, Some (claim_counter ?L), l, w)" "ready l"
    "active l = added (region_claim acc off cnt (access_id (real_memory mem)) ?L) ?L"
    "claim_counter l = claim_counter ?L + 1" "capacity l = capacity ?L" "length (claims l) = length (claims ?L)"
    using claim_region_list_immediate [OF rdy g, of "mem_ctx mem" w] by blast
  note at = mem_ok_list [OF ok]
  have on: "on_list (memory (active_claims mem)) (\<lambda>l w.
      bind_outcome (claim_region_list (mem_ctx mem) acc off cnt (access_id (real_memory mem)) l w)
        (\<lambda>(res, cid, l, w). Ret ((res, cid), l, w))) w =
      Ret ((IPM_RESULT_SUCCESS, Some (claim_counter ?L)), set_list ic l w)"
    by (rule on_list_Ret [OF at(1) _ at(1)]) (simp add: l(1))
  have lt: "\<not> mapped_size (real_memory mem) < off + cnt" using chk(4) by simp
  have "ipm_memory_claim_region mem acc off cnt w =
      Ret (IPM_RESULT_SUCCESS, Some (claim_counter ?L), set_list ic l w)"
    using chk(1-3) lt at(2) on by (simp add: ipm_memory_claim_region_def)
  moreover have "length (claims ?L) = 99" using ok by (simp add: mem_ok_def)
  ultimately show thesis using that l mem_ok_set_list [OF ok, of l] by simp
qed

lemma memory_release_ok:
  assumes ok: "mem_ok w ir ic mem" and rdy: "ready (obj_list (objs w ic))"
    and room: "ndebug w \<or> count (obj_list (objs w ic)) < capacity (obj_list (objs w ic))"
    and found: "cid \<in> claim_id ` set (active (obj_list (objs w ic)))"
  obtains l where "ipm_memory_release_region mem cid w = Ret (IPM_RESULT_SUCCESS, set_list ic l w)"
    "ready l" "active l = removed cid (active (obj_list (objs w ic)))"
    "claim_counter l = claim_counter (obj_list (objs w ic))" "capacity l = capacity (obj_list (objs w ic))"
    "mem_ok (set_list ic l w) ir ic mem"
proof -
  let ?L = "obj_list (objs w ic)"
  obtain l where l: "release_region_list (mem_ctx mem) cid ?L w = Ret (IPM_RESULT_SUCCESS, l, w)" "ready l"
    "active l = removed cid (active ?L)" "claim_counter l = claim_counter ?L" "capacity l = capacity ?L"
    "length (claims l) = length (claims ?L)"
    using release_region_list_found [OF rdy room found, of "mem_ctx mem"] by blast
  note at = mem_ok_list [OF ok]
  have "ipm_memory_release_region mem cid w = Ret (IPM_RESULT_SUCCESS, set_list ic l w)"
    unfolding ipm_memory_release_region_def using at(2)
    by (simp, intro on_list_Ret [OF at(1) _ at(1)]) (simp add: l(1))
  moreover have "length (claims ?L) = 99" using ok by (simp add: mem_ok_def)
  ultimately show thesis using that l mem_ok_set_list [OF ok, of l] by simp
qed

lemma memory_release_all_ok:
  assumes ok: "mem_ok w ir ic mem" and rdy: "ready (obj_list (objs w ic))"
    and room: "ndebug w \<or> count (obj_list (objs w ic)) < capacity (obj_list (objs w ic))"
    and ids: "ids_by_proc (active (obj_list (objs w ic)))"
  obtains l where "ipm_memory_release_all mem w = Ret (IPM_RESULT_SUCCESS, set_list ic l w)" "ready l"
    "\<forall>c \<in> set (active l). proc_id c \<noteq> access_id (real_memory mem)"
    "set (active l) \<subseteq> set (active (obj_list (objs w ic)))"
    "mem_ok (set_list ic l w) ir ic mem"
proof -
  let ?L = "obj_list (objs w ic)"
  have len: "length (claims ?L) = 99" using ok by (simp add: mem_ok_def)
  then have small: "length (claims ?L) < 2 ^ 31" by simp
  obtain l where l: "release_all_list (mem_ctx mem) (access_id (real_memory mem)) ?L w =
      Ret (IPM_RESULT_SUCCESS, l, w)" "ready l"
    "\<forall>c \<in> set (active l). proc_id c \<noteq> access_id (real_memory mem)" "set (active l) \<subseteq> set (active ?L)"
    "length (claims l) = length (claims ?L)"
    using release_all_list_Ret [OF rdy room small ids, of "mem_ctx mem" "access_id (real_memory mem)"] by blast
  note at = mem_ok_list [OF ok]
  have "ipm_memory_release_all mem w = Ret (IPM_RESULT_SUCCESS, set_list ic l w)"
    unfolding ipm_memory_release_all_def by (rule on_list_Ret [OF at(1) _ at(1)]) (simp add: l(1))
  then show thesis using that l len mem_ok_set_list [OF ok, of l] by simp
qed

section \<open>Closing the last handle\<close>

lemma handle_ok_detached_other:
  assumes "handle_ok w i x" and "handle_ok w j b" and "i \<noteq> j"
  shows "handle_ok (detached j b w) i x"
  using assms by (auto simp: handle_ok_def detached_def split: ptr.splits)

lemma handle_ok_unlinked: "handle_ok (unlinked nb j g w) i x = handle_ok w i x"
  by (rule handle_ok_cong) (simp_all add: unlinked_def)

definition destroyed_list :: "ipm_claim_list \<Rightarrow> ipm_claim_list" where
  "destroyed_list l =
     l\<lparr>list_mutex := snd (pthread_mutex_destroy (list_mutex l)), list_cnd := snd (pthread_cond_destroy (list_cnd l))\<rparr>"

lemma claim_list_uninit_eq: "claim_list_uninit l w = destroyed_list l"
  by (simp add: claim_list_uninit_def destroyed_list_def snd_mutex_calls ipm_condition_destroy_def split: prod.split)

lemma dtor_edits_list:
  "list_at p v = Some i \<Longrightarrow>
   claim_list_dtor_wrapper p v = Ret (v\<lparr>objs := (objs v)(i := obj_list_update destroyed_list (objs v i))\<rparr>)"
  by (cases "objs v i") (simp add: claim_list_dtor_wrapper_def uninit_list_def read_write_list claim_list_uninit_eq set_list_def)

text \<open>Closing, from the world in which the claims of the handle are released.\<close>

lemma memory_close_shared:
  assumes ok: "mem_ok (set_list ic l w) ir ic mem"
    and rel: "ipm_memory_release_all mem w = Ret (r, set_list ic l w)"
    and objc: "block_obj bname 2 (objs w ic)" "refcount (obj_header (objs w ic)) \<noteq> 1"
      "block_size (obj_header (objs w ic)) = claim_size"
    and objr: "block_obj bname 1 (objs w ir)" "refcount (obj_header (objs w ir)) \<noteq> 1"
      "block_size (obj_header (objs w ir)) = mapped_size (real_memory mem)"
  shows "ipm_memory_close mem w = Ret (free_handle (mem_ctx mem) (mem_at mem)
    (detached ir (real_memory mem) (detached ic (active_claims mem) (set_list ic l w))))"
proof -
  let ?acl = "active_claims mem" and ?real = "real_memory mem" and ?w1 = "set_list ic l w"
  have h: "handle_ok ?w1 ic ?acl" "handle_ok ?w1 ir ?real" "mapped_size ?acl = claim_size" and ne: "ir \<noteq> ic"
    using ok by (simp_all add: mem_ok_def)
  have o: "obj_header (objs ?w1 ic) = obj_header (objs w ic)" "obj_len (objs ?w1 ic) = obj_len (objs w ic)"
    "objs (detached ic ?acl ?w1) ir = objs w ir"
    using ne by (simp_all add: set_list_def detached_def)
  have "block_obj bname 2 (objs ?w1 ic)" using objc(1) by (simp add: block_obj_def o)
  then have "shared_memory_block_close (mem_ctx mem) ?acl (Some (claim_list_dtor_wrapper (memory ?acl))) ?w1 =
      Ret (IPM_RESULT_SUCCESS, poisoned, detached ic ?acl ?w1)"
    using objc h by (intro block_close_shared) (simp_all add: o)
  moreover have "shared_memory_block_close (mem_ctx mem) ?real None (detached ic ?acl ?w1) =
      Ret (IPM_RESULT_SUCCESS, poisoned, detached ir ?real (detached ic ?acl ?w1))"
    using objr by (intro block_close_shared [OF handle_ok_detached_other [OF h(2,1) ne]]) (simp_all add: o)
  ultimately show ?thesis using rel by (simp add: ipm_memory_close_def)
qed

lemma memory_close_last_run:
  assumes ok: "mem_ok (set_list ic l w) ir ic mem"
    and rel: "ipm_memory_release_all mem w = Ret (r, set_list ic l w)"
    and nm: "good_name bname" and q: "quiet w"
    and objc: "block_obj bname 2 (objs w ic)" "refcount (obj_header (objs w ic)) = 1"
      "block_size (obj_header (objs w ic)) = claim_size"
    and objr: "block_obj bname 1 (objs w ir)" "refcount (obj_header (objs w ir)) = 1"
      "block_size (obj_header (objs w ir)) = mapped_size (real_memory mem)"
    and nb: "names w (make_block_name_based_on_id name_buffer_size bname 2) = Some ic"
      "names w (make_block_name_based_on_id name_buffer_size bname 1) = Some ir"
  shows "ipm_memory_close mem w = Ret (free_handle (mem_ctx mem) (mem_at mem)
    (unlinked (make_block_name_based_on_id name_buffer_size bname 1) ir (\<lambda>l. l) (detached ir (real_memory mem)
      (unlinked (make_block_name_based_on_id name_buffer_size bname 2) ic destroyed_list
        (detached ic (active_claims mem) (set_list ic l w))))))"
proof -
  let ?nb = "make_block_name_based_on_id name_buffer_size bname"
  let ?acl = "active_claims mem" and ?real = "real_memory mem"
  define w1 where "w1 = set_list ic l w"
  have f1: "names w1 = names w" "faults w1 = faults w" by (simp_all add: w1_def set_list_def)
  have ne: "ir \<noteq> ic" and hc: "handle_ok w1 ic ?acl" and hr: "handle_ok w1 ir ?real" and mc: "mapped_size ?acl = claim_size"
    using ok by (simp_all add: mem_ok_def w1_def)
  have o1: "obj_header (objs w1 ic) = obj_header (objs w ic)" "obj_len (objs w1 ic) = obj_len (objs w ic)"
    "objs w1 ir = objs w ir"
    using ne by (simp_all add: w1_def set_list_def)
  have q1: "quiet w1" using q f1 by (simp add: quiet_def)
  have bc: "block_obj bname 2 (objs w1 ic)" using objc(1) by (simp add: block_obj_def o1)
  have lc: "list_at (memory ?acl) w1 = Some ic" using mem_ok_list [OF ok] by (simp add: w1_def)
  define w2 where "w2 = unlinked (?nb 2) ic destroyed_list (detached ic ?acl w1)"
  have c1: "shared_memory_block_close (mem_ctx mem) ?acl (Some (claim_list_dtor_wrapper (memory ?acl))) w1 =
      Ret (IPM_RESULT_SUCCESS, poisoned, w2)"
    unfolding w2_def
    by (rule block_close_last [OF hc bc nm _ _ q1]) (simp_all add: mc objc o1 f1 nb lc dtor_edits_list)
  have "handle_ok w2 ir ?real"
    unfolding w2_def handle_ok_unlinked by (rule handle_ok_detached_other [OF hr hc ne])
  moreover have "objs w2 ir = objs w ir" using ne o1 by (simp add: w2_def unlinked_def detached_def)
  moreover have "faults w2 = tl (faults w)" by (simp add: w2_def unlinked_def detached_def f1)
  then have "quiet w2" using quiet_tl [OF q] by (simp add: quiet_def)
  moreover have "?nb 1 \<noteq> ?nb 2" using block_name_inj [of bname bname 1 2] nm by (auto simp: good_name_def)
  then have "names w2 (?nb 1) = Some ir" using nb by (simp add: w2_def unlinked_def detached_def f1)
  ultimately have c2: "shared_memory_block_close (mem_ctx mem) ?real None w2 =
      Ret (IPM_RESULT_SUCCESS, poisoned, unlinked (?nb 1) ir (\<lambda>l. l) (detached ir ?real w2))"
    using objr nm by (intro block_close_last) (simp_all add: no_list_edit)
  then show ?thesis using rel c1 by (simp add: ipm_memory_close_def w1_def w2_def)
qed

lemma memory_close_last:
  assumes ok: "mem_ok w ir ic mem" and rdy: "ready (obj_list (objs w ic))"
    and room: "ndebug w \<or> count (obj_list (objs w ic)) < capacity (obj_list (objs w ic))"
    and ids: "ids_by_proc (active (obj_list (objs w ic)))"
    and nm: "good_name bname" and q: "quiet w"
    and objc: "block_obj bname 2 (objs w ic)" "refcount (obj_header (objs w ic)) = 1"
      "block_size (obj_header (objs w ic)) = claim_size"
    and objr: "block_obj bname 1 (objs w ir)" "refcount (obj_header (objs w ir)) = 1"
      "block_size (obj_header (objs w ir)) = mapped_size (real_memory mem)"
    and nb: "names w (make_block_name_based_on_id name_buffer_size bname 2) = Some ic"
      "names w (make_block_name_based_on_id name_buffer_size bname 1) = Some ir"
  shows "\<exists>w'. ipm_memory_close mem w = Ret (free_handle (mem_ctx mem) (mem_at mem) w') \<and>
    names w' = (names w)(make_block_name_based_on_id name_buffer_size bname 2 := None,
                         make_block_name_based_on_id name_buffer_size bname 1 := None) \<and>
    fds w' = (fds w)(mem_fd (active_claims mem) := None, mem_fd (real_memory mem) := None) \<and>
    (\<forall>a. maps w' a = (if Addr a \<in> {header (real_memory mem), memory (real_memory mem),
                                   header (active_claims mem), memory (active_claims mem)}
                      then None else maps w a)) \<and>
    strays w' = strays w \<and> quiet w' \<and> host w' = host w \<and> errno w' = errno w"
proof -
  let ?nb = "make_block_name_based_on_id name_buffer_size bname"
  let ?acl = "active_claims mem" and ?real = "real_memory mem"
  obtain l where rel: "ipm_memory_release_all mem w = Ret (IPM_RESULT_SUCCESS, set_list ic l w)"
    and ok1: "mem_ok (set_list ic l w) ir ic mem"
    using memory_release_all_ok [OF ok rdy room ids] by metis
  define w1 where "w1 = set_list ic l w"
  let ?w3 = "unlinked (?nb 1) ir (\<lambda>l. l) (detached ir ?real (unlinked (?nb 2) ic destroyed_list (detached ic ?acl w1)))"
  have run: "ipm_memory_close mem w = Ret (free_handle (mem_ctx mem) (mem_at mem) ?w3)"
    unfolding w1_def by (rule memory_close_last_run [OF ok1 rel nm q objc objr nb])
  have f1: "names w1 = names w" "fds w1 = fds w" "maps w1 = maps w" "faults w1 = faults w" "strays w1 = strays w"
    "host w1 = host w" "errno w1 = errno w"
    by (simp_all add: w1_def set_list_def)
  have h: "handle_ok w1 ic ?acl" "handle_ok w1 ir ?real" using ok1 by (simp_all add: mem_ok_def w1_def)
  have "names ?w3 = (names w)(?nb 2 := None, ?nb 1 := None)" by (simp add: unlinked_def detached_def f1)
  moreover have "fds ?w3 = (fds w)(mem_fd ?acl := None, mem_fd ?real := None)"
    by (simp add: unlinked_def detached_def f1)
  moreover have "maps ?w3 a = (if Addr a \<in> {header ?real, memory ?real, header ?acl, memory ?acl} then None else maps w a)" for a
    using h by (auto simp: unlinked_def detached_def f1 elim!: handle_okE)
  moreover have "quiet ?w3" using q by (auto simp: unlinked_def detached_def quiet_def f1 dest: subsetD [OF set_tl_subset])
  moreover have "strays ?w3 = strays w" "host ?w3 = host w" "errno ?w3 = errno w"
    by (simp_all add: unlinked_def detached_def f1)
  ultimately show ?thesis using run by blast
qed

section \<open>Examples\<close>

lemma test_alloc:
  assumes "0 < malloc_budget (host w)"
  shows "ipm_alloc test_ctx sz l f w = (Addr (next_block (host w)),
    w\<lparr>host := (host w)\<lparr>live_blocks := insert (next_block (host w)) (live_blocks (host w)),
      next_block := Suc (next_block (host w)), malloc_budget := malloc_budget (host w) - 1\<rparr>\<rparr>)"
  using assms
  by (cases w) (simp add: ipm_alloc_def ipm_alloc_real_def test_ctx_def allocate_callback_def)

lemma cool_block_no_slash [simp]: "CHR ''/'' \<notin> set cool_block"
  by (simp add: cool_block_def)

lemma sample_world_alloc:
  "\<exists>w0. ipm_alloc test_ctx sz l f sample_world = (Addr 0, w0)"
  using test_alloc [of sample_world sz l f] by (simp add: sample_world_def)

section \<open>Properties\<close>

text \<open>
  C34. Rounding a size to pages: for every size up to the last page boundary below $2^{64}$ the result is the least
  multiple of the page size that is not smaller; for the sizes above it the computation wraps to zero.
\<close>
theorem round_size_spec:
  "if unat sz \<le> 2 ^ 64 - 4096
   then unat (round_size sz) mod 4096 = 0 \<and> unat sz \<le> unat (round_size sz) \<and>
        unat (round_size sz) < unat sz + 4096
   else round_size sz = 0"
proof (cases "unat sz \<le> 2 ^ 64 - 4096")
  case True
  then have "unat (round_size sz) = page_ceil (unat sz)" by (intro round_size_exact) simp
  then show ?thesis using True page_ceil_ge [of "unat sz"] by (simp add: page_ceil_def)
next
  case False
  then have "round_size sz = 0" by (intro round_size_wraps) simp
  then show ?thesis using False by simp
qed

text \<open>
  Creating a memory, when no system call fails and the handle can be allocated: both blocks exist under their
  names with one reference each, the memory has at least the requested size, and the claim list is
  empty, has room for 99 claims and is ready for use.
\<close>
lemma memory_create_complete:
  assumes "kernel_ok w" and "quiet w" and "good_name bname" and "CHR ''/'' \<notin> set bname"
    and "valid_access acc" and "0 < sz" and "unat sz < 2 ^ 62"
    and "\<forall>bid \<in> {1, 2}. names w (make_block_name_based_on_id name_buffer_size bname bid) = None"
    and "ipm_alloc ctx sizeof_ipm_memory 31 ''ipm_memory_create'' w = (this, w0)" and "this \<noteq> NULL"
  shows "\<exists>mem w' ir ic. ipm_memory_create ctx sz bname acc w = Ret (IPM_RESULT_SUCCESS, Some mem, w') \<and>
    names w' (make_block_name_based_on_id name_buffer_size bname 1) = Some ir \<and>
    names w' (make_block_name_based_on_id name_buffer_size bname 2) = Some ic \<and>
    handle_ok w' ir (real_memory mem) \<and> handle_ok w' ic (active_claims mem) \<and>
    block_obj bname 1 (objs w' ir) \<and> block_obj bname 2 (objs w' ic) \<and>
    ipm_memory_ref_count mem w' = Ret 1 \<and> access_mode (real_memory mem) = acc \<and>
    unat sz \<le> unat (mapped_size (real_memory mem)) \<and>
    ready (obj_list (objs w' ic)) \<and> active (obj_list (objs w' ic)) = [] \<and> capacity (obj_list (objs w' ic)) = 99"
proof -
  let ?nb = "make_block_name_based_on_id name_buffer_size bname"
  obtain mem w' where m: "ipm_memory_create ctx sz bname acc w = Ret (IPM_RESULT_SUCCESS, Some mem, w')"
    "mem_ok w' (Suc (next_obj w)) (next_obj w) mem" "obj_list (objs w' (next_obj w)) = fresh_list"
    "block_obj bname 2 (objs w' (next_obj w))" "block_obj bname 1 (objs w' (Suc (next_obj w)))"
    "refcount (obj_header (objs w' (Suc (next_obj w)))) = 1"
    "names w' = (names w)(?nb 2 \<mapsto> next_obj w, ?nb 1 \<mapsto> Suc (next_obj w))"
    "mapped_size (real_memory mem) = round_size sz" "access_mode (real_memory mem) = acc"
    using memory_create_ok [OF assms] by blast
  have h: "handle_ok w' (Suc (next_obj w)) (real_memory mem)" "handle_ok w' (next_obj w) (active_claims mem)"
    "4096 \<le> obj_len (objs w' (Suc (next_obj w)))"
    using m(2) by (simp_all add: mem_ok_def)
  have "header_at (header (real_memory mem)) w' = Some (Suc (next_obj w))" by (rule handle_header [OF h(1,3)])
  then have "ipm_memory_ref_count mem w' = Ret 1" by (simp add: ipm_memory_ref_count_def read_header_def m(6))
  moreover have "unat (round_size sz) = page_ceil (unat sz)" using assms(7) by (intro round_size_exact) simp
  moreover have "?nb 1 \<noteq> ?nb 2" using block_name_inj [of bname bname 1 2] assms(3) by (auto simp: good_name_def)
  ultimately show ?thesis
    using m h page_ceil_ge [of "unat sz"] fresh_list_ready
    by (intro exI [of _ mem] exI [of _ w'] exI [of _ "Suc (next_obj w)"] exI [of _ "next_obj w"])
      (simp add: fresh_list_def)
qed

text \<open>
  C13. Creating and closing leaves nothing behind: with callbacks that keep their contract, after a memory was
  created and its only handle closed again, the names, the descriptors, the mappings and the blocks in use of
  the allocator are what they were before.
\<close>
theorem create_close_leaves_nothing:
  assumes "callback_contract ctx live ok" and "ok (host w)"
    and "kernel_ok w" and "quiet w" and "good_name bname" and "CHR ''/'' \<notin> set bname"
    and "valid_access acc" and "0 < sz" and "unat sz < 2 ^ 62"
    and "\<forall>bid \<in> {1, 2}. names w (make_block_name_based_on_id name_buffer_size bname bid) = None"
    and "ipm_alloc ctx sizeof_ipm_memory 31 ''ipm_memory_create'' w = (this, w0)" and "this \<noteq> NULL"
  shows "\<exists>mem w1 w2. ipm_memory_create ctx sz bname acc w = Ret (IPM_RESULT_SUCCESS, Some mem, w1) \<and>
    ipm_memory_close mem w1 = Ret w2 \<and> same_resources w w2 \<and> ok (host w2) \<and> live (host w2) = live (host w)"
proof -
  let ?nb = "make_block_name_based_on_id name_buffer_size bname"
  let ?ic = "next_obj w" and ?ir = "Suc (next_obj w)"
  obtain mem w' where m: "ipm_memory_create ctx sz bname acc w = Ret (IPM_RESULT_SUCCESS, Some mem, w')"
    "mem_ok w' ?ir ?ic mem" "quiet w'" "obj_list (objs w' ?ic) = fresh_list"
    "block_obj bname 2 (objs w' ?ic)" "block_obj bname 1 (objs w' ?ir)"
    "refcount (obj_header (objs w' ?ic)) = 1" "refcount (obj_header (objs w' ?ir)) = 1"
    "block_size (obj_header (objs w' ?ic)) = claim_size" "block_size (obj_header (objs w' ?ir)) = round_size sz"
    "names w' = (names w)(?nb 2 \<mapsto> ?ic, ?nb 1 \<mapsto> ?ir)" "mapped_size (real_memory mem) = round_size sz"
    "mem_ctx mem = ctx" "mem_at mem = this"
    "fds w = (fds w')(mem_fd (active_claims mem) := None, mem_fd (real_memory mem) := None)"
    "\<forall>a. maps w a = (if Addr a \<in> {header (real_memory mem), memory (real_memory mem),
                                  header (active_claims mem), memory (active_claims mem)}
                     then None else maps w' a)" "strays w' = strays w" "host w' = host w0"
    using memory_create_ok [OF assms(3-12)] by blast
  have ne: "?nb 1 \<noteq> ?nb 2" using block_name_inj [of bname bname 1 2] assms(5) by (auto simp: good_name_def)
  have "ids_by_proc (active fresh_list)" "ready fresh_list" "count fresh_list < capacity fresh_list"
    using fresh_list_ready by (simp_all add: ids_by_proc_def fresh_list_def word_less_nat_alt)
  then obtain w2 where c: "ipm_memory_close mem w' = Ret (free_handle ctx this w2)"
    "names w2 = (names w')(?nb 2 := None, ?nb 1 := None)"
    "fds w2 = (fds w')(mem_fd (active_claims mem) := None, mem_fd (real_memory mem) := None)"
    "\<forall>a. maps w2 a = (if Addr a \<in> {header (real_memory mem), memory (real_memory mem),
                                   header (active_claims mem), memory (active_claims mem)}
                      then None else maps w' a)" "strays w2 = strays w'" "host w2 = host w'"
    using memory_close_last [OF m(2) _ _ _ assms(5) m(3,5,7) _ m(6,8)] ne m by auto
  have "names w2 = names w"
    unfolding c(2) m(11) using assms(10) ne by (auto simp: fun_eq_iff)
  moreover have "maps w2 = maps w" using c(4) m(16) by (auto simp: fun_eq_iff)
  ultimately have same: "same_resources w (free_handle ctx this w2)"
    using c(3,5) m(15,17) by (simp add: same_resources_def)
  obtain e h where w0: "ipm_alloc_real ctx sizeof_ipm_memory ''ipm_memory.c'' 31 ''ipm_memory_create'' (errno w, host w) =
      (this, e, h)" "host w0 = h"
    using assms(11) by (auto simp: ipm_alloc_def split: prod.splits)
  then obtain n where n: "this = Addr n" "n \<notin> live (host w)" "live h = insert n (live (host w))" "ok h"
    using callback_contract.alloc_real_law [OF assms(1,2) w0(1)] assms(12) by blast
  obtain e' h' where f: "ipm_free ctx this (errno w2, host w2) = (e', h')" by (metis surj_pair)
  have "ok h' \<and> live h' = live (host w2) - {n}"
    using callback_contract.free_live [OF assms(1), of "host w2" n "errno w2" e' h'] f n c(6) m(18) w0(2) by simp
  then have "ok h' \<and> live h' = live (host w)" using n c(6) m(18) w0(2) by simp
  moreover have "host (free_handle ctx this w2) = h'" by (simp add: free_handle_def f)
  ultimately show ?thesis using m(1) c(1) same by blast
qed

theorem create_close_leaves_nothing_witness:
  "\<exists>mem w1 w2. ipm_memory_create test_ctx 69 cool_block IPM_ACCESS_MODE_READ_WRITE sample_world =
      Ret (IPM_RESULT_SUCCESS, Some mem, w1) \<and> ipm_memory_close mem w1 = Ret w2 \<and>
    same_resources sample_world w2 \<and> live_blocks (host w2) = {}"
proof -
  obtain w0 where a: "ipm_alloc test_ctx sizeof_ipm_memory 31 ''ipm_memory_create'' sample_world = (Addr 0, w0)"
    using sample_world_alloc by blast
  have p: "valid_access IPM_ACCESS_MODE_READ_WRITE" "0 < (69 :: size_t)" "unat (69 :: size_t) < 2 ^ 62"
    by (simp_all add: valid_access_def word_less_nat_alt)
  have h: "test_host_ok (host sample_world)" "live_blocks (host sample_world) = {}"
    by (simp_all add: test_host_ok_def sample_world_def)
  show ?thesis
    using create_close_leaves_nothing [OF test_callbacks.callback_contract_axioms h(1) sample_world_ok(1,2)
        cool_block_ok(1) cool_block_no_slash p _ a] h(2) by auto
qed

end
