(* ===== verification/Claim_Protocol.thy ===== *)
theory Claim_Protocol
  imports Claim_Region
begin

text \<open>
  The handles of one memory at work on the shared claim list: a step relation whose steps are the critical
  sections of the claim handlers, and what the claims that were handed out guarantee to each other. A
  process that has to wait is split at its sleep: it falls asleep in one step and is granted its claim in a later one.
\<close>

section \<open>The system\<close>

text \<open>
  \<open>lst\<close> is the shared list; \<open>granted\<close> are the claims whose holders were told that they have them, the latest
  first; \<open>asleep\<close> are the claims of the processes that wait on the condition variable.
\<close>

record system =
  lst :: ipm_claim_list
  granted :: "ipm_memory_claim list"
  asleep :: "ipm_memory_claim list"

datatype event =
    Claim ipm_id ipm_access_mode size_t size_t
  | Fall_asleep ipm_id ipm_access_mode size_t size_t
  | Wake ipm_memory_claim
  | Release ipm_memory_claim
  | Release_all ipm_id
  | Remove_all

text \<open>
  Each step is taken by some thread \<open>w\<close>. A claim that cannot be granted leaves the list as \<^verbatim>\<open>claim_wait\<close> does
  when it goes to sleep: with the next id taken and the mutex free.
\<close>

inductive step :: "'h ipm_context \<Rightarrow> system \<Rightarrow> event \<Rightarrow> system \<Rightarrow> bool" for ctx :: "'h ipm_context" where
  claim: "others w = [] \<Longrightarrow>
    claim_region_list ctx acc off cnt me (lst s) (w :: 'h client) = Ret (res, Some cid, l, w') \<Longrightarrow>
    step ctx s (Claim me acc off cnt)
      (s\<lparr>lst := l, granted := region_claim acc off cnt me (lst s) # granted s\<rparr>)"
| fall_asleep: "others w = [] \<Longrightarrow> ipm_mutex_lock (list_mutex (lst s)) w = Ret (IPM_RESULT_SUCCESS, m) \<Longrightarrow>
    claim_region_list ctx acc off cnt me (lst s) (w :: 'h client) = Blocked \<Longrightarrow>
    step ctx s (Fall_asleep me acc off cnt)
      (s\<lparr>lst := (lst s)\<lparr>claim_counter := claim_counter (lst s) + 1\<rparr>,
         asleep := region_claim acc off cnt me (lst s) # asleep s\<rparr>)"
| wake: "c \<in> set (asleep s) \<Longrightarrow> others w = [] \<Longrightarrow>
    ipm_mutex_lock (list_mutex (lst s)) w = Ret (IPM_RESULT_SUCCESS, m) \<Longrightarrow>
    claim_wait c ((lst s)\<lparr>list_mutex := m\<rparr>) (w :: 'h client) = Ret (IPM_RESULT_SUCCESS, True, l, w') \<Longrightarrow>
    claim_add_to_list c l w' = Ret (IPM_RESULT_SUCCESS, l') \<Longrightarrow>
    step ctx s (Wake c)
      (s\<lparr>lst := unlock_list l' w', granted := c # granted s, asleep := remove1 c (asleep s)\<rparr>)"
| release: "c \<in> set (granted s) \<Longrightarrow>
    release_region_list ctx (claim_id c) (lst s) (w :: 'h client) = Ret (IPM_RESULT_SUCCESS, l, w') \<Longrightarrow>
    step ctx s (Release c) (s\<lparr>lst := l, granted := remove1 c (granted s)\<rparr>)"
| release_all: "release_all_list ctx me (lst s) (w :: 'h client) = Ret (IPM_RESULT_SUCCESS, l, w') \<Longrightarrow>
    step ctx s (Release_all me) (s\<lparr>lst := l, granted := filter (\<lambda>c. proc_id c \<noteq> me) (granted s)\<rparr>)"
| remove_all: "remove_all_list ctx (lst s) (w :: 'h client) = Ret (IPM_RESULT_SUCCESS, l, w') \<Longrightarrow>
    step ctx s Remove_all (s\<lparr>lst := l, granted := []\<rparr>)"

inductive_cases step_ClaimE: "step ctx s (Claim me acc off cnt) s'"
inductive_cases step_SleepE: "step ctx s (Fall_asleep me acc off cnt) s'"
inductive_cases step_WakeE: "step ctx s (Wake c) s'"
inductive_cases step_ReleaseE: "step ctx s (Release c) s'"
inductive_cases step_Release_allE: "step ctx s (Release_all me) s'"
inductive_cases step_Remove_allE: "step ctx s Remove_all s'"

text \<open>Runs that start with an empty list, under a discipline \<open>D\<close> that their steps keep.\<close>

inductive run ::
  "'h ipm_context \<Rightarrow> (system \<Rightarrow> event \<Rightarrow> bool) \<Rightarrow> ipm_claim_list \<Rightarrow> nat \<Rightarrow> system \<Rightarrow> bool"
  for ctx :: "'h ipm_context" and D :: "system \<Rightarrow> event \<Rightarrow> bool" and l0 :: ipm_claim_list where
  start: "run ctx D l0 0 \<lparr>lst = l0, granted = [], asleep = []\<rparr>"
| more: "run ctx D l0 n s \<Longrightarrow> D s ev \<Longrightarrow> step ctx s ev s' \<Longrightarrow> run ctx D l0 (Suc n) s'"

section \<open>Disciplines\<close>

text \<open>
  The orderly use that the claim list supports: a region does not wrap, a new claim does not lie before a claim
  that is held, claims are released in the reverse order of being granted, and nothing is released while
  the list is full.
\<close>

definition appends :: "system \<Rightarrow> size_t \<Rightarrow> bool" where
  "appends s off \<longleftrightarrow> (\<forall>c \<in> set (granted s). offset c \<le> off)"

definition not_full :: "system \<Rightarrow> bool" where
  "not_full s \<longleftrightarrow> count (lst s) < capacity (lst s)"

fun orderly :: "system \<Rightarrow> event \<Rightarrow> bool" where
  "orderly s (Claim me acc off cnt) \<longleftrightarrow> appends s off \<and> unat off + unat cnt < 2 ^ 64"
| "orderly s (Fall_asleep me acc off cnt) \<longleftrightarrow> unat off + unat cnt < 2 ^ 64"
| "orderly s (Wake c) \<longleftrightarrow> appends s (offset c)"
| "orderly s (Release c) \<longleftrightarrow> not_full s \<and> granted s \<noteq> [] \<and> c = hd (granted s)"
| "orderly s (Release_all me) \<longleftrightarrow>
     not_full s \<and> filter (\<lambda>c. proc_id c \<noteq> me) (granted s) = dropWhile (\<lambda>c. proc_id c = me) (granted s)"
| "orderly s Remove_all \<longleftrightarrow> not_full s"

text \<open>Writers only, each handle with at most one claim at a time.\<close>

fun writers_only :: "system \<Rightarrow> event \<Rightarrow> bool" where
  "writers_only s (Claim me acc off cnt) \<longleftrightarrow>
     acc = IPM_ACCESS_MODE_READ_WRITE \<and> unat off + unat cnt < 2 ^ 64 \<and> me \<notin> proc_id ` set (granted s @ asleep s)"
| "writers_only s (Fall_asleep me acc off cnt) \<longleftrightarrow>
     acc = IPM_ACCESS_MODE_READ_WRITE \<and> unat off + unat cnt < 2 ^ 64 \<and> me \<notin> proc_id ` set (granted s @ asleep s)"
| "writers_only s ev \<longleftrightarrow> True"

fun any_use :: "system \<Rightarrow> event \<Rightarrow> bool" where
  "any_use s ev \<longleftrightarrow> True"

section \<open>The invariant\<close>

definition compatible :: "ipm_memory_claim list \<Rightarrow> bool" where
  "compatible cs \<longleftrightarrow> (\<forall>x \<in> set cs. \<forall>y \<in> set cs. \<not> claims_conflict x y)"

definition same_shape :: "ipm_claim_list \<Rightarrow> ipm_claim_list \<Rightarrow> bool" where
  "same_shape l l' \<longleftrightarrow> capacity l' = capacity l \<and> length (claims l') = length (claims l)"

definition system_ok :: "ipm_claim_list \<Rightarrow> nat \<Rightarrow> system \<Rightarrow> bool" where
  "system_ok l0 n s \<longleftrightarrow>
     ready (lst s) \<and> same_shape l0 (lst s) \<and> active (lst s) = rev (granted s) \<and>
     compatible (granted s) \<and> (\<forall>c \<in> set (granted s @ asleep s). no_wrap c) \<and>
     distinct (map claim_id (granted s @ asleep s)) \<and>
     (\<forall>c \<in> set (granted s @ asleep s). claim_id c < claim_counter (lst s)) \<and>
     unat (claim_counter (lst s)) \<le> n"

text \<open>With writers only: at most one claim is handed out, and every handle has at most one.\<close>

definition writers_ok :: "system \<Rightarrow> bool" where
  "writers_ok s \<longleftrightarrow> length (granted s) \<le> 1 \<and> distinct (map proc_id (granted s @ asleep s)) \<and>
     (\<forall>c \<in> set (granted s @ asleep s). access c = IPM_ACCESS_MODE_READ_WRITE)"

text \<open>A list as \<^verbatim>\<open>claim_list_init\<close> leaves it.\<close>

definition starting_list :: "ipm_claim_list \<Rightarrow> bool" where
  "starting_list l \<longleftrightarrow> ready l \<and> active l = [] \<and> claim_counter l = 0 \<and> length (claims l) < 2 ^ 31"

section \<open>Sample data\<close>

text \<open>A list of four free slots for the examples.\<close>

definition empty_list :: ipm_claim_list where
  "empty_list =
     \<lparr>list_mutex = Mut shared_robust Unlocked, list_cnd = Cnd True 0, count = 0, capacity = 4,
      claim_counter = 0, claims = replicate 4 zero_claim\<rparr>"

text \<open>A writer at work and another one asleep behind it.\<close>

definition sample_write :: "ipm_id \<Rightarrow> ipm_id \<Rightarrow> ipm_memory_claim" where
  "sample_write cid me =
     \<lparr>claim_id = cid, proc_id = me, access = IPM_ACCESS_MODE_READ_WRITE, offset = 0, region_size = 16\<rparr>"

section \<open>Facts about the invariant\<close>

lemma system_okD:
  assumes "system_ok l0 n s"
  shows "ready (lst s)" "same_shape l0 (lst s)" "active (lst s) = rev (granted s)"
    "compatible (granted s)" "\<forall>c \<in> set (granted s @ asleep s). no_wrap c"
    "distinct (map claim_id (granted s @ asleep s))"
    "\<forall>c \<in> set (granted s @ asleep s). claim_id c < claim_counter (lst s)"
    "unat (claim_counter (lst s)) \<le> n"
  using assms by (simp_all add: system_ok_def)

lemma compatible_Cons:
  "compatible (c # cs) \<longleftrightarrow> (\<forall>x \<in> set cs. \<not> claims_conflict c x) \<and> compatible cs"
  by (auto simp: compatible_def claims_conflict_sym)

lemma compatible_mono: "set cs \<subseteq> set ds \<Longrightarrow> compatible ds \<Longrightarrow> compatible cs"
  unfolding compatible_def by blast

section \<open>The critical sections on an orderly list\<close>

text \<open>Without others a process is granted only what is grantable when it looks.\<close>

lemma claim_wait_alone:
  assumes "held w list" and "others w = []" and "claim_wait c list w = Ret (res, True, l, w')"
  shows "grantable c list \<and> l = list \<and> w' = w"
proof -
  have wf: "list_wf list" using assms(1) by (simp add: held_def)
  have "\<forall>f \<in> set (others w). polite f" using assms(2) by simp
  note wait = ipm_condition_wait_held [OF assms(1) this]
  show ?thesis
    using assms(3) wait assms(2)
    by (auto simp: claim_wait_step [OF wf] split: if_splits prod.splits)
qed

lemma claim_region_alone:
  assumes rdy: "ready list" and "others w = []"
    and res: "claim_region_list ctx acc off cnt me list w = Ret (res, Some cid, l, w')"
  shows "grantable (region_claim acc off cnt me list) list"
proof -
  let ?l0 = "list\<lparr>list_mutex := Mut shared_robust (Locked (self w)), claim_counter := claim_counter list + 1\<rparr>"
  let ?c = "region_claim acc off cnt me list"
  have held: "held w ?l0" using rdy by (simp add: held_def ready_def)
  have lock: "ipm_mutex_lock (list_mutex list) w =
      Ret (IPM_RESULT_SUCCESS, Mut shared_robust (Locked (self w)))"
    using rdy by (simp add: ready_def)
  obtain r g l1 w1 where cw: "claim_wait ?c ?l0 w = Ret (r, g, l1, w1)"
    using res by (auto simp: claim_region_list_def lock Let_def outcome_simps)
  then have g using res by (cases g) (auto simp: claim_region_list_def lock Let_def)
  then show ?thesis using claim_wait_alone [OF held assms(2)] cw by simp
qed

lemma release_from_skip:
  assumes "list_wf list" and "length (claims list) < 2 ^ 31"
    and "k \<le> unat (count list)" and "\<forall>c \<in> set (take k (active list)). proc_id c \<noteq> me"
  shows "release_from me list w 0 = release_from me list w k"
  using assms(3,4)
proof (induction k)
  case (Suc k)
  note d = list_wfD [OF assms(1)]
  have k: "k < unat (count list)" "k < length (claims list)" "k < length (active list)"
    "claims list ! k = active list ! k"
    using Suc.prems(1) d by (simp_all add: active_def)
  have t: "take (Suc k) (active list) = take k (active list) @ [active list ! k]"
    by (rule take_Suc_conv_app_nth [OF k(3)])
  then have "proc_id (claims list ! k) \<noteq> me" using Suc.prems(2) k(4) by simp
  then have "release_from me list w k = release_from me list w (Suc k)"
    using release_guard_iff [OF assms(1,2), of k] k by (subst release_from.simps) simp
  moreover have "\<forall>c \<in> set (take k (active list)). proc_id c \<noteq> me" using Suc.prems(2) t by simp
  ultimately show ?case using Suc.IH k(1) by simp
qed simp

text \<open>Releasing all of a handle when its claims are the last ones keeps exactly the others.\<close>

lemma release_all_suffix:
  assumes rdy: "ready list" and room: "count list < capacity list"
    and small: "length (claims list) < 2 ^ 31" and ids: "ids_by_proc (active list)"
    and PS: "active list = P @ S" "\<forall>c \<in> set P. proc_id c \<noteq> me" "\<forall>c \<in> set S. proc_id c = me"
  shows "\<exists>list'. release_all_list ctx me list w = Ret (IPM_RESULT_SUCCESS, list', w) \<and> ready list' \<and>
    active list' = P \<and> claim_counter list' = claim_counter list \<and> same_shape list list'"
proof -
  let ?l0 = "list\<lparr>list_mutex := Mut shared_robust (Locked (self w))\<rparr>"
  let ?k = "length P"
  have lock: "ipm_mutex_lock (list_mutex list) w =
      Ret (IPM_RESULT_SUCCESS, Mut shared_robust (Locked (self w)))"
    using rdy by (simp add: ready_def)
  have wf: "list_wf ?l0" using rdy by (simp add: ready_def)
  have k: "?k \<le> unat (count ?l0)" using list_wfD(5) [OF wf] PS(1) by simp
  have pre: "\<forall>c \<in> set (take ?k (active ?l0)). proc_id c \<noteq> me" using PS(1,2) by simp
  have "release_from me ?l0 w 0 = release_from me ?l0 w ?k"
    using small by (intro release_from_skip [OF wf _ k pre]) simp
  moreover obtain list' where l: "release_from me ?l0 w ?k = Ret list'" "list_wf list'"
    "take ?k (active list') = P" "set (drop ?k (active list')) \<subseteq> set S"
    "\<forall>c \<in> set (active list'). proc_id c \<noteq> me"
    "list_mutex list' = Mut shared_robust (Locked (self w))" "list_cnd list' = list_cnd list"
    "claim_counter list' = claim_counter list" "same_shape list list'"
    using release_from_Ret [OF wf _ _ _ k pre, of w] room small ids PS(1)
    by (auto simp: same_shape_def)
  moreover have "drop ?k (active list') = []"
  proof (rule ccontr)
    assume "drop ?k (active list') \<noteq> []"
    then obtain c where "c \<in> set (drop ?k (active list'))" by (cases "drop ?k (active list')") auto
    then show False using l(4,5) PS(3) by (meson in_set_dropD subsetD)
  qed
  then have "active list' = P" using l(3) by (metis append_Nil2 append_take_drop_id)
  ultimately show ?thesis using rdy
    by (simp add: release_all_list_def lock Let_def unlock_list_held ready_def same_shape_def)
qed

text \<open>The same, with the latest claims first, for a handle whose claims are the latest.\<close>

lemma release_all_latest:
  assumes rdy: "ready list" and room: "count list < capacity list" and small: "length (claims list) < 2 ^ 31"
    and ids: "ids_by_proc (active list)" and act: "rev (active list) = cs"
    and last: "filter (\<lambda>c. proc_id c \<noteq> me) cs = dropWhile (\<lambda>c. proc_id c = me) cs"
  shows "\<exists>list'. release_all_list ctx me list w = Ret (IPM_RESULT_SUCCESS, list', w) \<and> ready list' \<and>
    rev (active list') = filter (\<lambda>c. proc_id c \<noteq> me) cs \<and> list_cnd list' = list_cnd list \<and>
    claim_counter list' = claim_counter list \<and> same_shape list list'"
proof -
  let ?P = "rev (dropWhile (\<lambda>c. proc_id c = me) cs)" and ?S = "rev (takeWhile (\<lambda>c. proc_id c = me) cs)"
  have PS: "active list = ?P @ ?S" using act by (metis rev_append rev_rev_ident takeWhile_dropWhile_id)
  have P: "\<forall>c \<in> set ?P. proc_id c \<noteq> me" unfolding last [symmetric] by auto
  have S: "\<forall>c \<in> set ?S. proc_id c = me" by (auto dest: set_takeWhileD)
  obtain l where l: "release_all_list ctx me list w = Ret (IPM_RESULT_SUCCESS, l, w)" "ready l" "active l = ?P"
    "claim_counter l = claim_counter list" "same_shape list l"
    using release_all_suffix [OF rdy room small ids PS P S, of ctx w] by blast
  have "list_cnd l = list_cnd list"
    using release_all_list_Ret [OF rdy _ small ids, of w ctx me] room l(1) by auto
  then show ?thesis using l last by (metis rev_rev_ident)
qed

section \<open>Every orderly step keeps the invariant\<close>

lemma ids_by_proc_distinct: "distinct (map claim_id cs) \<Longrightarrow> ids_by_proc cs"
  unfolding ids_by_proc_def distinct_map by (metis inj_onD)

lemma unat_inc_bound:
  fixes x :: size_t
  assumes "unat x \<le> n" and "Suc n < 2 ^ 64"
  shows "unat (x + 1) = Suc (unat x)"
  using assms by (subst unat_word_ariths) simp

lemma system_ok_add:
  assumes ok: "system_ok l0 n s" and rdy: "ready l" and act: "active l = active (lst s) @ [c]"
    and len: "same_shape (lst s) l" and g: "grantable c (lst s)" and nw: "no_wrap c"
    and cnt: "claim_counter (lst s) \<le> claim_counter l" "unat (claim_counter l) \<le> Suc n" "claim_id c < claim_counter l"
    and sl: "set slp \<subseteq> set (asleep s)" "distinct (map claim_id slp)"
    and new: "claim_id c \<notin> claim_id ` set (granted s @ slp)"
  shows "system_ok l0 (Suc n) (s\<lparr>lst := l, granted := c # granted s, asleep := slp\<rparr>)"
proof -
  note d = system_okD [OF ok]
  have "\<forall>x \<in> set (granted s). \<not> claims_conflict c x" using g d(3) by (simp add: grantable_def)
  then have "compatible (c # granted s)" using d(4) by (simp add: compatible_Cons)
  moreover have "distinct (map claim_id ((c # granted s) @ slp))"
    using d(6) sl new by (auto simp: image_iff)
  moreover have "claim_id x < claim_counter l" if "x \<in> set (granted s @ slp)" for x
  proof -
    have "claim_id x < claim_counter (lst s)" using d(7) that sl(1) by auto
    then show ?thesis using cnt(1) by (rule order_less_le_trans)
  qed
  ultimately show ?thesis using d sl(1) rdy act len nw cnt unfolding system_ok_def
    by (auto simp: same_shape_def)
qed

lemma system_ok_less:
  assumes "system_ok l0 n s" and "ready l" and "active l = rev gs" and "set gs \<subseteq> set (granted s)"
    and "distinct (map claim_id gs)"
    and "claim_counter l = claim_counter (lst s)" and "same_shape (lst s) l"
  shows "system_ok l0 (Suc n) (s\<lparr>lst := l, granted := gs\<rparr>)"
proof -
  note d = system_okD [OF assms(1)]
  have "compatible gs" by (rule compatible_mono [OF assms(4) d(4)])
  moreover have "distinct (map claim_id (gs @ asleep s))" using d(6) assms(4,5) by auto
  ultimately show ?thesis using d assms unfolding system_ok_def by (auto simp: same_shape_def)
qed

lemma new_id:
  assumes "system_ok l0 n s"
  shows "claim_counter (lst s) \<notin> claim_id ` set (granted s @ asleep s)"
  using system_okD(7) [OF assms] by (metis image_iff less_irrefl)

lemma system_ok_claim:
  assumes ok: "system_ok l0 n s" and n: "Suc n < 2 ^ 64" and ord: "orderly s (Claim me acc off cnt)"
    and st: "step ctx s (Claim me acc off cnt) s'"
  shows "system_ok l0 (Suc n) s'"
  using st
proof (rule step_ClaimE)
  fix w w' res cid l
  let ?c = "region_claim acc off cnt me (lst s)"
  assume s': "s' = s\<lparr>lst := l, granted := ?c # granted s\<rparr>" and oth: "others w = []"
    and call: "claim_region_list ctx acc off cnt me (lst s) w = Ret (res, Some cid, l, w')"
  note d = system_okD [OF ok]
  have g: "grantable ?c (lst s)" by (rule claim_region_alone [OF d(1) oth call])
  obtain l' where "claim_region_list ctx acc off cnt me (lst s) w =
      Ret (IPM_RESULT_SUCCESS, Some (claim_counter (lst s)), l', w)"
    and l': "ready l'" "active l' = added ?c (lst s)" "claim_counter l' = claim_counter (lst s) + 1"
      "same_shape (lst s) l'"
    using claim_region_list_immediate [OF d(1) g, of ctx w] by (auto simp: same_shape_def)
  then have "l = l'" using call by simp
  note l = l' [folded this]
  have inc: "unat (claim_counter (lst s) + 1) = Suc (unat (claim_counter (lst s)))"
    using unat_inc_bound d(8) n by blast
  have "\<forall>x \<in> set (active (lst s)). offset x \<le> offset ?c"
    using ord d(3) by (simp add: appends_def)
  then have "active l = active (lst s) @ [?c]" using l(2) added_append by metis
  moreover have "no_wrap ?c" using ord by (simp add: no_wrap_def)
  moreover have "claim_counter (lst s) \<le> claim_counter l" "unat (claim_counter l) \<le> Suc n"
    "claim_id ?c < claim_counter l"
    using inc l(3) d(8) by (simp_all add: word_le_nat_alt word_less_nat_alt)
  ultimately have "system_ok l0 (Suc n) (s\<lparr>lst := l, granted := ?c # granted s, asleep := asleep s\<rparr>)"
    using system_ok_add [OF ok l(1) _ l(4) g, of "asleep s"] d(6) new_id [OF ok] by simp
  then show ?thesis using s' by (cases s) simp
qed

lemma system_ok_sleep:
  assumes ok: "system_ok l0 n s" and n: "Suc n < 2 ^ 64" and ord: "orderly s (Fall_asleep me acc off cnt)"
    and st: "step ctx s (Fall_asleep me acc off cnt) s'"
  shows "system_ok l0 (Suc n) s'"
  using st
proof (rule step_SleepE)
  let ?c = "region_claim acc off cnt me (lst s)"
  let ?l = "(lst s)\<lparr>claim_counter := claim_counter (lst s) + 1\<rparr>"
  assume s': "s' = s\<lparr>lst := ?l, asleep := ?c # asleep s\<rparr>"
  note d = system_okD [OF ok]
  have inc: "unat (claim_counter (lst s) + 1) = Suc (unat (claim_counter (lst s)))"
    using unat_inc_bound d(8) n by blast
  have "claim_id x < claim_counter (lst s) + 1" if "x \<in> set (granted s @ ?c # asleep s)" for x
    using that d(7) inc by (auto simp: word_less_nat_alt less_Suc_eq)
  moreover have "distinct (map claim_id (granted s @ ?c # asleep s))"
    using d(6) new_id [OF ok] by auto
  moreover have "ready ?l" using d(1) by (simp add: ready_def)
  moreover have "no_wrap ?c" using ord by (simp add: no_wrap_def)
  ultimately show ?thesis using d s' inc unfolding system_ok_def by (auto simp: same_shape_def)
qed

lemma system_ok_wake:
  assumes ok: "system_ok l0 n s" and ord: "orderly s (Wake c)" and st: "step ctx s (Wake c) s'"
  shows "system_ok l0 (Suc n) s'"
  using st
proof (rule step_WakeE)
  fix w w' m l l'
  assume s': "s' = s\<lparr>lst := unlock_list l' w', granted := c # granted s, asleep := remove1 c (asleep s)\<rparr>"
    and c: "c \<in> set (asleep s)" and oth: "others w = []"
    and lock: "ipm_mutex_lock (list_mutex (lst s)) w = Ret (IPM_RESULT_SUCCESS, m)"
    and wt: "claim_wait c ((lst s)\<lparr>list_mutex := m\<rparr>) w = Ret (IPM_RESULT_SUCCESS, True, l, w')"
    and add: "claim_add_to_list c l w' = Ret (IPM_RESULT_SUCCESS, l')"
  note d = system_okD [OF ok]
  have m: "m = Mut shared_robust (Locked (self w))" using lock d(1) by (simp add: ready_def)
  have held: "held w ((lst s)\<lparr>list_mutex := m\<rparr>)" using ready_lock [OF d(1)] m by simp
  note alone = claim_wait_alone [OF held oth wt]
  then have g: "grantable c (lst s)" and gl: "grantable c l" and hl: "held w' l" and w': "w' = w"
    using held by simp_all
  obtain l'' where "claim_add_to_list c l w' = Ret (IPM_RESULT_SUCCESS, l'')"
    and u: "ready (unlock_list l'' w')" "active (unlock_list l'' w') = added c l"
      "claim_counter (unlock_list l'' w') = claim_counter l"
      "length (claims (unlock_list l'' w')) = length (claims l)" "capacity (unlock_list l'' w') = capacity l"
    using add_and_unlock [OF hl gl] by metis
  then have "l'' = l'" using add by simp
  note u = u [unfolded this]
  have "\<forall>x \<in> set (active l). offset x \<le> offset c"
    using ord d(3) alone by (simp add: appends_def)
  then have "active (unlock_list l' w') = active (lst s) @ [c]"
    using u(2) added_append alone by (metis active_list_mutex)
  moreover have "same_shape (lst s) (unlock_list l' w')"
    "claim_counter (unlock_list l' w') = claim_counter (lst s)"
    using u(3,4,5) alone by (simp_all add: same_shape_def)
  moreover have "claim_id c \<notin> claim_id ` set (granted s @ remove1 c (asleep s))"
    "distinct (map claim_id (remove1 c (asleep s)))"
    using d(6) c by (auto simp: distinct_map image_iff inj_on_def)
  ultimately show ?thesis
    using system_ok_add [OF ok u(1) _ _ g, of "remove1 c (asleep s)"] s' d(5,7,8) c
      set_remove1_subset [of c "asleep s"] by simp
qed

lemma system_ok_release:
  assumes ok: "system_ok l0 n s" and ord: "orderly s (Release c)" and st: "step ctx s (Release c) s'"
  shows "system_ok l0 (Suc n) s'"
  using st
proof (rule step_ReleaseE)
  fix w w' l
  assume s': "s' = s\<lparr>lst := l, granted := remove1 c (granted s)\<rparr>"
    and call: "release_region_list ctx (claim_id c) (lst s) w = Ret (IPM_RESULT_SUCCESS, l, w')"
  note d = system_okD [OF ok]
  obtain gs where gs: "granted s = c # gs" using ord by (cases "granted s") auto
  then have "claim_id c \<in> claim_id ` set (active (lst s))" using d(3) by simp
  then obtain l' where "release_region_list ctx (claim_id c) (lst s) w = Ret (IPM_RESULT_SUCCESS, l', w)"
    and l': "ready l'" "active l' = removed (claim_id c) (active (lst s))"
      "claim_counter l' = claim_counter (lst s)" "same_shape (lst s) l'"
    using release_region_list_found [OF d(1), of w] ord by (fastforce simp: not_full_def same_shape_def)
  then have "l = l'" using call by simp
  note l = l' [folded this]
  have "active l = rev gs"
    using l(2) d(3,6) gs removed_last [of c "rev gs"] by simp
  then show ?thesis
    using system_ok_less [OF ok l(1) _ _ _ l(3,4), of gs] d(6) s' gs by auto
qed

lemma system_ok_release_all:
  assumes ok: "system_ok l0 n s" and small: "length (claims l0) < 2 ^ 31"
    and ord: "orderly s (Release_all me)" and st: "step ctx s (Release_all me) s'"
  shows "system_ok l0 (Suc n) s'"
  using st
proof (rule step_Release_allE)
  fix w w' l
  assume s': "s' = s\<lparr>lst := l, granted := filter (\<lambda>c. proc_id c \<noteq> me) (granted s)\<rparr>"
    and call: "release_all_list ctx me (lst s) w = Ret (IPM_RESULT_SUCCESS, l, w')"
  note d = system_okD [OF ok]
  have len: "length (claims (lst s)) < 2 ^ 31" using d(2) small by (simp add: same_shape_def)
  have ids: "ids_by_proc (active (lst s))"
    by (rule ids_by_proc_distinct) (use d(3,6) in \<open>simp flip: rev_map\<close>)
  have "rev (active (lst s)) = granted s" using d(3) by simp
  from release_all_latest [OF d(1) _ len ids this, of me ctx w] ord call
  have l: "ready l" "rev (active l) = filter (\<lambda>c. proc_id c \<noteq> me) (granted s)" "claim_counter l = claim_counter (lst s)"
    "same_shape (lst s) l"
    by (auto simp: not_full_def)
  then have "active l = rev (filter (\<lambda>c. proc_id c \<noteq> me) (granted s))" by (metis rev_rev_ident)
  moreover have "distinct (map claim_id (filter (\<lambda>c. proc_id c \<noteq> me) (granted s)))"
    using d(6) by (simp add: distinct_map_filter)
  ultimately show ?thesis
    using system_ok_less [OF ok l(1) _ _ _ l(3,4)] s' by auto
qed

lemma system_ok_remove_all:
  assumes ok: "system_ok l0 n s" and ord: "orderly s Remove_all" and st: "step ctx s Remove_all s'"
  shows "system_ok l0 (Suc n) s'"
  using st
proof (rule step_Remove_allE)
  fix w w' l
  assume s': "s' = s\<lparr>lst := l, granted := []\<rparr>"
    and call: "remove_all_list ctx (lst s) w = Ret (IPM_RESULT_SUCCESS, l, w')"
  note d = system_okD [OF ok]
  have "ready l \<and> active l = [] \<and> claim_counter l = claim_counter (lst s) \<and>
      same_shape (lst s) l"
    using remove_all_list_Ret [OF d(1), of w ctx] call ord by (auto simp: not_full_def same_shape_def)
  then show ?thesis using system_ok_less [OF ok, of l "[]"] s' by simp
qed

lemma system_ok_step:
  assumes "system_ok l0 n s" and "length (claims l0) < 2 ^ 31" and "Suc n < 2 ^ 64"
    and "orderly s ev" and "step ctx s ev s'"
  shows "system_ok l0 (Suc n) s'"
  using assms
  by (cases ev)
    (blast intro: system_ok_claim system_ok_sleep system_ok_wake system_ok_release system_ok_release_all
      system_ok_remove_all)+

lemma system_ok_run:
  assumes "run ctx orderly l0 n s" and "starting_list l0" and "n < 2 ^ 64"
  shows "system_ok l0 n s"
  using assms
proof (induction rule: run.induct)
  case start
  then show ?case by (simp add: system_ok_def starting_list_def compatible_def same_shape_def)
next
  case (more n s ev s')
  have "system_ok l0 n s" using more.IH more.prems by simp
  then show ?case using system_ok_step more.prems more.hyps(2,3) by (metis starting_list_def)
qed

section \<open>Writers\<close>

text \<open>A writer of another handle than the holders is granted its claim only when nobody holds one.\<close>

lemma writer_alone:
  assumes "system_ok l0 n s" and "grantable c (lst s)" and "no_wrap c"
    and "access c = IPM_ACCESS_MODE_READ_WRITE" and "proc_id c \<notin> proc_id ` set (granted s)"
  shows "granted s = []"
proof (rule ccontr)
  note d = system_okD [OF assms(1)]
  assume "granted s \<noteq> []"
  then obtain x where x: "x \<in> set (granted s)" by (cases "granted s") auto
  then have "proc_id c \<noteq> proc_id x" using assms(5) by auto
  then have "claims_conflict c x" using claims_conflict_no_wrap [OF assms(3)] assms(4) d(5) x by simp
  then show False using assms(2) d(3) x by (simp add: grantable_def)
qed

lemma writers_step:
  assumes ok: "system_ok l0 n s" and wr: "writers_ok s" and cap: "2 \<le> capacity l0"
    and D: "writers_only s ev" and st: "step ctx s ev s'"
  shows "orderly s ev \<and> writers_ok s'"
proof -
  note d = system_okD [OF ok]
  have "unat (count (lst s)) \<le> 1" using list_wfD(5) [of "lst s"] d(1,3) wr by (simp add: ready_def writers_ok_def)
  moreover have "1 < unat (capacity (lst s))" using cap d(2) by (simp add: same_shape_def word_le_nat_alt)
  ultimately have room: "not_full s" by (simp add: not_full_def word_less_nat_alt)
  from st show ?thesis
  proof cases
    case (claim w acc off cnt me res cid l w')
    let ?c = "region_claim acc off cnt me (lst s)"
    have "grantable ?c (lst s)" by (rule claim_region_alone [OF d(1) claim(3,4)])
    then have "granted s = []" using writer_alone [OF ok, of ?c] D claim(1) by (auto simp: no_wrap_def)
    then show ?thesis using D wr claim(1,2) by (auto simp: appends_def writers_ok_def)
  next
    case (fall_asleep w m acc off cnt me)
    then show ?thesis using D wr by (auto simp: writers_ok_def)
  next
    case (wake c w m l w' l')
    have m: "m = Mut shared_robust (Locked (self w))" using wake(5) d(1) by (simp add: ready_def)
    have held: "held w ((lst s)\<lparr>list_mutex := m\<rparr>)" using ready_lock [OF d(1)] m by simp
    have "grantable c (lst s)" using claim_wait_alone [OF held wake(4,6)] by simp
    moreover have "proc_id c \<notin> proc_id ` set (granted s)" "access c = IPM_ACCESS_MODE_READ_WRITE" "no_wrap c"
      using wr wake(3) d(5) by (auto simp: writers_ok_def)
    ultimately have e: "granted s = []" using writer_alone [OF ok] by blast
    then have "distinct (map proc_id (asleep s))" using wr by (simp add: writers_ok_def)
    then have "distinct (map proc_id (c # remove1 c (asleep s)))"
      using wake(3) by (auto simp: distinct_map inj_on_def)
    then show ?thesis using e wr wake(1-3) by (auto simp: appends_def writers_ok_def dest: notin_set_remove1)
  next
    case (release c w l w')
    then have "granted s = [c]" using wr by (cases "granted s") (auto simp: writers_ok_def)
    then show ?thesis using release(1,2) room wr by (simp add: writers_ok_def)
  next
    case (release_all me w l w')
    have "granted s = [] \<or> (\<exists>c. granted s = [c])" using wr
      by (cases "granted s") (auto simp: writers_ok_def)
    then show ?thesis using release_all(1,2) room wr by (auto simp: writers_ok_def)
  next
    case (remove_all w l w')
    then show ?thesis using room wr by (simp add: writers_ok_def)
  qed
qed

lemma writers_run:
  assumes "run ctx writers_only l0 n s" and "starting_list l0" and "2 \<le> capacity l0" and "n < 2 ^ 64"
  shows "system_ok l0 n s \<and> writers_ok s"
  using assms
proof (induction rule: run.induct)
  case start
  then show ?case by (simp add: system_ok_def starting_list_def compatible_def same_shape_def writers_ok_def)
next
  case (more n s ev s')
  then have IH: "system_ok l0 n s" "writers_ok s" by simp_all
  have "orderly s ev \<and> writers_ok s'" by (rule writers_step [OF IH more.prems(2) more.hyps(2,3)])
  then show ?case
    using system_ok_step [OF IH(1) _ more.prems(3) _ more.hyps(3)] more.prems(1) by (simp add: starting_list_def)
qed

lemma writers_held:
  assumes "system_ok l0 n s \<and> writers_ok s"
  shows "length (granted s) \<le> 1 \<and> active (lst s) = granted s \<and> ready (lst s)"
proof -
  have "rev (granted s) = granted s" using assms by (cases "granted s") (simp_all add: writers_ok_def)
  then show ?thesis using assms system_okD [of l0 n s] by (simp add: writers_ok_def)
qed

section \<open>Progress\<close>

lemma claim_region_blocked:
  assumes rdy: "ready list" and "others w = []" and nf: "fst (next_fault w) = ENONE"
    and ng: "\<not> grantable (region_claim acc off cnt me list) list"
  shows "claim_region_list ctx acc off cnt me list w = Blocked"
proof -
  let ?l0 = "list\<lparr>list_mutex := Mut shared_robust (Locked (self w)), claim_counter := claim_counter list + 1\<rparr>"
  have held: "held w ?l0" using rdy by (simp add: held_def ready_def)
  then have wf: "list_wf ?l0" by (simp add: held_def)
  have lock: "ipm_mutex_lock (list_mutex list) w = Ret (IPM_RESULT_SUCCESS, Mut shared_robust (Locked (self w)))"
    using rdy by (simp add: ready_def)
  have "claim_wait (region_claim acc off cnt me list) ?l0 w = Blocked"
    using ipm_condition_wait_held [OF held] assms(2) ng nf
    by (auto simp: claim_wait_step [OF wf] split: prod.split)
  then show ?thesis by (simp add: claim_region_list_def lock Let_def)
qed





section \<open>Building runs\<close>

lemma claim_possible:
  assumes rdy: "ready (lst s)" and g: "grantable (region_claim acc off cnt me (lst s)) (lst s)"
    and app: "\<forall>x \<in> set (active (lst s)). offset x \<le> off"
  shows "\<exists>s'. step ctx s (Claim me acc off cnt) s' \<and> ready (lst s') \<and> same_shape (lst s) (lst s') \<and>
    active (lst s') = active (lst s) @ [region_claim acc off cnt me (lst s)] \<and>
    claim_counter (lst s') = claim_counter (lst s) + 1 \<and>
    granted s' = region_claim acc off cnt me (lst s) # granted s \<and> asleep s' = asleep s"
proof -
  let ?c = "region_claim acc off cnt me (lst s)"
  let ?w = "undefined\<lparr>others := []\<rparr> :: 'a client"
  obtain l where call: "claim_region_list ctx acc off cnt me (lst s) ?w =
      Ret (IPM_RESULT_SUCCESS, Some (claim_counter (lst s)), l, ?w)"
    and l: "ready l" "active l = added ?c (lst s)" "claim_counter l = claim_counter (lst s) + 1"
      "same_shape (lst s) l"
    using claim_region_list_immediate [OF rdy g, of ctx ?w] by (auto simp: same_shape_def)
  have "active l = active (lst s) @ [?c]" using l(2) added_append [of "lst s" ?c] app by simp
  then show ?thesis using step.claim [OF _ call] l by fastforce
qed

lemma sleep_possible:
  assumes rdy: "ready (lst s)" and ng: "\<not> grantable (region_claim acc off cnt me (lst s)) (lst s)"
  shows "\<exists>s'. step ctx s (Fall_asleep me acc off cnt) s' \<and>
    lst s' = (lst s)\<lparr>claim_counter := claim_counter (lst s) + 1\<rparr> \<and> granted s' = granted s \<and>
    asleep s' = region_claim acc off cnt me (lst s) # asleep s"
proof -
  let ?w = "undefined\<lparr>others := [], faults := []\<rparr> :: 'a client"
  have "ipm_mutex_lock (list_mutex (lst s)) ?w =
      Ret (IPM_RESULT_SUCCESS, Mut shared_robust (Locked (self ?w)))"
    using rdy by (simp add: ready_def)
  moreover have "claim_region_list ctx acc off cnt me (lst s) ?w = Blocked"
    by (rule claim_region_blocked [OF rdy _ _ ng]) (simp_all add: next_fault_def)
  ultimately show ?thesis using step.fall_asleep [of ?w s _ ctx acc off cnt me] by fastforce
qed

text \<open>Any claim may be released as far as the list is concerned; what it leaves is \<^const>\<open>removed\<close>.\<close>

lemma release_step:
  assumes rdy: "ready (lst s)" and "not_full s" and "c \<in> set (granted s)"
    and "claim_id c \<in> claim_id ` set (active (lst s))"
  shows "\<exists>s'. step ctx s (Release c) s' \<and> ready (lst s') \<and> same_shape (lst s) (lst s') \<and>
    active (lst s') = removed (claim_id c) (active (lst s)) \<and>
    claim_counter (lst s') = claim_counter (lst s) \<and>
    granted s' = remove1 c (granted s) \<and> asleep s' = asleep s"
proof -
  let ?w = "undefined :: 'a client"
  obtain l where call: "release_region_list ctx (claim_id c) (lst s) ?w = Ret (IPM_RESULT_SUCCESS, l, ?w)"
    and l: "ready l" "active l = removed (claim_id c) (active (lst s))"
      "claim_counter l = claim_counter (lst s)" "same_shape (lst s) l"
    using release_region_list_found [OF rdy _ assms(4), of ?w ctx] assms(2)
    by (auto simp: not_full_def same_shape_def)
  then show ?thesis using step.release [OF assms(3) call] by fastforce
qed

lemma count_active: "ready l \<Longrightarrow> count l = word_of_nat (length (active l))"
  using list_wfD(5) [of l] by (simp add: ready_def)

lemma empty_list_starting: "starting_list empty_list"
  by (simp add: starting_list_def ready_def list_wf_def active_def empty_list_def)

lemma empty_list_capacity: "2 \<le> capacity empty_list"
  by (simp add: empty_list_def)

lemma start_ready:
  "ready (lst \<lparr>lst = empty_list, granted = [], asleep = []\<rparr>)"
  using empty_list_starting by (simp add: starting_list_def)

text \<open>On every list with two free slots: a handle writes, and another one that wants to write too falls asleep.\<close>

lemma sample_run_on:
  assumes D: "D = orderly \<or> D = writers_only" and l0: "starting_list l0" "2 \<le> capacity l0"
  shows "\<exists>s. run test_ctx D l0 2 s \<and> granted s = [sample_write 0 1] \<and> asleep s = [sample_write 1 2] \<and> not_full s"
proof -
  let ?s0 = "\<lparr>lst = l0, granted = [], asleep = []\<rparr>"
  let ?rw = IPM_ACCESS_MODE_READ_WRITE
  have r0: "ready (lst ?s0)" "active (lst ?s0) = []" "claim_counter (lst ?s0) = 0" using l0(1) by (simp_all add: starting_list_def)
  have cap: "0 < capacity l0" "1 < capacity l0" using l0(2) by (auto simp: word_less_nat_alt word_le_nat_alt)
  have "count l0 = 0" using count_active [OF r0(1)] r0(2) by simp
  then have "grantable (region_claim ?rw 0 16 1 (lst ?s0)) (lst ?s0)" using r0(2) cap by (auto simp: grantable_def)
  then obtain s1 where s1: "step test_ctx ?s0 (Claim 1 ?rw 0 16) s1" "ready (lst s1)" "same_shape l0 (lst s1)"
    "active (lst s1) = [sample_write 0 1]" "claim_counter (lst s1) = 1" "granted s1 = [sample_write 0 1]"
    "asleep s1 = []"
    using claim_possible [OF r0(1), where acc = ?rw and off = 0 and cnt = 16 and me = 1 and ctx = test_ctx] r0(2,3)
    by (auto simp: sample_write_def)
  have "\<not> grantable (region_claim ?rw 0 16 2 (lst s1)) (lst s1)"
    using s1(4) by (simp add: grantable_def claims_conflict_def sample_write_def)
  then obtain s2 where s2: "step test_ctx s1 (Fall_asleep 2 ?rw 0 16) s2"
    "lst s2 = (lst s1)\<lparr>claim_counter := claim_counter (lst s1) + 1\<rparr>" "granted s2 = granted s1"
    "asleep s2 = [sample_write 1 2]"
    using sleep_possible [OF s1(2), where acc = ?rw and off = 0 and cnt = 16 and me = 2 and ctx = test_ctx] s1(5,7)
    by (auto simp: sample_write_def)
  have "D ?s0 (Claim 1 ?rw 0 16)" using D by (auto simp: appends_def)
  then have "run test_ctx D l0 1 s1" using run.more [OF run.start _ s1(1)] by simp
  moreover have "D s1 (Fall_asleep 2 ?rw 0 16)" using D s1(6,7) by (auto simp: sample_write_def)
  ultimately have "run test_ctx D l0 (Suc 1) s2" by (rule run.more [OF _ _ s2(1)])
  moreover have "not_full s2"
    using s1(3,4) s2(2) count_active [OF s1(2)] cap(2) by (simp add: not_full_def same_shape_def)
  ultimately show ?thesis using s1 s2 by (auto simp: numeral_2_eq_2)
qed

lemmas sample_run = sample_run_on [OF disjI1 [OF refl] empty_list_starting empty_list_capacity]

lemma release_all_possible:
  assumes ok: "system_ok l0 n s" and small: "length (claims l0) < 2 ^ 31" and ord: "orderly s (Release_all me)"
  shows "\<exists>s'. step ctx s (Release_all me) s' \<and> ready (lst s') \<and> same_shape (lst s) (lst s') \<and>
    list_cnd (lst s') = list_cnd (lst s) \<and> rev (active (lst s')) = granted s' \<and>
    granted s' = filter (\<lambda>c. proc_id c \<noteq> me) (granted s) \<and> asleep s' = asleep s"
proof -
  let ?w = "undefined :: 'a client"
  note d = system_okD [OF ok]
  have len: "length (claims (lst s)) < 2 ^ 31" using d(2) small by (simp add: same_shape_def)
  have ids: "ids_by_proc (active (lst s))"
    by (rule ids_by_proc_distinct) (use d(3,6) in \<open>simp flip: rev_map\<close>)
  have "rev (active (lst s)) = granted s" using d(3) by simp
  from release_all_latest [OF d(1) _ len ids this, of me ctx ?w] ord
  obtain l where call: "release_all_list ctx me (lst s) ?w = Ret (IPM_RESULT_SUCCESS, l, ?w)"
    and l: "ready l" "rev (active l) = filter (\<lambda>c. proc_id c \<noteq> me) (granted s)" "list_cnd l = list_cnd (lst s)"
      "same_shape (lst s) l"
    by (auto simp: not_full_def)
  show ?thesis using step.release_all [OF call] l by fastforce
qed

section \<open>Properties\<close>

text \<open>
  C7. Exclusion under orderly use: in every run in which the ends of the claimed regions do not wrap, claims are appended in the
  order of their offsets and released in reverse order, and nothing is released while the list is full, the list holds
  exactly the claims that were handed out and not given back, and two of them that overlap and belong to different handles
  are both for reading.
\<close>

theorem orderly_exclusion:
  assumes "run ctx orderly l0 n s" and "starting_list l0" and "n < 2 ^ 64"
  shows "active (lst s) = rev (granted s) \<and> ready (lst s) \<and>
    (\<forall>c \<in> set (granted s). \<forall>d \<in> set (granted s). proc_id c \<noteq> proc_id d \<longrightarrow> region c \<inter> region d \<noteq> {} \<longrightarrow>
       access c = IPM_ACCESS_MODE_READ_ONLY \<and> access d = IPM_ACCESS_MODE_READ_ONLY)"
proof -
  note d = system_okD [OF system_ok_run [OF assms]]
  have "access c = IPM_ACCESS_MODE_READ_ONLY \<and> access d = IPM_ACCESS_MODE_READ_ONLY"
    if "c \<in> set (granted s)" "d \<in> set (granted s)" "proc_id c \<noteq> proc_id d" for c d
    using claims_conflict_no_wrap [of c d] that d(4,5) by (auto simp: compatible_def)
  then show ?thesis using d(1,3) by blast
qed

theorem orderly_exclusion_witness:
  "\<exists>s. run test_ctx orderly empty_list 2 s \<and> active (lst s) = [sample_write 0 1] \<and> asleep s = [sample_write 1 2]"
proof -
  obtain s where s: "run test_ctx orderly empty_list 2 s" "granted s = [sample_write 0 1]"
    "asleep s = [sample_write 1 2]" using sample_run by blast
  then show ?thesis using orderly_exclusion [OF s(1) empty_list_starting] by auto
qed

text \<open>
  Mutual exclusion of writers: when every claim is for writing and a handle asks for one claim at a time, at most
  one claim is handed out at any moment and the list holds exactly it. Of the regions it is only
  asked that their ends do not wrap, and of the order of releases nothing.
\<close>

lemma writers_exclusive:
  assumes "run ctx writers_only l0 n s" and "starting_list l0" and "2 \<le> capacity l0" and "n < 2 ^ 64"
  shows "length (granted s) \<le> 1 \<and> active (lst s) = granted s \<and> ready (lst s)"
  using writers_held [OF writers_run [OF assms]] .



text \<open>
  \<^verbatim>\<open>ipm_memory_release_all\<close>, and with it \<^verbatim>\<open>ipm_memory_close\<close>, notifies nobody. If in an orderly run one handle holds all the
  claims that are held, it can release them in one call; the claim of every sleeping process can then be granted, but the
  condition variable has not been signalled.
\<close>

lemma release_all_wakes_nobody:
  assumes "run ctx orderly l0 n s" and "starting_list l0" and "n < 2 ^ 64" and "not_full s"
    and "\<forall>d \<in> set (granted s). proc_id d = me" and "c \<in> set (asleep s)"
  shows "\<exists>s'. run ctx orderly l0 (Suc n) s' \<and> step ctx s (Release_all me) s' \<and> granted s' = [] \<and> grantable c (lst s') \<and>
    c \<in> set (asleep s') \<and> list_cnd (lst s') = list_cnd (lst s)"
proof -
  have "filter (\<lambda>c. proc_id c \<noteq> me) (granted s) = []" "dropWhile (\<lambda>c. proc_id c = me) (granted s) = []"
    using assms(5) by (simp_all add: filter_empty_conv)
  then have ord: "orderly s (Release_all me)" and none: "filter (\<lambda>c. proc_id c \<noteq> me) (granted s) = []"
    using assms(4) by (simp_all only: orderly.simps)
  have "length (claims l0) < 2 ^ 31" using assms(2) by (simp add: starting_list_def)
  from release_all_possible [OF system_ok_run [OF assms(1-3)] this ord, of ctx] none
  obtain s' where s': "step ctx s (Release_all me) s'" "ready (lst s')" "same_shape (lst s) (lst s')"
    "list_cnd (lst s') = list_cnd (lst s)" "active (lst s') = []" "granted s' = []" "asleep s' = asleep s"
    by auto
  have "count (lst s') \<noteq> capacity (lst s')"
    using s'(3,5) count_active [OF s'(2)] assms(4) by (auto simp: not_full_def same_shape_def)
  then have "grantable c (lst s')" using s'(5) by (simp add: grantable_def)
  then show ?thesis using run.more [OF assms(1) ord s'(1)] s' assms(6) by auto
qed

text \<open>
  C27. Without the order of releases exclusion is lost, although every call succeeds: two handles hold a region for
  reading, the first gives its claim back, and the removal takes the wrong claim from the list. The
  first handle is then granted the region for writing while the second still holds it.
\<close>

theorem release_order_breaks_exclusion:
  "\<exists>s c d. run test_ctx any_use empty_list 4 s \<and> granted s = [c, d] \<and> proc_id c \<noteq> proc_id d \<and>
     region c = region d \<and> region c \<noteq> {} \<and> access c = IPM_ACCESS_MODE_READ_WRITE"
proof -
  let ?s0 = "\<lparr>lst = empty_list, granted = [], asleep = []\<rparr>"
  let ?ro = IPM_ACCESS_MODE_READ_ONLY and ?rw = IPM_ACCESS_MODE_READ_WRITE
  let ?c0 = "\<lparr>claim_id = 0, proc_id = 1, access = ?ro, offset = 0, region_size = 16\<rparr>"
  let ?c1 = "\<lparr>claim_id = 1, proc_id = 2, access = ?ro, offset = 0, region_size = 16\<rparr>"
  let ?c2 = "\<lparr>claim_id = 2, proc_id = 1, access = ?rw, offset = 0, region_size = 16\<rparr>"
  have act0: "active empty_list = []" by (simp add: active_def empty_list_def)
  obtain s1 where s1: "step test_ctx ?s0 (Claim 1 ?ro 0 16) s1" "ready (lst s1)" "same_shape empty_list (lst s1)"
    "active (lst s1) = [?c0]" "claim_counter (lst s1) = 1" "granted s1 = [?c0]"
    using claim_possible [OF start_ready, where acc = ?ro and off = 0 and cnt = 16 and me = 1 and ctx = test_ctx]
      act0
    by (auto simp: grantable_def empty_list_def)
  have "grantable (region_claim ?ro 0 16 2 (lst s1)) (lst s1)"
    using s1 count_active [OF s1(2)] by (simp add: grantable_def same_shape_def empty_list_def)
  then obtain s2 where s2: "step test_ctx s1 (Claim 2 ?ro 0 16) s2" "ready (lst s2)"
    "same_shape empty_list (lst s2)" "active (lst s2) = [?c0, ?c1]" "claim_counter (lst s2) = 2"
    "granted s2 = [?c1, ?c0]"
    using claim_possible [OF s1(2), where acc = ?ro and off = 0 and cnt = 16 and me = 2 and ctx = test_ctx] s1
    by (auto simp: same_shape_def)
  have "not_full s2" using s2 count_active [OF s2(2)] by (simp add: not_full_def same_shape_def empty_list_def)
  then obtain s3 where s3: "step test_ctx s2 (Release ?c0) s3" "ready (lst s3)"
    "same_shape empty_list (lst s3)" "active (lst s3) = [?c0]" "claim_counter (lst s3) = 2" "granted s3 = [?c1]"
    using release_step [OF s2(2), of ?c0 test_ctx] s2 by (auto simp: same_shape_def removed_def)
  have "grantable (region_claim ?rw 0 16 1 (lst s3)) (lst s3)"
    using s3 count_active [OF s3(2)] by (simp add: grantable_def same_shape_def empty_list_def)
  then obtain s4 where s4: "step test_ctx s3 (Claim 1 ?rw 0 16) s4" "granted s4 = [?c2, ?c1]"
    using claim_possible [OF s3(2), where acc = ?rw and off = 0 and cnt = 16 and me = 1 and ctx = test_ctx] s3
    by auto
  have "run test_ctx any_use empty_list (Suc (Suc (Suc (Suc 0)))) s4"
    by (intro run.more [OF run.more [OF run.more [OF run.more [OF run.start _ s1(1)] _ s2(1)] _ s3(1)] _ s4(1)]) simp_all
  then have "run test_ctx any_use empty_list 4 s4" by (simp add: eval_nat_numeral)
  then show ?thesis using s4(2)
    by (intro exI [of _ s4] exI [of _ ?c2] exI [of _ ?c1]) (simp add: region_def)
qed

text \<open>
  C15. Without the condition that regions do not wrap exclusion is lost too, although claims are appended in the order of
  offsets and nothing is released: a handle holds 60 bytes from offset 60 for writing, another one asks to write from
  offset 100 with a count of $2^{64} - 50$, so that the end of its region wraps to 50. The conflict test compares
  with the wrapped end, and both claims are granted although they share the bytes from 100 to 119.
\<close>

theorem wrapped_claim_breaks_exclusion:
  "\<exists>s c d. run test_ctx any_use empty_list 2 s \<and> granted s = [d, c] \<and> proc_id c \<noteq> proc_id d \<and> offset c \<le> offset d \<and>
     {100..<120} \<subseteq> region c \<inter> region d \<and>
     access c = IPM_ACCESS_MODE_READ_WRITE \<and> access d = IPM_ACCESS_MODE_READ_WRITE"
proof -
  let ?s0 = "\<lparr>lst = empty_list, granted = [], asleep = []\<rparr>" and ?rw = IPM_ACCESS_MODE_READ_WRITE
  let ?c = "\<lparr>claim_id = 0, proc_id = 1, access = ?rw, offset = 60, region_size = 60\<rparr>"
  let ?d = "\<lparr>claim_id = 1, proc_id = 2, access = ?rw, offset = 100, region_size = - 50\<rparr>"
  have act0: "active empty_list = []" by (simp add: active_def empty_list_def)
  obtain s1 where s1: "step test_ctx ?s0 (Claim 1 ?rw 60 60) s1" "ready (lst s1)" "same_shape empty_list (lst s1)"
    "active (lst s1) = [?c]" "claim_counter (lst s1) = 1" "granted s1 = [?c]"
    using claim_possible [OF start_ready, where acc = ?rw and off = 60 and cnt = 60 and me = 1 and ctx = test_ctx] act0
    by (auto simp: grantable_def empty_list_def)
  have "grantable (region_claim ?rw 100 (- 50) 2 (lst s1)) (lst s1)"
    using s1 count_active [OF s1(2)]
    by (simp add: grantable_def same_shape_def empty_list_def claims_conflict_def word_less_nat_alt)
  then obtain s2 where s2: "step test_ctx s1 (Claim 2 ?rw 100 (- 50)) s2" "granted s2 = [?d, ?c]"
    using claim_possible [OF s1(2), where acc = ?rw and off = 100 and cnt = "- 50" and me = 2 and ctx = test_ctx] s1
    by (auto simp: word_le_nat_alt)
  have "run test_ctx any_use empty_list (Suc (Suc 0)) s2"
    by (intro run.more [OF run.more [OF run.start _ s1(1)] _ s2(1)]) simp_all
  then have "run test_ctx any_use empty_list 2 s2" by (simp add: numeral_2_eq_2)
  moreover have u: "unat (- 50 :: size_t) = 2 ^ 64 - 50" by (simp add: unat_word_ariths unsigned_minus_1_eq_mask)
  then have "{100..<120} \<subseteq> region ?c \<inter> region ?d" unfolding region_def by (auto simp only: u) simp_all
  ultimately show ?thesis using s2(2) by (intro exI [of _ s2] exI [of _ ?c] exI [of _ ?d]) simp
qed

end
