(* ===== verification/Library_Spec.thy ===== *)
theory Library_Spec
  imports IPM_Memory Claim_Protocol
begin

text \<open>
  What the library promises, without descriptors, mappings, blocks and the layout of the claim list: one memory, the
  handles that processes have on it, and the claims they hold. The theory \<^verbatim>\<open>Library_Runs\<close> shows that the calls of
  \<^verbatim>\<open>source/ipm_memory.c\<close>, made by any number of processes, implement it.
\<close>

section \<open>Calls\<close>

text \<open>
  A call names the process that makes it or, by its position in the list of open handles, the handle it goes through.
  \<open>Fork p q\<close> makes \<open>q\<close> a copy of the process \<open>p\<close>; the handles the copy has inherited can only be left, by the
  position in the list of inherited handles.
\<close>

datatype call =
    Create nat size_t ipm_access_mode
  | Open nat ipm_access_mode
  | Claim_region nat ipm_access_mode size_t size_t
  | Release_region nat ipm_id
  | Release_handle nat
  | Remove_claims nat
  | Close nat
  | Fork nat nat
  | Clean nat

text \<open>
  The state: the open handles with their process, access id and access mode; the processes that have inherited handles;
  the size of the memory, the next access id, the claims that are held, the latest first, and the next claim id.
\<close>

record library =
  holders :: "(nat \<times> ipm_id \<times> ipm_access_mode) list"
  heirs :: "nat list"
  mem_size :: size_t
  next_access :: ipm_id
  held_claims :: "ipm_memory_claim list"
  next_claim :: ipm_id

definition no_memory :: "nat list \<Rightarrow> library" where
  "no_memory hs = \<lparr>holders = [], heirs = hs, mem_size = 0, next_access = 0, held_claims = [], next_claim = 0\<rparr>"

definition drop_nth :: "nat \<Rightarrow> 'x list \<Rightarrow> 'x list" where
  "drop_nth k xs = take k xs @ drop (Suc k) xs"

definition holder_id :: "library \<Rightarrow> nat \<Rightarrow> ipm_id" where
  "holder_id a k = fst (snd (holders a ! k))"

definition wanted :: "library \<Rightarrow> nat \<Rightarrow> ipm_access_mode \<Rightarrow> size_t \<Rightarrow> size_t \<Rightarrow> ipm_memory_claim" where
  "wanted a k acc off cnt =
     \<lparr>claim_id = next_claim a, proc_id = holder_id a k, access = acc, offset = off, region_size = cnt\<rparr>"

definition must_wait :: "library \<Rightarrow> ipm_memory_claim \<Rightarrow> bool" where
  "must_wait a c \<longleftrightarrow> (\<exists>x \<in> set (held_claims a). claims_conflict c x) \<or> length (held_claims a) = 99"

definition without_claims_of :: "ipm_id \<Rightarrow> library \<Rightarrow> library" where
  "without_claims_of me a = a\<lparr>held_claims := filter (\<lambda>c. proc_id c \<noteq> me) (held_claims a)\<rparr>"

text \<open>The reply of a call and the state after it; \<open>None\<close> if the caller has to wait.\<close>

fun spec_call :: "call \<Rightarrow> library \<Rightarrow> ((ipm_result \<times> ipm_id option) \<times> library) option" where
  "spec_call (Create p sz acc) a =
     (if holders a \<noteq> [] then Some ((IPM_RESULT_ERR_EXISTS, None), a)
      else Some ((IPM_RESULT_SUCCESS, None),
             \<lparr>holders = [(p, 1, acc)], heirs = heirs a, mem_size = round_size sz, next_access = 2,
              held_claims = [], next_claim = 0\<rparr>))"
| "spec_call (Open p acc) a =
     (if holders a = [] then Some ((IPM_RESULT_ERR_DOES_NOT_EXIST, None), a)
      else Some ((IPM_RESULT_SUCCESS, None),
             a\<lparr>holders := holders a @ [(p, next_access a, acc)], next_access := next_access a + 1\<rparr>))"
| "spec_call (Claim_region k acc off cnt) a =
     (if snd (snd (holders a ! k)) = IPM_ACCESS_MODE_READ_ONLY \<and> acc = IPM_ACCESS_MODE_READ_WRITE
      then Some ((IPM_RESULT_ERR_BAD_ACCESS, None), a)
      else if mem_size a < off + cnt then Some ((IPM_RESULT_ERR_BAD_VALUE, None), a)
      else if must_wait a (wanted a k acc off cnt) then None
      else Some ((IPM_RESULT_SUCCESS, Some (next_claim a)),
             a\<lparr>held_claims := wanted a k acc off cnt # held_claims a, next_claim := next_claim a + 1\<rparr>))"
| "spec_call (Release_region k cid) a =
     Some ((IPM_RESULT_SUCCESS, None), a\<lparr>held_claims := filter (\<lambda>c. claim_id c \<noteq> cid) (held_claims a)\<rparr>)"
| "spec_call (Release_handle k) a = Some ((IPM_RESULT_SUCCESS, None), without_claims_of (holder_id a k) a)"
| "spec_call (Remove_claims k) a = Some ((IPM_RESULT_SUCCESS, None), a\<lparr>held_claims := []\<rparr>)"
| "spec_call (Close k) a =
     Some ((IPM_RESULT_SUCCESS, None),
       if length (holders a) = 1 then no_memory (heirs a)
       else (without_claims_of (holder_id a k) a)\<lparr>holders := drop_nth k (holders a)\<rparr>)"
| "spec_call (Fork p q) a =
     Some ((IPM_RESULT_SUCCESS, None),
       a\<lparr>heirs := heirs a @ map (\<lambda>_. q) (filter (\<lambda>(r, _). r = p) (holders a)) @
                  map (\<lambda>_. q) (filter (\<lambda>r. r = p) (heirs a))\<rparr>)"
| "spec_call (Clean j) a = Some ((IPM_RESULT_SUCCESS, None), a\<lparr>heirs := drop_nth j (heirs a)\<rparr>)"

text \<open>
  The use the promise is made for: the arguments that the assertions of the library ask for, handles that are open,
  regions that do not wrap, and the order of claims that the claim list supports: a new claim does not lie before a
  claim that is held, claims are released latest first, and not while the list is full. A process is forked
  into one that has no handle.
\<close>

definition releasable :: "library \<Rightarrow> nat \<Rightarrow> bool" where
  "releasable a k \<longleftrightarrow>
     k < length (holders a) \<and> length (held_claims a) < 99 \<and>
     filter (\<lambda>c. proc_id c \<noteq> holder_id a k) (held_claims a) =
       dropWhile (\<lambda>c. proc_id c = holder_id a k) (held_claims a)"

fun proper :: "library \<Rightarrow> call \<Rightarrow> bool" where
  "proper a (Create p sz acc) \<longleftrightarrow> 0 < sz \<and> unat sz < 2 ^ 62 \<and> valid_access acc"
| "proper a (Open p acc) \<longleftrightarrow> valid_access acc"
| "proper a (Claim_region k acc off cnt) \<longleftrightarrow>
     k < length (holders a) \<and> valid_access acc \<and> 0 < cnt \<and> unat off + unat cnt < 2 ^ 64 \<and>
     (\<forall>c \<in> set (held_claims a). offset c \<le> off)"
| "proper a (Release_region k cid) \<longleftrightarrow>
     k < length (holders a) \<and> length (held_claims a) < 99 \<and> held_claims a \<noteq> [] \<and> claim_id (hd (held_claims a)) = cid"
| "proper a (Release_handle k) \<longleftrightarrow> releasable a k"
| "proper a (Remove_claims k) \<longleftrightarrow> k < length (holders a) \<and> length (held_claims a) < 99"
| "proper a (Close k) \<longleftrightarrow> releasable a k"
| "proper a (Fork p q) \<longleftrightarrow> q \<notin> fst ` set (holders a) \<and> q \<notin> set (heirs a)"
| "proper a (Clean j) \<longleftrightarrow> j < length (heirs a)"

section \<open>What the specification guarantees\<close>

text \<open>
  The invariant of the specification after at most \<open>n\<close> calls: claims that are held never conflict, belong to open
  handles and have different ids; so have the handles.
\<close>

definition claims_ok :: "nat \<Rightarrow> ipm_id set \<Rightarrow> ipm_memory_claim list \<Rightarrow> ipm_id \<Rightarrow> bool" where
  "claims_ok n ids cs nxt \<longleftrightarrow>
     compatible cs \<and> distinct (map claim_id cs) \<and> (\<forall>c \<in> set cs. claim_id c < nxt \<and> proc_id c \<in> ids \<and> no_wrap c) \<and>
     unat nxt \<le> n \<and> length cs \<le> 99"

definition holders_ok :: "nat \<Rightarrow> (nat \<times> ipm_id \<times> ipm_access_mode) list \<Rightarrow> ipm_id \<Rightarrow> bool" where
  "holders_ok n hs nxt \<longleftrightarrow>
     distinct (map (fst \<circ> snd) hs) \<and> (\<forall>h \<in> set hs. fst (snd h) < nxt) \<and> length hs \<le> n \<and> unat nxt \<le> Suc n"

definition library_ok :: "nat \<Rightarrow> library \<Rightarrow> bool" where
  "library_ok n a \<longleftrightarrow>
     holders_ok n (holders a) (next_access a) \<and>
     claims_ok n ((fst \<circ> snd) ` set (holders a)) (held_claims a) (next_claim a) \<and>
     (holders a = [] \<longrightarrow> a = no_memory (heirs a))"

lemma set_drop_nth: "set (drop_nth k xs) \<subseteq> set xs"
  by (auto simp: drop_nth_def dest: in_set_takeD in_set_dropD)

lemma map_drop_nth: "map f (drop_nth k xs) = drop_nth k (map f xs)"
  by (simp add: drop_nth_def take_map drop_map)

lemma length_drop_nth: "k < length xs \<Longrightarrow> Suc (length (drop_nth k xs)) = length xs"
  by (simp add: drop_nth_def)

lemma distinct_drop_nth: "distinct xs \<Longrightarrow> distinct (drop_nth k xs)"
  using set_take_disj_set_drop_if_distinct [of xs k "Suc k"] by (simp add: drop_nth_def)

lemma drop_nth_other:
  assumes "distinct (map f xs)" and "k < length xs"
  shows "x \<in> set (drop_nth k xs) \<longleftrightarrow> x \<in> set xs \<and> f x \<noteq> f (xs ! k)"
proof -
  have xs: "xs = take k xs @ xs ! k # drop (Suc k) xs" using assms(2) by (rule id_take_nth_drop)
  then have "distinct (map f (take k xs @ xs ! k # drop (Suc k) xs))" using assms(1) by simp
  then have "f (xs ! k) \<notin> f ` set (take k xs)" "f (xs ! k) \<notin> f ` set (drop (Suc k) xs)" by auto
  moreover have "set xs = set (take k xs) \<union> {xs ! k} \<union> set (drop (Suc k) xs)" by (subst xs) auto
  ultimately show ?thesis by (auto simp: drop_nth_def intro: rev_image_eqI)
qed

lemma claims_ok_mono:
  assumes "claims_ok n ids cs nxt" and "set ds \<subseteq> set cs" and "distinct (map claim_id ds)" and "length ds \<le> length cs"
    and "\<forall>c \<in> set ds. proc_id c \<in> ids'" and "n \<le> n'"
  shows "claims_ok n' ids' ds nxt"
  using assms compatible_mono [OF assms(2)] by (auto simp: claims_ok_def)

lemma claims_ok_filter:
  assumes "claims_ok n ids cs nxt" and "\<forall>c \<in> set cs. P c \<longrightarrow> proc_id c \<in> ids'" and "n \<le> n'"
  shows "claims_ok n' ids' (filter P cs) nxt"
  by (rule claims_ok_mono [OF assms(1)]) (use assms in \<open>auto simp: claims_ok_def distinct_map_filter\<close>)

lemma claims_ok_add:
  assumes ok: "claims_ok n ids cs nxt" and n: "Suc n < 2 ^ 64"
    and c: "claim_id c = nxt" "proc_id c \<in> ids" "no_wrap c" "\<forall>x \<in> set cs. \<not> claims_conflict c x" "length cs \<noteq> 99"
  shows "claims_ok (Suc n) ids (c # cs) (nxt + 1)"
proof -
  have u: "unat (nxt + 1) = Suc (unat nxt)" using ok n by (intro unat_inc_bound) (auto simp: claims_ok_def)
  then have lt: "nxt < nxt + 1" by (simp add: word_less_nat_alt)
  have "claim_id x < nxt + 1" if "x \<in> set cs" for x
    using ok that order_less_trans [OF _ lt] by (auto simp: claims_ok_def)
  moreover have "claim_id c \<notin> claim_id ` set cs" using ok c(1) by (auto simp: claims_ok_def)
  ultimately show ?thesis using ok c u lt by (auto simp: claims_ok_def compatible_Cons)
qed

lemma no_memory_heirs: "a = no_memory (heirs a) \<Longrightarrow> a\<lparr>heirs := hs\<rparr> = no_memory hs"
  by (cases a) (simp add: no_memory_def)

lemma heirs_no_memory [simp]: "heirs (no_memory hs) = hs" "holders (no_memory hs) = []"
  "held_claims (no_memory hs) = []"
  by (simp_all add: no_memory_def)

lemma library_ok_heirs: "library_ok n a \<Longrightarrow> library_ok n (a\<lparr>heirs := hs\<rparr>)"
  using no_memory_heirs [of a hs] by (auto simp: library_ok_def)

lemma library_ok_start: "library_ok n (no_memory hs)"
  by (simp add: library_ok_def holders_ok_def claims_ok_def no_memory_def compatible_def)

text \<open>Every proper call keeps the invariant.\<close>

lemma library_ok_Suc: "library_ok n a \<Longrightarrow> library_ok (Suc n) a"
  by (auto simp: library_ok_def holders_ok_def claims_ok_def)

lemma library_ok_filter:
  assumes "library_ok n a" and "holders a \<noteq> []"
  shows "library_ok n (a\<lparr>held_claims := filter P (held_claims a)\<rparr>)"
  using assms claims_ok_filter [of n "(fst \<circ> snd) ` set (holders a)" "held_claims a" "next_claim a" P]
  by (auto simp: library_ok_def claims_ok_def)

lemma library_ok_open:
  assumes ok: "library_ok n a" and n: "Suc n < 2 ^ 64 - 1" and "holders a \<noteq> []"
  shows "library_ok (Suc n) (a\<lparr>holders := holders a @ [(p, next_access a, acc)], next_access := next_access a + 1\<rparr>)"
proof -
  have h: "holders_ok n (holders a) (next_access a)" using ok by (simp add: library_ok_def)
  have u: "unat (next_access a + 1) = Suc (unat (next_access a))"
    using h n by (intro unat_inc_bound) (auto simp: holders_ok_def)
  then have lt: "next_access a < next_access a + 1" by (simp add: word_less_nat_alt)
  have "holders_ok (Suc n) (holders a @ [(p, next_access a, acc)]) (next_access a + 1)"
    using h u lt order_less_trans [OF _ lt] by (auto simp: holders_ok_def)
  then show ?thesis using library_ok_Suc [OF ok] assms(3) by (auto simp: library_ok_def claims_ok_def)
qed

lemma library_ok_claim:
  assumes ok: "library_ok n a" and n: "Suc n < 2 ^ 64 - 1" and pr: "proper a (Claim_region k acc off cnt)"
    and "\<not> must_wait a (wanted a k acc off cnt)"
  shows "library_ok (Suc n) (a\<lparr>held_claims := wanted a k acc off cnt # held_claims a, next_claim := next_claim a + 1\<rparr>)"
proof -
  let ?ids = "(fst \<circ> snd) ` set (holders a)"
  have c: "claims_ok n ?ids (held_claims a) (next_claim a)" using ok by (simp add: library_ok_def)
  have "holder_id a k \<in> ?ids" using pr by (auto simp: holder_id_def)
  then have "claims_ok (Suc n) ?ids (wanted a k acc off cnt # held_claims a) (next_claim a + 1)"
    using assms(4) pr n by (intro claims_ok_add [OF c]) (auto simp: wanted_def must_wait_def no_wrap_def)
  then show ?thesis using library_ok_Suc [OF ok] pr by (auto simp: library_ok_def)
qed

lemma library_ok_close:
  assumes ok: "library_ok n a" and k: "k < length (holders a)" and more: "length (holders a) \<noteq> 1"
  shows "library_ok n ((without_claims_of (holder_id a k) a)\<lparr>holders := drop_nth k (holders a)\<rparr>)"
proof -
  have h: "holders_ok n (holders a) (next_access a)"
    and c: "claims_ok n ((fst \<circ> snd) ` set (holders a)) (held_claims a) (next_claim a)"
    using ok by (simp_all add: library_ok_def)
  have d: "distinct (map (fst \<circ> snd) (holders a))" using h by (simp add: holders_ok_def)
  have "holders_ok n (drop_nth k (holders a)) (next_access a)"
    using h set_drop_nth [of k "holders a"] distinct_drop_nth [OF d, of k] length_drop_nth [OF k]
    by (auto simp: holders_ok_def map_drop_nth)
  moreover have "claims_ok n ((fst \<circ> snd) ` set (drop_nth k (holders a)))
      (filter (\<lambda>c. proc_id c \<noteq> holder_id a k) (held_claims a)) (next_claim a)"
  proof (rule claims_ok_filter [OF c])
    show "\<forall>c \<in> set (held_claims a). proc_id c \<noteq> holder_id a k \<longrightarrow>
        proc_id c \<in> (fst \<circ> snd) ` set (drop_nth k (holders a))"
      using c drop_nth_other [OF d k] by (force simp: claims_ok_def holder_id_def)
  qed simp
  moreover have "drop_nth k (holders a) \<noteq> []" using more length_drop_nth [OF k] by auto
  ultimately show ?thesis by (simp add: library_ok_def without_claims_of_def)
qed

lemma library_ok_call:
  assumes ok: "library_ok n a" and pr: "proper a ev" and n: "Suc n < 2 ^ 64 - 1" and step: "spec_call ev a = Some (rep, a')"
  shows "library_ok (Suc n) a'"
proof (cases ev)
  case (Create p sz acc)
  then show ?thesis using step library_ok_Suc [OF ok]
    by (auto simp: library_ok_def holders_ok_def claims_ok_def compatible_def split: if_splits)
next
  case (Open p acc)
  then show ?thesis using step library_ok_Suc [OF ok] library_ok_open [OF ok n] by (auto split: if_splits)
next
  case (Claim_region k acc off cnt)
  then show ?thesis using step library_ok_Suc [OF ok] library_ok_claim [OF ok n, of k acc off cnt] pr
    by (auto split: if_splits)
next
  case (Close k)
  then have "k < length (holders a)" using pr by (simp add: releasable_def)
  then show ?thesis
    using step Close library_ok_Suc [OF library_ok_close [OF ok, of k]] library_ok_start
    by (auto split: if_splits)
next
  case (Release_region k cid)
  then have "holders a \<noteq> []" using pr by auto
  then show ?thesis using step Release_region library_ok_filter [OF library_ok_Suc [OF ok]] by auto
next
  case (Release_handle k)
  then have "holders a \<noteq> []" using pr by (auto simp: releasable_def)
  then show ?thesis
    using step Release_handle library_ok_filter [OF library_ok_Suc [OF ok]] by (auto simp: without_claims_of_def)
next
  case (Remove_claims k)
  then have "holders a \<noteq> []" using pr by auto
  then show ?thesis
    using step Remove_claims library_ok_filter [OF library_ok_Suc [OF ok], of "\<lambda>_. False"] by auto
qed (use step library_ok_heirs [OF library_ok_Suc [OF ok]] in auto)

section \<open>Clients\<close>

text \<open>
  A program of several processes under some scheduler: which call comes next may depend on all replies so far. It ends
  with a value, or because an assertion of it has failed.
\<close>

type_synonym reply = "ipm_result \<times> ipm_id option"

datatype 'x client =
    Done 'x
  | Failed
  | Ask call "reply \<Rightarrow> 'x client"

primrec run_client :: "(call \<Rightarrow> 'm \<Rightarrow> (reply \<times> 'm) outcome) \<Rightarrow> 'x client \<Rightarrow> 'm \<Rightarrow> ('x \<times> 'm) outcome" where
  "run_client do_call (Done x) m = Ret (x, m)"
| "run_client do_call Failed m = Abort"
| "run_client do_call (Ask ev k) m = bind_outcome (do_call ev m) (\<lambda>(rep, m'). run_client do_call (k rep) m')"

text \<open>The client with the library it is promised, whether its use of it is proper, and a bound on the calls it makes.\<close>

definition spec_step :: "call \<Rightarrow> library \<Rightarrow> (reply \<times> library) outcome" where
  "spec_step ev a = (case spec_call ev a of None \<Rightarrow> Blocked | Some x \<Rightarrow> Ret x)"

primrec proper_client :: "'x client \<Rightarrow> library \<Rightarrow> bool" where
  "proper_client (Done x) a \<longleftrightarrow> True"
| "proper_client Failed a \<longleftrightarrow> True"
| "proper_client (Ask ev k) a \<longleftrightarrow>
     proper a ev \<and> (case spec_call ev a of None \<Rightarrow> True | Some (rep, a') \<Rightarrow> proper_client (k rep) a')"

primrec calls_within :: "'x client \<Rightarrow> nat \<Rightarrow> bool" where
  "calls_within (Done x) n \<longleftrightarrow> True"
| "calls_within Failed n \<longleftrightarrow> True"
| "calls_within (Ask ev k) n \<longleftrightarrow> (\<exists>n'. n = Suc n' \<and> (\<forall>rep. calls_within (k rep) n'))"

text \<open>
  What an implementation owes its clients: while it is sound for another call, a proper call waits when the specification
  says so, and otherwise replies what the specification says and is sound for one call less.
\<close>

locale library_interface =
  fixes do_call :: "call \<Rightarrow> 'm \<Rightarrow> (reply \<times> 'm) outcome"
    and abs_of :: "'m \<Rightarrow> library"
    and sound :: "nat \<Rightarrow> 'm \<Rightarrow> bool"
  assumes call_blocks: "sound (Suc n) m \<Longrightarrow> proper (abs_of m) ev \<Longrightarrow> spec_call ev (abs_of m) = None \<Longrightarrow>
      do_call ev m = Blocked"
    and call_replies: "sound (Suc n) m \<Longrightarrow> proper (abs_of m) ev \<Longrightarrow> spec_call ev (abs_of m) = Some (rep, a) \<Longrightarrow>
      \<exists>m'. do_call ev m = Ret (rep, m') \<and> abs_of m' = a \<and> sound n m'"
    and sound_less: "sound (Suc n) m \<Longrightarrow> sound n m"
begin

lemma sound_zero: "sound n m \<Longrightarrow> sound 0 m"
  by (induction n) (simp_all add: sound_less)

text \<open>A client cannot tell the implementation from the specification.\<close>

lemma client_refines:
  "sound n m \<Longrightarrow> calls_within c n \<Longrightarrow> proper_client c (abs_of m) \<Longrightarrow>
    (case run_client spec_step c (abs_of m) of
       Ret (x, a) \<Rightarrow> \<exists>m'. run_client do_call c m = Ret (x, m') \<and> abs_of m' = a \<and> sound 0 m'
     | Blocked \<Rightarrow> run_client do_call c m = Blocked
     | Abort \<Rightarrow> run_client do_call c m = Abort
     | UB \<Rightarrow> False)"
proof (induction c arbitrary: m n)
  case (Ask ev k)
  obtain n' where n: "n = Suc n'" "\<And>rep. calls_within (k rep) n'" using Ask.prems(2) by auto
  show ?case
  proof (cases "spec_call ev (abs_of m)")
    case None
    then show ?thesis using call_blocks [of n' m ev] Ask.prems n by (simp add: spec_step_def)
  next
    case (Some x)
    then obtain rep a m' where x: "spec_call ev (abs_of m) = Some (rep, a)"
      "do_call ev m = Ret (rep, m')" "abs_of m' = a" "sound n' m'"
      using call_replies [of n' m ev] Ask.prems n by (cases x) auto
    then have "run_client do_call (Ask ev k) m = run_client do_call (k rep) m'"
      "run_client spec_step (Ask ev k) (abs_of m) = run_client spec_step (k rep) (abs_of m')" "proper_client (k rep) (abs_of m')"
      using Ask.prems(3) by (simp_all add: spec_step_def)
    then show ?thesis using Ask.IH [OF rangeI x(4) n(2), of rep] by metis
  qed
qed (auto intro: sound_zero)

end

text \<open>The specification itself is such an implementation.\<close>

interpretation spec: library_interface spec_step "\<lambda>a. a" "\<lambda>_ _. True"
  by unfold_locales (simp_all add: spec_step_def)

end
