(* ===== verification/Memory_Calls.thy ===== *)
theory Memory_Calls
  imports IPM_Memory
begin

text \<open>
  More of \<^verbatim>\<open>source/ipm_memory.c\<close>: creation when a system call fails, opening a second handle, leaving a handle after
  \<^verbatim>\<open>fork\<close>, the argument checks of claiming and growing, and what mapping again leaves of a handle.
\<close>

section \<open>How much of the script of failures a call uses\<close>

text \<open>The call number \<open>k\<close> from here, counted from 0, fails.\<close>

definition fails_at :: "nat \<Rightarrow> 'a platform_scheme \<Rightarrow> bool" where
  "fails_at k w \<longleftrightarrow> k < length (faults w) \<and> faults w ! k \<noteq> ENONE"

lemma fails_at_drop: "faults w' = drop n (faults w) \<Longrightarrow> fails_at k w' = fails_at (n + k) w"
  by (auto simp: fails_at_def)

lemma fails_at_not_quiet: "fails_at k w \<Longrightarrow> \<not> quiet w"
  by (auto simp: fails_at_def quiet_def)

lemma faults_next_fault: "next_fault w = (e, w') \<Longrightarrow> faults w' = tl (faults w)"
  by (auto simp: next_fault_def split: list.splits)

text \<open>Every call into the system takes one entry.\<close>

lemma faults_system_calls:
  "shm_open nb ex w = (fd, w') \<Longrightarrow> faults w' = tl (faults w)"
  "ftruncate fd len w = (r, w') \<Longrightarrow> faults w' = tl (faults w)"
  "mmap len wr fd off w = (p, w') \<Longrightarrow> faults w' = tl (faults w)"
  by (auto simp: shm_open_def ftruncate_def mmap_def dest!: faults_next_fault split: prod.splits if_splits option.splits)

lemma faults_write_header: "write_header p f w = Ret w' \<Longrightarrow> faults w' = faults w"
  by (auto simp: write_header_def split: option.splits)

text \<open>So the initialisations and the creation of a block, if they succeed, take as many as they make calls.\<close>

lemma ipm_mutex_init_uses:
  assumes "ipm_mutex_init m w = (IPM_RESULT_SUCCESS, m', w')"
  shows "faults w' = drop 5 (faults w)"
  using assms
  by (auto simp: ipm_mutex_init_def init_defs eval_nat_numeral split: list.splits if_splits)

lemma ipm_condition_init_uses:
  assumes "ipm_condition_init c w = (IPM_RESULT_SUCCESS, c', w')"
  shows "faults w' = drop 3 (faults w) \<and> (c' = Cnd True 0 \<or> fails_at 2 w)"
  using assms 
  by (auto simp: ipm_condition_init_def init_defs eval_nat_numeral fails_at_def split: list.splits if_splits option.splits)

lemma claim_list_init_uses:
  assumes "claim_list_init l cap w = (IPM_RESULT_SUCCESS, l', w')"
  shows "faults w' = drop 8 (faults w) \<and> (list_cnd l' = Cnd True 0 \<or> fails_at 7 w)"
proof -
  obtain r m w1 where m: "ipm_mutex_init (list_mutex l) w = (r, m, w1)" by (metis surj_pair)
  obtain r2 c w2 where c: "ipm_condition_init (list_cnd l) w1 = (r2, c, w2)" by (metis surj_pair)
  have r: "r = IPM_RESULT_SUCCESS" "r2 = IPM_RESULT_SUCCESS" and l': "list_cnd l' = c" "w' = w2"
    using assms m c by (auto simp: claim_list_init_def Let_def split: if_splits)
  have "faults w1 = drop 5 (faults w)" using ipm_mutex_init_uses m r(1) by blast
  then show ?thesis using ipm_condition_init_uses [of "list_cnd l" w1 c w2] c r(2) l' fails_at_drop [of w1 5 w 2] by simp
qed

lemma create_fill_header_uses:
  assumes "create_fill_header ctx bname bid sz acc nb fd b a p_block w = Ret (IPM_RESULT_SUCCESS, blk, w')"
  shows "faults w' = drop 5 (faults w)"
proof -
  let ?f = "\<lambda>h. h\<lparr>block_id := bid, block_size := sz, id_counter := 1\<rparr>"
  obtain w1 where w1: "write_header a ?f w = Ret w1"
    using assms by (cases "write_header a ?f w") (simp_all add: create_fill_header_def)
  obtain h where h: "read_header a w1 = Ret h"
    using assms w1 by (cases "read_header a w1") (simp_all add: create_fill_header_def)
  obtain r m w2 where m: "ipm_mutex_init (segment_mutex h) w1 = (r, m, w2)" by (metis surj_pair)
  have "r = IPM_RESULT_SUCCESS \<and> faults w' = faults w2"
    using assms w1 h m
    by (auto simp: create_fill_header_def bind_outcome_Ret_iff Let_def dest!: faults_write_header split: if_splits prod.splits)
  then show ?thesis using ipm_mutex_init_uses [of _ w1 m w2] m faults_write_header [OF w1] by simp
qed

lemma block_create_uses:
  assumes "shared_memory_block_create ctx bname bid sz acc p_block w = Ret (IPM_RESULT_SUCCESS, blk, w')"
  shows "faults w' = drop 9 (faults w)"
  using assms
  by (auto simp: shared_memory_block_create_def c_assert_def create_map_def Let_def drop_Suc eval_nat_numeral
      dest!: faults_system_calls create_fill_header_uses split: prod.splits if_splits)

section \<open>Initialising the claim list with at most one fault\<close>

text \<open>
  The initialisation is complete, or it fails and every later call succeeds, or it is reported as complete without a
  condition variable.
\<close>

lemma ipm_condition_init_one:
  assumes "one_fault w" and "ipm_condition_init c w = (r, c', w')"
  shows "(\<exists>fs x. w' = w\<lparr>faults := fs, attr_live := x\<rparr> \<and> set fs \<subseteq> set (faults w)) \<and> one_fault w' \<and>
    (r = IPM_RESULT_SUCCESS \<and> c' = Cnd True 0 \<or> c' = c \<and> quiet w' \<and> \<not> quiet w \<and>
      (r = IPM_RESULT_SUCCESS \<longrightarrow> condition_init_error (errno w) = None))"
  using assms
  by (cases w; cases "faults w"; cases "tl (faults w)"; cases "tl (tl (faults w))")
    (auto simp: ipm_condition_init_def init_defs one_fault_def quiet_def filter_empty_conv
      split: list.splits if_splits option.splits)

lemma claim_list_init_one:
  assumes flt: "one_fault w" and init: "claim_list_init l cap w = (r, l', w')"
  shows "(\<exists>fs x. w' = w\<lparr>faults := fs, attr_live := x\<rparr>) \<and> one_fault w' \<and> claims l' = claims l \<and>
    (r = IPM_RESULT_SUCCESS \<longrightarrow>
       list_mutex l' = Mut shared_robust Unlocked \<and> count l' = 0 \<and> capacity l' = cap \<and> claim_counter l' = 0) \<and>
    (r = IPM_RESULT_SUCCESS \<and> list_cnd l' = Cnd True 0 \<or>
     quiet w' \<and> \<not> quiet w \<and> (r = IPM_RESULT_SUCCESS \<longrightarrow>
        list_cnd l' = list_cnd l \<and> condition_init_error (errno w) = None))"
proof -
  obtain r1 m w1 where m: "ipm_mutex_init (list_mutex l) w = (r1, m, w1)" by (metis surj_pair)
  note i1 = ipm_mutex_init_one [OF flt m]
  obtain fs where w1: "w1 = w\<lparr>faults := fs\<rparr>" and sub: "set fs \<subseteq> set (faults w)" using i1 by blast
  have nq: "\<not> quiet w" if "r1 \<noteq> IPM_RESULT_SUCCESS"
    using ipm_mutex_init_quiet [of w "list_mutex l"] m that by auto
  obtain r2 c w2 where c: "ipm_condition_init (list_cnd l) w1 = (r2, c, w2)" by (metis surj_pair)
  have "w\<lparr>faults := fs\<rparr> = w\<lparr>faults := fs, attr_live := attr_live w\<rparr>" by (cases w) simp
  then have attr: "\<exists>gs x. w\<lparr>faults := fs\<rparr> = w\<lparr>faults := gs, attr_live := x\<rparr>" by blast
  show ?thesis
  proof (cases "r1 = IPM_RESULT_SUCCESS")
    case False
    then have "r = r1 \<and> l' = l\<lparr>list_mutex := m\<rparr> \<and> w' = w1 \<and> quiet w1 \<and> one_fault w1"
      using init m i1 by (auto simp: claim_list_init_def one_fault_def quiet_def filter_empty_conv)
    then show ?thesis using False nq w1 attr by auto
  next
    case True
    then have o: "one_fault w1" and mm: "m = Mut shared_robust Unlocked" using i1 by auto
    note i2 = ipm_condition_init_one [OF o c]
    have q1: "\<not> quiet w" if "\<not> quiet w1" using that sub by (auto simp: w1 quiet_def)
    obtain gs x where w2: "w2 = w\<lparr>faults := gs, attr_live := x\<rparr>" using i2 by (auto simp: w1)
    have e: "errno w1 = errno w" by (simp add: w1)
    show ?thesis
    proof (cases "r2 = IPM_RESULT_SUCCESS")
      case True
      have "r = r2 \<and> w' = w2 \<and>
          l' = l\<lparr>list_mutex := m, list_cnd := c, capacity := cap, count := 0, claim_counter := 0\<rparr>"
        using init m c \<open>r1 = _\<close> True by (simp add: claim_list_init_def)
      then show ?thesis using i2 q1 e mm True w2 by auto
    next
      case False
      then have "r = r2 \<and> w' = w2 \<and> l' = l\<lparr>list_mutex := m, list_cnd := c\<rparr>"
        using init m c \<open>r1 = _\<close> by (simp add: claim_list_init_def)
      then show ?thesis using i2 q1 False w2 by auto
    qed
  qed
qed

section \<open>The block of the claim list\<close>

text \<open>The block that \<^verbatim>\<open>ipm_memory_create\<close> makes first, and worlds that differ from its creation only in the list.\<close>

abbreviation new_acl :: "('h, 'a) world_scheme \<Rightarrow> ipm_shared_memory_block" where
  "new_acl w \<equiv> new_block 1 4096 IPM_ACCESS_MODE_READ_WRITE (int (next_fd w)) (Addr (Suc (next_map w))) (Addr (next_map w))"

definition acl_world :: "string \<Rightarrow> ('h, 'a) world_scheme \<Rightarrow> ('h, 'a) world_scheme \<Rightarrow> bool" where
  "acl_world bname w v \<longleftrightarrow>
     same_resources (created bname 2 4096 IPM_ACCESS_MODE_READ_WRITE w) v \<and>
     obj_header (objs v (next_obj w)) = obj_header (new_obj bname 2 4096) \<and> obj_len (objs v (next_obj w)) = 8192"

lemma acl_world_facts:
  assumes v: "acl_world bname w v"
  shows "handle_ok v (next_obj w) (new_acl w)" and "list_at (memory (new_acl w)) v = Some (next_obj w)"
    and "names v (make_block_name_based_on_id name_buffer_size bname 2) = Some (next_obj w)"
proof -
  have h: "handle_ok (created bname 2 4096 IPM_ACCESS_MODE_READ_WRITE w) (next_obj w) (new_acl w)"
    by (simp add: handle_ok_def new_block_def created_def)
  then show hv: "handle_ok v (next_obj w) (new_acl w)"
    using handle_ok_cong [of v "created bname 2 4096 IPM_ACCESS_MODE_READ_WRITE w"] v
    by (simp add: acl_world_def same_resources_def)
  show "list_at (memory (new_acl w)) v = Some (next_obj w)"
    by (rule list_at_handle(1) [OF hv]) (use v in \<open>simp_all add: acl_world_def new_block_def\<close>)
  show "names v (make_block_name_based_on_id name_buffer_size bname 2) = Some (next_obj w)"
    using v by (simp add: acl_world_def same_resources_def created_def)
qed

lemma acl_world_list: "acl_world bname w v \<Longrightarrow> acl_world bname w (set_list (next_obj w) l v)"
  by (simp add: acl_world_def same_resources_def set_list_def)

lemma acl_world_report [simp]: "acl_world bname w (mem_report ctx msg line f v) = acl_world bname w v"
  by (simp add: acl_world_def same_resources_def)

lemma acl_world_obj: "good_name bname \<Longrightarrow> acl_world bname w v \<Longrightarrow> block_obj bname 2 (objs v (next_obj w))"
  using block_obj_new [of bname 4096 2]
  by (simp add: acl_world_def block_obj_def word_less_nat_alt new_obj_list)

text \<open>Closing it again, without a callback, takes everything back that its creation took.\<close>

lemma acl_close:
  assumes ker: "kernel_ok w" and nm: "good_name bname"
    and new: "names w (make_block_name_based_on_id name_buffer_size bname 2) = None"
    and v: "acl_world bname w v" and q: "quiet v"
  shows "\<exists>v'. shared_memory_block_close ctx (new_acl w) None v = Ret (IPM_RESULT_SUCCESS, poisoned, v') \<and>
    same_resources w v'"
proof -
  let ?ic = "next_obj w" and ?nb = "make_block_name_based_on_id name_buffer_size bname 2"
  note f = acl_world_facts [OF v]
  have hd: "obj_header (objs v ?ic) = new_header bname 2 4096 zero_header"
    using v by (simp add: acl_world_def new_obj_def resize_obj_def empty_obj_def)
  note obj = acl_world_obj [OF nm v]
  let ?v' = "unlinked ?nb ?ic (\<lambda>l. l) (detached ?ic (new_acl w) v)"
  have "shared_memory_block_close ctx (new_acl w) None v = Ret (IPM_RESULT_SUCCESS, poisoned, ?v')"
    by (rule block_close_last [OF f(1) obj nm _ _ q f(3)])
      (simp_all add: hd new_header_def new_block_def no_list_edit)
  moreover have "same_resources w ?v'"
    using v new kernel_ok_fresh [OF ker]
    by (auto simp: acl_world_def same_resources_def unlinked_def detached_def new_block_def created_def fun_eq_iff)
  ultimately show ?thesis by blast
qed

lemma uninit_acl:
  assumes "acl_world bname w v"
  shows "\<exists>l. uninit_list (memory (new_acl w)) v = Ret (set_list (next_obj w) l v)"
  using read_write_list [OF acl_world_facts(2) [OF assms]] by (auto simp: uninit_list_def)

section \<open>Creating with at most one fault\<close>

definition fully_created ::
  "string \<Rightarrow> ('h, 'a) world_scheme \<Rightarrow> 'h ipm_memory \<Rightarrow> ('h, 'a) world_scheme \<Rightarrow> bool" where
  "fully_created bname w mem w' \<longleftrightarrow>
     handle_ok w' (Suc (next_obj w)) (real_memory mem) \<and> handle_ok w' (next_obj w) (active_claims mem) \<and>
     names w' = (names w)(make_block_name_based_on_id name_buffer_size bname 2 \<mapsto> next_obj w,
                          make_block_name_based_on_id name_buffer_size bname 1 \<mapsto> Suc (next_obj w)) \<and>
     block_obj bname 1 (objs w' (Suc (next_obj w))) \<and> block_obj bname 2 (objs w' (next_obj w))"

lemma acl_close_new:
  assumes "kernel_ok w" and "good_name bname"
    and "\<forall>bid \<in> {1, 2}. names w (make_block_name_based_on_id name_buffer_size bname bid) = None"
    and "acl_world bname w u" and "quiet u"
  obtains v' where "shared_memory_block_close ctx (new_acl w) None u = Ret (IPM_RESULT_SUCCESS, poisoned, v')"
    and "same_resources w v'"
  using acl_close [OF assms(1,2) _ assms(4,5)] assms(3) by auto

text \<open>The second half of the creation, on a world \<open>v\<close> in which the claim list was initialised.\<close>

lemma create_real_cases:
  assumes ker: "kernel_ok w" and nm: "good_name bname"
    and new: "\<forall>bid \<in> {1, 2}. names w (make_block_name_based_on_id name_buffer_size bname bid) = None"
    and sz: "0 < sz" "unat sz mod 4096 = 0" "unat sz + 4096 < 2 ^ 63"
    and on: "on_list (memory (new_acl w))
      (\<lambda>l w. let (r, l, w) = claim_list_init l real_claim_capacity w in Ret (r, l, w)) u = Ret (IPM_RESULT_SUCCESS, v)"
    and v: "acl_world bname w v" "one_fault v" "kernel_ok v" "next_obj v = Suc (next_obj w)"
  shows
    "(\<exists>mem w'. create_with_list ctx sz bname acc this (new_acl w) u = Ret (IPM_RESULT_SUCCESS, Some mem, w') \<and>
        fully_created bname w mem w' \<and> obj_list (objs w' (next_obj w)) = obj_list (objs v (next_obj w))) \<or>
     (\<exists>r w'. create_with_list ctx sz bname acc this (new_acl w) u = Ret (r, None, w') \<and>
        r \<noteq> IPM_RESULT_SUCCESS \<and> same_resources w w' \<and> \<not> quiet v) \<or>
     create_with_list ctx sz bname acc this (new_acl w) u = UB \<and> fails_at 3 v"
proof -
  let ?ic = "next_obj w" and ?nb = "make_block_name_based_on_id name_buffer_size bname"
  have names: "names v = (names w)(?nb 2 \<mapsto> ?ic)"
    using v(1) by (simp add: acl_world_def same_resources_def created_def)
  have "?nb 1 \<noteq> ?nb 2" using block_name_inj [of bname bname 1 2] nm by (auto simp: good_name_def)
  then have "names v (?nb 1) = None" using new by (simp add: names)
  from block_create_cases [OF v(3,2) nm sz this, of ctx acc poisoned]
  show ?thesis
  proof (elim disjE exE conjE)
    fix fs
    let ?real = "new_block 1 sz acc (int (next_fd v)) (Addr (Suc (next_map v))) (Addr (next_map v))"
    let ?w' = "(created bname 1 sz acc v)\<lparr>faults := fs\<rparr>"
    let ?mem = "\<lparr>mem_at = this, mem_ctx = ctx, handle_name = strncpy_name bname, real_memory = ?real,
                  active_claims = new_acl w\<rparr>"
    assume c: "shared_memory_block_create ctx bname 1 sz acc poisoned v = Ret (IPM_RESULT_SUCCESS, ?real, ?w')"
    have run: "create_with_list ctx sz bname acc this (new_acl w) u = Ret (IPM_RESULT_SUCCESS, Some ?mem, ?w')"
      using on c by (simp add: create_with_list_def IPM_MEMORY_BLOCK_REAL_MEMORY_def)
    have obj: "objs ?w' ?ic = objs v ?ic" "objs ?w' (Suc ?ic) = new_obj bname 1 sz"
      by (simp_all add: created_def v(4))
    have "handle_ok ?w' (Suc ?ic) ?real" by (simp add: handle_ok_def new_block_def created_def v(4))
    moreover have "handle_ok ?w' ?ic (new_acl w)"
      by (rule handle_ok_created [OF v(3) acl_world_facts(1) [OF v(1)]])
    moreover have "names ?w' = (names w)(?nb 2 \<mapsto> ?ic, ?nb 1 \<mapsto> Suc ?ic)" by (simp add: created_def names v(4))
    ultimately have "fully_created bname w ?mem ?w'"
      using block_obj_new [OF nm sz(1), of 1] acl_world_obj [OF nm v(1)] obj by (simp add: fully_created_def)
    then show ?thesis using run obj(1) by metis
  next
    fix r w1
    assume c: "shared_memory_block_create ctx bname 1 sz acc poisoned v = Ret (r, poisoned, w1)"
      and r: "r \<noteq> IPM_RESULT_SUCCESS" and nq: "\<not> quiet v" and same: "same_resources v w1"
      and keep: "\<forall>j < next_obj v. objs w1 j = objs v j" and q: "quiet w1"
    define w2 where "w2 = mem_report ctx ([Lit ''Could not create the shared memory block '', Str bname] @ result_reason r) 68
                  ''ipm_memory_create'' w1"
    have a2: "acl_world bname w w2"
      using v(1,4) same keep by (simp add: acl_world_def same_resources_def w2_def)
    then obtain l where un: "uninit_list (memory (new_acl w)) w2 = Ret (set_list ?ic l w2)" using uninit_acl by blast
    have "quiet (set_list ?ic l w2)" using q by (simp add: set_list_def w2_def quiet_def)
    then obtain w3 where "shared_memory_block_close ctx (new_acl w) None (set_list ?ic l w2) =
        Ret (IPM_RESULT_SUCCESS, poisoned, w3)" "same_resources w w3"
      using acl_close_new [OF ker nm new acl_world_list [OF a2]] by blast
    then show ?thesis using on c r un nq
      by (simp add: create_with_list_def w2_def same_resources_def IPM_MEMORY_BLOCK_REAL_MEMORY_def)
  next
    assume "shared_memory_block_create ctx bname 1 sz acc poisoned v = UB"
      and "3 < length (faults v)" "faults v ! 3 \<noteq> ENONE"
    then show ?thesis using on
      by (simp add: create_with_list_def IPM_MEMORY_BLOCK_REAL_MEMORY_def fails_at_def)
  qed
qed

lemma create_with_list_cases:
  assumes ker: "kernel_ok w" and nm: "good_name bname"
    and new: "\<forall>bid \<in> {1, 2}. names w (make_block_name_based_on_id name_buffer_size bname bid) = None"
    and sz: "0 < sz" "unat sz mod 4096 = 0" "unat sz + 4096 < 2 ^ 63"
    and v: "v = (created bname 2 4096 IPM_ACCESS_MODE_READ_WRITE w)\<lparr>faults := fs\<rparr>" and flt: "one_fault v"
  shows
    "(\<exists>mem w'. create_with_list ctx sz bname acc this (new_acl w) v = Ret (IPM_RESULT_SUCCESS, Some mem, w') \<and>
        fully_created bname w mem w' \<and>
        (ready (obj_list (objs w' (next_obj w))) \<and> active (obj_list (objs w' (next_obj w))) = [] \<or>
         list_cnd (obj_list (objs w' (next_obj w))) = Cnd_raw \<and> condition_init_error (errno w) = None \<and> fails_at 7 v)) \<or>
     (\<exists>r w'. create_with_list ctx sz bname acc this (new_acl w) v = Ret (r, None, w') \<and>
        r \<noteq> IPM_RESULT_SUCCESS \<and> same_resources w w' \<and> \<not> quiet v) \<or>
     create_with_list ctx sz bname acc this (new_acl w) v = UB \<and> fails_at 11 v"
proof -
  let ?ic = "next_obj w"
  have av: "acl_world bname w v"
    by (simp add: v acl_world_def same_resources_def created_def new_obj_list)
  have ov: "obj_list (objs v ?ic) = zero_claim_list 99" by (simp add: v created_def new_obj_list)
  have ev: "errno v = errno w" by (simp add: v created_def)
  obtain r l v1 where init: "claim_list_init (zero_claim_list 99) 99 v = (r, l, v1)" by (metis surj_pair)
  note i = claim_list_init_one [OF flt init]
  then obtain gs x where v1: "v1 = v\<lparr>faults := gs, attr_live := x\<rparr>" by blast
  have av1: "acl_world bname w v1" using av by (simp add: v1 acl_world_def same_resources_def)
  define v2 where "v2 = set_list ?ic l v1"
  have av2: "acl_world bname w v2" unfolding v2_def by (rule acl_world_list [OF av1])
  have f2: "faults v2 = faults v1" "next_obj v2 = Suc ?ic" "obj_list (objs v2 ?ic) = l"
    by (simp_all add: v2_def set_list_def v1 v created_def)
  have on: "on_list (memory (new_acl w)) (\<lambda>l w. let (r, l, w) = claim_list_init l real_claim_capacity w in Ret (r, l, w)) v =
      Ret (r, v2)"
    unfolding v2_def
    by (rule on_list_Ret [OF acl_world_facts(2) [OF av] _ acl_world_facts(2) [OF av1]]) (simp add: ov init)
  show ?thesis
  proof (cases "r = IPM_RESULT_SUCCESS")
    case False
    have q: "quiet v2" "\<not> quiet v" using i False f2(1) by (auto simp: quiet_def)
    define u where "u = mem_report ctx ([Lit ''Could not initialize the claims list for the memory block '', Str bname] @
                   result_reason r) 57 ''ipm_memory_create'' v2"
    have "quiet u" "acl_world bname w u" using q(1) av2 by (simp_all add: u_def quiet_def)
    then obtain v' where "shared_memory_block_close ctx (new_acl w) None u = Ret (IPM_RESULT_SUCCESS, poisoned, v')"
      "same_resources w v'" using acl_close_new [OF ker nm new] by metis
    then show ?thesis using on False q(2) by (simp add: create_with_list_def u_def same_resources_def)
  next
    case True
    have ker2: "kernel_ok v2"
      using kernel_ok_created [OF ker, where bname = bname and bid = 2 and sz = 4096]
      by (simp add: v2_def set_list_def v1 v kernel_ok_def)
    have o2: "one_fault v2" using i f2(1) by (simp add: one_fault_def)
    have "quiet v2" if "quiet v"
      using claim_list_init_quiet [OF that, of "zero_claim_list 99" 99] init f2(1) by (auto simp: quiet_def)
    moreover have u: "faults v2 = drop 8 (faults v)" "list_cnd l = Cnd True 0 \<or> fails_at 7 v"
      using claim_list_init_uses [of "zero_claim_list 99" 99 v l v1] init True f2(1) by simp_all
    have "ready l \<and> active l = [] \<or> list_cnd l = Cnd_raw \<and> condition_init_error (errno w) = None \<and> fails_at 7 v"
      using i True ev u(2) by (auto simp: ready_def list_wf_def active_def zero_claim_list_def)
    moreover have "fails_at 3 v2 = fails_at 11 v" using fails_at_drop [OF u(1), of 3] by simp
    ultimately show ?thesis
      using create_real_cases [OF ker nm new sz on [unfolded True] av2 o2 ker2 f2(2), of ctx acc this] f2(3) by auto
  qed
qed

text \<open>After its checks and the allocation of the handle, \<^verbatim>\<open>ipm_memory_create\<close> starts with the block of the claim list.\<close>

lemma memory_create_starts:
  assumes nm: "good_name bname" "CHR ''/'' \<notin> set bname" and acc: "valid_access acc" and sz: "0 < sz" "unat sz < 2 ^ 62"
    and alloc: "ipm_alloc ctx sizeof_ipm_memory 31 ''ipm_memory_create'' w = (this, w0)" "this \<noteq> NULL"
  shows "ipm_memory_create ctx sz bname acc w =
      bind_outcome (shared_memory_block_create ctx bname 2 4096 IPM_ACCESS_MODE_READ_WRITE poisoned w0) (\<lambda>(res, acl, w).
        if res \<noteq> IPM_RESULT_SUCCESS then
          (let w = mem_report ctx
                     ([Lit ''Could not create the shared memory block claim list '', Str bname] @ result_reason res)
                     48 ''ipm_memory_create'' w
           in Ret (res, None, free_handle ctx this w))
        else create_with_list ctx (round_size sz) bname acc this acl w)"
proof -
  have "ndebug w0 = ndebug w" using ipm_alloc_frame [OF alloc(1)] by auto
  then show ?thesis
    using nm acc sz(1) alloc rounded_size(1,2) [OF sz]
    by (simp add: ipm_memory_create_def good_name_def page_mask_iff IPM_MEMORY_BLOCK_ACTIVE_CALIMS_def)
qed

lemma memory_create_one_fault:
  assumes ker: "kernel_ok w" and flt: "one_fault w" and nm: "good_name bname" "CHR ''/'' \<notin> set bname"
    and acc: "valid_access acc" and sz: "0 < sz" "unat sz < 2 ^ 62"
    and new: "\<forall>bid \<in> {1, 2}. names w (make_block_name_based_on_id name_buffer_size bname bid) = None"
    and alloc: "ipm_alloc ctx sizeof_ipm_memory 31 ''ipm_memory_create'' w = (this, w0)" "this \<noteq> NULL"
  shows
    "(\<exists>mem w'. ipm_memory_create ctx sz bname acc w = Ret (IPM_RESULT_SUCCESS, Some mem, w') \<and>
        fully_created bname w mem w' \<and>
        (ready (obj_list (objs w' (next_obj w))) \<and> active (obj_list (objs w' (next_obj w))) = [] \<or>
         list_cnd (obj_list (objs w' (next_obj w))) = Cnd_raw \<and> condition_init_error (errno w0) = None \<and> fails_at 16 w)) \<or>
     (\<exists>r w'. ipm_memory_create ctx sz bname acc w = Ret (r, None, w') \<and>
        r \<noteq> IPM_RESULT_SUCCESS \<and> same_resources w w' \<and> \<not> quiet w) \<or>
     ipm_memory_create ctx sz bname acc w = UB \<and> (fails_at 3 w \<or> fails_at 20 w)"
proof -
  let ?sz = "round_size sz" and ?nb = "make_block_name_based_on_id name_buffer_size bname"
  obtain e h where w0: "w0 = w\<lparr>errno := e, host := h\<rparr>" using ipm_alloc_frame [OF alloc(1)] by blast
  have ker0: "kernel_ok w0" using ker by (simp add: w0 kernel_ok_def)
  have flt0: "one_fault w0" using flt by (simp add: w0 one_fault_def)
  have new0: "\<forall>bid \<in> {1, 2}. names w0 (?nb bid) = None" using new by (simp add: w0)
  note rs = rounded_size [OF sz]
  note run = memory_create_starts [OF nm acc sz alloc]
  have quiet0: "quiet w0 = quiet w" by (simp add: w0 quiet_def)
  have eqs: "next_obj w0 = next_obj w" "fully_created bname w0 = fully_created bname w" "same_resources w0 = same_resources w"
    by (simp_all add: w0 fully_created_def same_resources_def fun_eq_iff)
  have p: "0 < (4096 :: size_t)" "unat (4096 :: size_t) mod 4096 = 0" "unat (4096 :: size_t) + 4096 < 2 ^ 63"
    "names w0 (?nb 2) = None"
    using new0 by (simp_all add: word_less_nat_alt)
  from block_create_cases [OF ker0 flt0 nm(1) p, of ctx IPM_ACCESS_MODE_READ_WRITE poisoned]
  show ?thesis
  proof (elim disjE exE conjE)
    fix fs
    let ?v = "(created bname 2 4096 IPM_ACCESS_MODE_READ_WRITE w0)\<lparr>faults := fs\<rparr>"
    assume fs: "set fs \<subseteq> set (faults w0)" "one_fault (w0\<lparr>faults := fs\<rparr>)"
      and c: "shared_memory_block_create ctx bname 2 4096 IPM_ACCESS_MODE_READ_WRITE poisoned w0 =
        Ret (IPM_RESULT_SUCCESS, new_acl w0, ?v)"
    have o: "one_fault ?v" using fs(2) by (simp add: one_fault_def)
    have nq: "\<not> quiet w" if "\<not> quiet ?v" using that fs(1) quiet0 by (auto simp: quiet_def)
    have "faults ?v = drop 9 (faults w)" using block_create_uses [OF c] by (simp add: w0)
    note pos = fails_at_drop [OF this, of 7] fails_at_drop [OF this, of 11]
    show ?thesis
      using create_with_list_cases [OF ker0 nm(1) new0 rs(1-3) refl o, of ctx acc this] run c nq pos
      unfolding eqs by auto
  next
    fix r w'
    assume "shared_memory_block_create ctx bname 2 4096 IPM_ACCESS_MODE_READ_WRITE poisoned w0 = Ret (r, poisoned, w')"
      and "r \<noteq> IPM_RESULT_SUCCESS" and "\<not> quiet w0" and "same_resources w0 w'"
    then show ?thesis using run quiet0 by (simp add: w0 same_resources_def)
  next
    assume "shared_memory_block_create ctx bname 2 4096 IPM_ACCESS_MODE_READ_WRITE poisoned w0 = UB"
      and "3 < length (faults w0)" "faults w0 ! 3 \<noteq> ENONE"
    then show ?thesis using run by (simp add: w0 fails_at_def)
  qed
qed

lemma ipm_alloc_failed:
  assumes "ipm_alloc ctx sizeof_ipm_memory 31 ''ipm_memory_create'' w = (NULL, w0)"
    and "0 < sz" "CHR ''/'' \<notin> set bname" "valid_access acc" "good_name bname"
  shows "ipm_memory_create ctx sz bname acc w = Ret (IPM_RESULT_ERR_OS_OUT_OF_MEMORY, None, w0) \<and> same_resources w w0"
  using assms ipm_alloc_frame [OF assms(1)]
  by (auto simp: ipm_memory_create_def good_name_def same_resources_def)

section \<open>Opening another handle\<close>

text \<open>The handle that opening returns is sound.\<close>

lemma new_handle_ok:
  "handle_ok ((opened i acc w)\<lparr>faults := fs\<rparr>) i
     (new_block aid (block_size (obj_header (objs w i))) acc (int (next_fd w)) (Addr (next_map w)) (Addr (Suc (next_map w))))"
  by (simp add: handle_ok_def new_block_def opened_def)

definition opened_memory ::
  "'h ipm_context \<Rightarrow> ptr \<Rightarrow> string \<Rightarrow> nat \<Rightarrow> nat \<Rightarrow> ipm_access_mode \<Rightarrow> ('h, 'a) world_scheme \<Rightarrow> 'h ipm_memory" where
  "opened_memory ctx this bname ir ic acc w =
     \<lparr>mem_at = this, mem_ctx = ctx, handle_name = strncpy_name bname,
      real_memory = new_block (id_counter (obj_header (objs w ir))) (block_size (obj_header (objs w ir))) acc
        (int (next_fd w)) (Addr (next_map w)) (Addr (Suc (next_map w))),
      active_claims = new_block (id_counter (obj_header (objs w ic))) (block_size (obj_header (objs w ic)))
        IPM_ACCESS_MODE_READ_WRITE (int (Suc (next_fd w))) (Addr (Suc (Suc (next_map w))))
        (Addr (Suc (Suc (Suc (next_map w)))))\<rparr>"

lemma memory_open_run:
  assumes q: "quiet w" and nm: "good_name bname" "CHR ''/'' \<notin> set bname" and acc: "valid_access acc"
    and nb: "names w (make_block_name_based_on_id name_buffer_size bname 1) = Some ir"
      "names w (make_block_name_based_on_id name_buffer_size bname 2) = Some ic" and ne: "ir \<noteq> ic"
    and obj: "block_obj bname 1 (objs w ir)" "block_obj bname 2 (objs w ic)"
    and live: "refcount (obj_header (objs w ir)) \<noteq> 0" "refcount (obj_header (objs w ic)) \<noteq> 0"
    and alloc: "ipm_alloc ctx sizeof_ipm_memory 89 ''ipm_memory_open'' w = (this, w0)" "this \<noteq> NULL"
  shows "\<exists>fs. quiet (w\<lparr>faults := fs\<rparr>) \<and> ipm_memory_open ctx bname acc w =
    Ret (IPM_RESULT_SUCCESS, Some (opened_memory ctx this bname ir ic acc w),
         (opened ic IPM_ACCESS_MODE_READ_WRITE (opened ir acc w0))\<lparr>faults := fs\<rparr>)"
proof -
  let ?rw = IPM_ACCESS_MODE_READ_WRITE and ?m = "opened_memory ctx this bname ir ic acc w"
  obtain e h where w0: "w0 = w\<lparr>errno := e, host := h\<rparr>" using ipm_alloc_frame [OF alloc(1)] by blast
  have len: "length bname \<le> IPM_MAX_NAME_LEN" using nm(1) by (simp add: good_name_def)
  obtain fs where o1: "shared_memory_block_open ctx bname 1 acc poisoned w0 =
      Ret (IPM_RESULT_SUCCESS, real_memory ?m, (opened ir acc w0)\<lparr>faults := fs\<rparr>)"
    and q1: "quiet (w0\<lparr>faults := fs\<rparr>)"
    using block_open_ok [of w0 bname 1 ir ctx acc poisoned] q nb(1) obj(1) live(1) len
    by (auto simp: w0 quiet_def opened_memory_def)
  define w1 where "w1 = (opened ir acc w0)\<lparr>faults := fs\<rparr>"
  have f1: "names w1 = names w" "objs w1 ic = objs w ic" "next_fd w1 = Suc (next_fd w)" "next_map w1 = Suc (Suc (next_map w))"
    using ne by (simp_all add: w1_def opened_def w0)
  have qw1: "quiet w1" using q1 by (simp add: w1_def quiet_def)
  obtain gs where o2: "shared_memory_block_open ctx bname 2 ?rw poisoned w1 =
      Ret (IPM_RESULT_SUCCESS, active_claims ?m, (opened ic ?rw w1)\<lparr>faults := gs\<rparr>)" and q2: "quiet (w1\<lparr>faults := gs\<rparr>)"
    using block_open_ok [OF qw1 len, of 2 ic ctx ?rw poisoned] nb(2) obj(2) live(2) f1
    by (auto simp: opened_memory_def)
  have "ipm_memory_open ctx bname acc w = Ret (IPM_RESULT_SUCCESS, Some ?m, (opened ic ?rw w1)\<lparr>faults := gs\<rparr>)"
    using nm acc len alloc o1 o2
    by (simp add: ipm_memory_open_def IPM_MEMORY_BLOCK_REAL_MEMORY_def IPM_MEMORY_BLOCK_ACTIVE_CALIMS_def
        flip: w1_def) (simp add: opened_memory_def)
  moreover have "(opened ic ?rw w1)\<lparr>faults := gs\<rparr> = (opened ic ?rw (opened ir acc w0))\<lparr>faults := gs\<rparr>"
    by (simp add: w1_def opened_def)
  ultimately show ?thesis using q2 by (auto simp: quiet_def)
qed

lemma memory_open_ok:
  assumes ker: "kernel_ok w" and q: "quiet w" and nm: "good_name bname" "CHR ''/'' \<notin> set bname" and acc: "valid_access acc"
    and nb: "names w (make_block_name_based_on_id name_buffer_size bname 1) = Some ir"
      "names w (make_block_name_based_on_id name_buffer_size bname 2) = Some ic" and ne: "ir \<noteq> ic"
    and obj: "block_obj bname 1 (objs w ir)" "block_obj bname 2 (objs w ic)"
    and live: "refcount (obj_header (objs w ir)) \<noteq> 0" "refcount (obj_header (objs w ic)) \<noteq> 0"
    and alloc: "ipm_alloc ctx sizeof_ipm_memory 89 ''ipm_memory_open'' w = (this, w0)" "this \<noteq> NULL"
  shows "\<exists>mem w'. ipm_memory_open ctx bname acc w = Ret (IPM_RESULT_SUCCESS, Some mem, w') \<and>
    handle_ok w' ir (real_memory mem) \<and> handle_ok w' ic (active_claims mem) \<and>
    access_id (real_memory mem) = id_counter (obj_header (objs w ir)) \<and> access_mode (real_memory mem) = acc \<and>
    mapped_size (real_memory mem) = block_size (obj_header (objs w ir)) \<and> names w' = names w \<and>
    (\<forall>i \<in> {ir, ic}. objs w' i = obj_header_update
       (\<lambda>h. h\<lparr>refcount := refcount h + 1, id_counter := id_counter h + 1\<rparr>) (objs w i)) \<and>
    (\<forall>j b. handle_ok w j b \<longrightarrow> handle_ok w' j b)"
proof -
  let ?m = "opened_memory ctx this bname ir ic acc w"
  obtain e h where w0: "w0 = w\<lparr>errno := e, host := h\<rparr>" using ipm_alloc_frame [OF alloc(1)] by blast
  obtain fs where run: "ipm_memory_open ctx bname acc w = Ret (IPM_RESULT_SUCCESS, Some ?m,
      (opened ic IPM_ACCESS_MODE_READ_WRITE (opened ir acc w0))\<lparr>faults := fs\<rparr>)"
    using memory_open_run [OF assms(2-)] by blast
  define w1 where "w1 = (opened ir acc w0)\<lparr>faults := faults w0\<rparr>"
  define w2 where "w2 = (opened ic IPM_ACCESS_MODE_READ_WRITE w1)\<lparr>faults := fs\<rparr>"
  have w1: "w1 = opened ir acc w0" by (simp add: w1_def opened_def)
  have o1: "objs w1 ic = objs w ic" "next_fd w1 = Suc (next_fd w)" "next_map w1 = Suc (Suc (next_map w))"
    using ne by (simp_all add: w1 opened_def w0)
  have ker0: "kernel_ok w0" using ker by (simp add: w0 kernel_ok_def)
  have "ir < next_obj w0" using ker nb(1) by (auto simp: kernel_ok_def w0 ran_def)
  then have ker1: "kernel_ok w1" unfolding w1_def by (rule kernel_ok_opened [OF ker0])
  have "handle_ok w1 ir (real_memory ?m)"
    unfolding w1_def using new_handle_ok [where i = ir and acc = acc and w = w0] by (simp add: opened_memory_def w0)
  then have "handle_ok w2 ir (real_memory ?m)" unfolding w2_def by (rule handle_ok_opened [OF ker1])
  moreover have "handle_ok w2 ic (active_claims ?m)"
    unfolding w2_def using new_handle_ok [where i = ic and acc = IPM_ACCESS_MODE_READ_WRITE and w = w1] o1 by (simp add: opened_memory_def)
  moreover have "handle_ok w2 j b" if "handle_ok w j b" for j b
  proof -
    have "handle_ok w0 j b" using that handle_ok_cong [of w0 w] by (simp add: w0)
    then show ?thesis unfolding w2_def w1_def
      by (intro handle_ok_opened [OF ker1 [unfolded w1_def]] handle_ok_opened [OF ker0])
  qed
  moreover have "names w2 = names w" "\<forall>i \<in> {ir, ic}. objs w2 i = obj_header_update
       (\<lambda>h. h\<lparr>refcount := refcount h + 1, id_counter := id_counter h + 1\<rparr>) (objs w i)"
    using ne by (simp_all add: w2_def w1 opened_def w0)
  ultimately show ?thesis using run
    by (intro exI [of _ ?m] exI [of _ w2]) (simp add: w2_def w1, simp add: opened_memory_def new_block_def)
qed

section \<open>Leaving a handle without closing it\<close>

definition forgotten :: "ipm_shared_memory_block \<Rightarrow> ('h, 'a) world_scheme \<Rightarrow> ('h, 'a) world_scheme" where
  "forgotten blk w =
     w\<lparr>fds := (fds w)(mem_fd blk := None),
       maps := (case (header blk, memory blk) of
                  (Addr a, Addr b) \<Rightarrow> (maps w)(a := None, b := None) | _ \<Rightarrow> maps w)\<rparr>"

lemma block_clean_ok:
  assumes h: "handle_ok w i blk" and obj: "block_obj bname bid (objs w i)"
    and sz: "mapped_size blk = block_size (obj_header (objs w i))"
  shows "shared_memory_block_clean blk w = Ret (IPM_RESULT_SUCCESS, poisoned, forgotten blk w)"
proof -
  obtain a b where ab: "header blk = Addr a" "memory blk = Addr b" "a \<noteq> b" "has_ownership blk = 0"
    "fds w (mem_fd blk) = Some i"
    "maps w a = Some \<lparr>map_obj = i, map_off = 0, map_len = 4096, map_write = True, map_gone = 0\<rparr>"
    "maps w b = Some \<lparr>map_obj = i, map_off = 4096, map_len = page_ceil (unat (mapped_size blk)),
                      map_write = (access_mode blk \<noteq> IPM_ACCESS_MODE_READ_ONLY), map_gone = 0\<rparr>"
    using h by (rule handle_okE)
  note d = block_objD [OF obj]
  let ?w1 = "w\<lparr>fds := (fds w)(mem_fd blk := None)\<rparr>"
  let ?sz = "block_size (obj_header (objs w i))"
  have c: "sys_close (mem_fd blk) w = ?w1" using ab(5) by (simp add: sys_close_def)
  have h1: "header_at (Addr a) ?w1 = Some i" by (rule header_at_mapped) (use ab d in simp_all)
  have "maps ?w1 b = maps w b" by simp
  from munmap_whole [OF ab(7) [folded this], of ?sz]
  have "munmap (Addr b) ?sz ?w1 = ?w1\<lparr>maps := (maps w)(b := None)\<rparr>" using d(2) sz by simp
  moreover have "maps (?w1\<lparr>maps := (maps w)(b := None)\<rparr>) a =
      Some \<lparr>map_obj = i, map_off = 0, map_len = 4096, map_write = True, map_gone = 0\<rparr>"
    using ab(3,6) by simp
  from munmap_whole [OF this, of IPM_MEMORY_PAGE_SIZE]
  have "munmap (Addr a) IPM_MEMORY_PAGE_SIZE (?w1\<lparr>maps := (maps w)(b := None)\<rparr>) = forgotten blk w"
    using ab(1-3) by (simp add: IPM_MEMORY_PAGE_SIZE_def forgotten_def fun_upd_twist)
  ultimately show ?thesis
    using ab(1,2,4) c h1 by (simp add: shared_memory_block_clean_def read_header_def Let_def)
qed

lemma memory_clean_ok:
  assumes ok: "mem_ok w ir ic mem" and obj: "block_obj bname 1 (objs w ir)" "block_obj bname 2 (objs w ic)"
    and sz: "mapped_size (real_memory mem) = block_size (obj_header (objs w ir))"
      "block_size (obj_header (objs w ic)) = claim_size"
  shows "ipm_memory_clean mem w =
    Ret (free_handle (mem_ctx mem) (mem_at mem) (forgotten (real_memory mem) (forgotten (active_claims mem) w)))"
proof -
  let ?acl = "active_claims mem" and ?real = "real_memory mem"
  have hc: "handle_ok w ic ?acl" and hr: "handle_ok w ir ?real" and ne: "ir \<noteq> ic"
    and mc: "mapped_size ?acl = claim_size"
    using ok by (simp_all add: mem_ok_def)
  have "shared_memory_block_clean ?acl w = Ret (IPM_RESULT_SUCCESS, poisoned, forgotten ?acl w)"
    by (rule block_clean_ok [OF hc obj(2)]) (simp add: mc sz)
  moreover have "handle_ok (detached ic ?acl w) ir ?real" by (rule handle_ok_detached_other [OF hr hc ne])
  then have "handle_ok (forgotten ?acl w) ir ?real"
    using handle_ok_cong [of "forgotten ?acl w" "detached ic ?acl w"] by (simp add: forgotten_def detached_def)
  then have "shared_memory_block_clean ?real (forgotten ?acl w) =
      Ret (IPM_RESULT_SUCCESS, poisoned, forgotten ?real (forgotten ?acl w))"
    by (rule block_clean_ok) (use obj(1) sz(1) in \<open>simp_all add: forgotten_def\<close>)
  ultimately show ?thesis by (simp add: ipm_memory_clean_def)
qed

section \<open>A sample memory\<close>

lemma sample_memory:
  obtains mem w where "ipm_memory_create test_ctx 69 cool_block IPM_ACCESS_MODE_READ_WRITE sample_world =
      Ret (IPM_RESULT_SUCCESS, Some mem, w)"
    "mem_ok w 1 0 mem" "kernel_ok w" "quiet w" "obj_list (objs w 0) = fresh_list"
    "block_obj cool_block 2 (objs w 0)" "block_obj cool_block 1 (objs w 1)"
    "refcount (obj_header (objs w 0)) = 1" "refcount (obj_header (objs w 1)) = 1"
    "block_size (obj_header (objs w 0)) = claim_size" "block_size (obj_header (objs w 1)) = 4096"
    "names w (make_block_name_based_on_id name_buffer_size cool_block 1) = Some 1"
    "names w (make_block_name_based_on_id name_buffer_size cool_block 2) = Some 0"
    "mapped_size (real_memory mem) = 4096" "access_mode (real_memory mem) = IPM_ACCESS_MODE_READ_WRITE"
    "mem_ctx mem = test_ctx" "segment_mutex (obj_header (objs w 1)) = Mut shared_robust Unlocked"
    "0 < malloc_budget (host w)" "ndebug w = False" "errno w = errno sample_world"
proof -
  let ?nb = "make_block_name_based_on_id name_buffer_size cool_block"
  obtain w0 where a: "ipm_alloc test_ctx sizeof_ipm_memory 31 ''ipm_memory_create'' sample_world = (Addr 0, w0)"
    and h0: "0 < malloc_budget (host w0)" "errno w0 = errno sample_world"
    using test_alloc [of sample_world sizeof_ipm_memory 31 "''ipm_memory_create''"] by (simp add: sample_world_def)
  have p: "valid_access IPM_ACCESS_MODE_READ_WRITE" "0 < (69 :: size_t)" "unat (69 :: size_t) < 2 ^ 62"
    by (simp_all add: valid_access_def word_less_nat_alt)
  have "unat (round_size 69) = page_ceil (unat (69 :: size_t))" by (rule round_size_exact) simp
  then have "unat (round_size 69) = unat (4096 :: size_t)" by (simp add: page_ceil_def)
  then have r: "round_size 69 = 4096" by (simp only: word_unat_eq_iff)
  have n: "next_obj sample_world = 0" "ndebug sample_world = False" "\<forall>bid \<in> {1, 2}. names sample_world (?nb bid) = None"
    by (simp_all add: sample_world_def)
  have nz: "Addr 0 \<noteq> NULL" by simp
  have ne: "?nb 1 \<noteq> ?nb 2" using block_name_inj [of cool_block cool_block 1 2] cool_block_ok(1) by (auto simp: good_name_def)
  obtain mem w where "ipm_memory_create test_ctx 69 cool_block IPM_ACCESS_MODE_READ_WRITE sample_world =
      Ret (IPM_RESULT_SUCCESS, Some mem, w)"
    "mem_ok w 1 0 mem" "kernel_ok w" "quiet w" "obj_list (objs w 0) = fresh_list"
    "block_obj cool_block 2 (objs w 0)" "block_obj cool_block 1 (objs w 1)"
    "refcount (obj_header (objs w 0)) = 1" "refcount (obj_header (objs w 1)) = 1"
    "block_size (obj_header (objs w 0)) = claim_size" "block_size (obj_header (objs w 1)) = 4096"
    "names w = (names sample_world)(?nb 2 \<mapsto> 0, ?nb 1 \<mapsto> 1)"
    "mapped_size (real_memory mem) = 4096" "access_mode (real_memory mem) = IPM_ACCESS_MODE_READ_WRITE"
    "mem_ctx mem = test_ctx" "segment_mutex (obj_header (objs w 1)) = Mut shared_robust Unlocked" "host w = host w0" "errno w = errno w0" "ndebug w = ndebug sample_world"
    using memory_create_ok [OF sample_world_ok(1,2) cool_block_ok(1) cool_block_no_slash p n(3) a nz]
    unfolding n(1) r by auto
  then show thesis using that [of mem w] h0 n ne by simp
qed

section \<open>Properties\<close>

text \<open>
  C14. Creating a memory, with valid arguments, a size below $2^{62}$ and names that are free, is all or nothing when at most one system call fails. If the handle cannot be allocated that is
  the result. Otherwise either both blocks, their names and the handle are complete and the claim list is empty and
  ready, or an error is returned, which takes a failure, and no name, descriptor or mapping is left. There are two exceptions,
  each of them for one place in the order of the system calls. Behaviour is undefined if the call that fails is the
  mapping of the header of the first block (call 3, from 0) or of the second one (call 20), whose result is then written through.
  Success is returned for a memory without a condition variable if it is \<^verbatim>\<open>pthread_cond_init\<close> (call 16) and
  \<^verbatim>\<open>errno\<close> held a value that \<^verbatim>\<open>ipm_condition_init\<close> does not list.
\<close>

theorem memory_create_all_or_nothing:
  assumes "kernel_ok w" and "one_fault w" and "good_name bname" and "CHR ''/'' \<notin> set bname"
    and "valid_access acc" and "0 < sz" and "unat sz < 2 ^ 62"
    and "\<forall>bid \<in> {1, 2}. names w (make_block_name_based_on_id name_buffer_size bname bid) = None"
    and "ipm_alloc ctx sizeof_ipm_memory 31 ''ipm_memory_create'' w = (this, w0)"
  shows
    "if this = NULL
     then ipm_memory_create ctx sz bname acc w = Ret (IPM_RESULT_ERR_OS_OUT_OF_MEMORY, None, w0) \<and> same_resources w w0
     else
     (\<exists>mem w'. ipm_memory_create ctx sz bname acc w = Ret (IPM_RESULT_SUCCESS, Some mem, w') \<and>
        fully_created bname w mem w' \<and>
        (ready (obj_list (objs w' (next_obj w))) \<and> active (obj_list (objs w' (next_obj w))) = [] \<or>
         list_cnd (obj_list (objs w' (next_obj w))) = Cnd_raw \<and> condition_init_error (errno w0) = None \<and> fails_at 16 w)) \<or>
     (\<exists>r w'. ipm_memory_create ctx sz bname acc w = Ret (r, None, w') \<and>
        r \<noteq> IPM_RESULT_SUCCESS \<and> same_resources w w' \<and> \<not> quiet w) \<or>
     ipm_memory_create ctx sz bname acc w = UB \<and> (fails_at 3 w \<or> fails_at 20 w)"
proof (cases "this = NULL")
  case True
  then show ?thesis using ipm_alloc_failed assms(3-6,9) by simp
next
  case False
  then show ?thesis using memory_create_one_fault [OF assms False] by simp
qed

theorem memory_create_all_or_nothing_witness:
  "\<exists>mem w'. ipm_memory_create test_ctx 69 cool_block IPM_ACCESS_MODE_READ_WRITE sample_world =
      Ret (IPM_RESULT_SUCCESS, Some mem, w') \<and> fully_created cool_block sample_world mem w'"
proof -
  obtain w0 where a: "ipm_alloc test_ctx sizeof_ipm_memory 31 ''ipm_memory_create'' sample_world = (Addr 0, w0)"
    using sample_world_alloc by blast
  have p: "valid_access IPM_ACCESS_MODE_READ_WRITE" "0 < (69 :: size_t)" "unat (69 :: size_t) < 2 ^ 62"
    by (simp_all add: valid_access_def word_less_nat_alt)
  have n: "\<forall>bid \<in> {1, 2}. names sample_world (make_block_name_based_on_id name_buffer_size cool_block bid) = None"
    by (simp add: sample_world_def)
  show ?thesis
    using memory_create_all_or_nothing [OF sample_world_ok(1,3) cool_block_ok(1) cool_block_no_slash p n a]
      sample_world_ok(2) by (auto dest: fails_at_not_quiet)
qed

text \<open>
  C12. Opening a complete memory, with both names there and neither reference count zero, when no system call fails and the handle
  can be allocated, succeeds for a valid name and access mode and adds a handle: it takes one reference of each block, its access id
  is the value of the counter of the memory's block, which goes up by one, and nothing else of the blocks changes, in particular
  not the list of claims. No name changes, and all handles that were sound stay sound.
\<close>

theorem memory_open_adds_handle:
  assumes "kernel_ok w" and "quiet w" and "good_name bname" and "CHR ''/'' \<notin> set bname" and "valid_access acc"
    and "names w (make_block_name_based_on_id name_buffer_size bname 1) = Some ir"
    and "names w (make_block_name_based_on_id name_buffer_size bname 2) = Some ic" and "ir \<noteq> ic"
    and "block_obj bname 1 (objs w ir)" and "block_obj bname 2 (objs w ic)"
    and "refcount (obj_header (objs w ir)) \<noteq> 0" and "refcount (obj_header (objs w ic)) \<noteq> 0"
    and "ipm_alloc ctx sizeof_ipm_memory 89 ''ipm_memory_open'' w = (this, w0)" and "this \<noteq> NULL"
  shows "\<exists>mem w'. ipm_memory_open ctx bname acc w = Ret (IPM_RESULT_SUCCESS, Some mem, w') \<and>
    handle_ok w' ir (real_memory mem) \<and> handle_ok w' ic (active_claims mem) \<and>
    access_id (real_memory mem) = id_counter (obj_header (objs w ir)) \<and> access_mode (real_memory mem) = acc \<and>
    mapped_size (real_memory mem) = block_size (obj_header (objs w ir)) \<and> names w' = names w \<and>
    (\<forall>i \<in> {ir, ic}. objs w' i = obj_header_update
       (\<lambda>h. h\<lparr>refcount := refcount h + 1, id_counter := id_counter h + 1\<rparr>) (objs w i)) \<and>
    (\<forall>j b. handle_ok w j b \<longrightarrow> handle_ok w' j b)"
  by (rule memory_open_ok [OF assms])

theorem memory_open_adds_handle_witness:
  "\<exists>mem w mem' w'. ipm_memory_create test_ctx 69 cool_block IPM_ACCESS_MODE_READ_WRITE sample_world =
      Ret (IPM_RESULT_SUCCESS, Some mem, w) \<and>
    ipm_memory_open test_ctx cool_block IPM_ACCESS_MODE_READ_ONLY w = Ret (IPM_RESULT_SUCCESS, Some mem', w') \<and>
    refcount (obj_header (objs w' 1)) = 2 \<and> handle_ok w' 1 (real_memory mem) \<and> handle_ok w' 1 (real_memory mem')"
proof -
  obtain mem w where m: "ipm_memory_create test_ctx 69 cool_block IPM_ACCESS_MODE_READ_WRITE sample_world =
      Ret (IPM_RESULT_SUCCESS, Some mem, w)" "kernel_ok w" "quiet w"
    "names w (make_block_name_based_on_id name_buffer_size cool_block 1) = Some 1"
    "names w (make_block_name_based_on_id name_buffer_size cool_block 2) = Some 0"
    "block_obj cool_block 1 (objs w 1)" "block_obj cool_block 2 (objs w 0)"
    and r: "refcount (obj_header (objs w 1)) = 1" "refcount (obj_header (objs w 0)) = 1"
    and h: "mem_ok w 1 0 mem" "0 < malloc_budget (host w)" by (rule sample_memory)
  obtain a w0 where a: "ipm_alloc test_ctx sizeof_ipm_memory 89 ''ipm_memory_open'' w = (Addr a, w0)"
    using test_alloc [of w sizeof_ipm_memory 89 "''ipm_memory_open''"] h(2) by auto
  have v: "valid_access IPM_ACCESS_MODE_READ_ONLY" by (simp add: valid_access_def)
  show ?thesis
    using memory_open_adds_handle [OF m(2,3) cool_block_ok(1) cool_block_no_slash v m(4,5) _ m(6,7) _ _ a] m(1) r h(1)
    by (fastforce simp: mem_ok_def)
qed

text \<open>
  C23. Leaving an inherited handle after \<^verbatim>\<open>fork\<close>: on a sound handle whose mapped size is still the size of the block,
  \<^verbatim>\<open>ipm_memory_clean\<close> gives back the two descriptors and the four mappings of the handle and no others. No object and no name
  changes, so reference counts and claims stay and the other process still owns the memory.
\<close>

theorem memory_clean_keeps_memory:
  assumes "mem_ok w ir ic mem" and "block_obj bname 1 (objs w ir)" and "block_obj bname 2 (objs w ic)"
    and "mapped_size (real_memory mem) = block_size (obj_header (objs w ir))"
    and "block_size (obj_header (objs w ic)) = claim_size"
  shows "\<exists>w'. ipm_memory_clean mem w = Ret w' \<and> objs w' = objs w \<and> names w' = names w \<and>
    fds w' = (fds w)(mem_fd (active_claims mem) := None, mem_fd (real_memory mem) := None) \<and>
    (\<forall>a. maps w' a = (if Addr a \<in> {header (real_memory mem), memory (real_memory mem),
                                   header (active_claims mem), memory (active_claims mem)}
                      then None else maps w a)) \<and> strays w' = strays w"
proof -
  have hc: "handle_ok w ic (active_claims mem)" and hr: "handle_ok w ir (real_memory mem)"
    using assms(1) by (simp_all add: mem_ok_def)
  let ?w' = "forgotten (real_memory mem) (forgotten (active_claims mem) w)"
  have "maps ?w' a = (if Addr a \<in> {header (real_memory mem), memory (real_memory mem),
      header (active_claims mem), memory (active_claims mem)} then None else maps w a)" for a
    using hc hr by (auto simp: forgotten_def elim!: handle_okE)
  then show ?thesis using memory_clean_ok [OF assms] by (simp add: forgotten_def)
qed

theorem memory_clean_keeps_memory_witness:
  "\<exists>mem w w'. ipm_memory_create test_ctx 69 cool_block IPM_ACCESS_MODE_READ_WRITE sample_world =
      Ret (IPM_RESULT_SUCCESS, Some mem, w) \<and> ipm_memory_clean mem w = Ret w' \<and>
    names w' (make_block_name_based_on_id name_buffer_size cool_block 1) = Some 1 \<and>
    refcount (obj_header (objs w' 1)) = 1 \<and> fds w' (mem_fd (real_memory mem)) = None"
proof -
  obtain mem w where m: "ipm_memory_create test_ctx 69 cool_block IPM_ACCESS_MODE_READ_WRITE sample_world =
      Ret (IPM_RESULT_SUCCESS, Some mem, w)" "mem_ok w 1 0 mem" "block_obj cool_block 1 (objs w 1)" "block_obj cool_block 2 (objs w 0)"
    "mapped_size (real_memory mem) = 4096" "block_size (obj_header (objs w 1)) = 4096"
    "block_size (obj_header (objs w 0)) = claim_size" "refcount (obj_header (objs w 1)) = 1"
    "names w (make_block_name_based_on_id name_buffer_size cool_block 1) = Some 1" by (rule sample_memory)
  show ?thesis using memory_clean_keeps_memory [OF m(2-4) _ m(7)] m(1,5,6,8,9) by fastforce
qed

text \<open>
  Requests that are refused before the claim list is looked at: writing through a handle that was opened for reading,
  and a region that ends, without wrapping, behind the memory. The result tells which, no id is handed out, and
  no object, name, descriptor or mapping changes.
\<close>

lemma claim_region_rejects:
  assumes "valid_access acc" and "0 < cnt"
    and "access_mode (real_memory mem) = IPM_ACCESS_MODE_READ_ONLY \<and> acc = IPM_ACCESS_MODE_READ_WRITE \<or>
      unat off + unat cnt < 2 ^ 64 \<and> unat (mapped_size (real_memory mem)) < unat off + unat cnt"
  shows "\<exists>w'. ipm_memory_claim_region mem acc off cnt w =
      Ret (if access_mode (real_memory mem) = IPM_ACCESS_MODE_READ_ONLY \<and> acc = IPM_ACCESS_MODE_READ_WRITE
           then IPM_RESULT_ERR_BAD_ACCESS else IPM_RESULT_ERR_BAD_VALUE, None, w') \<and>
    same_resources w w' \<and> objs w' = objs w"
proof -
  have "unat (off + cnt) = unat off + unat cnt" if "unat off + unat cnt < 2 ^ 64"
    using that by (intro unat_plus_no_wrap) simp
  then show ?thesis using assms
    by (auto simp: ipm_memory_claim_region_def same_resources_def word_less_nat_alt)
qed

text \<open>
  C37. The check of the end of a region is done on the wrapped sum: a region whose end passes $2^{64}$ and comes back
  inside the memory is accepted, and the claim is granted although hardly any of it lies in the memory.
\<close>

theorem claim_region_accepts_wrapped:
  assumes "mem_ok w ir ic mem" and "ready (obj_list (objs w ic))" and "valid_access acc" and "0 < cnt"
    and "\<not> (access_mode (real_memory mem) = IPM_ACCESS_MODE_READ_ONLY \<and> acc = IPM_ACCESS_MODE_READ_WRITE)"
    and "grantable (region_claim acc off cnt (access_id (real_memory mem)) (obj_list (objs w ic))) (obj_list (objs w ic))"
    and "2 ^ 64 \<le> unat off + unat cnt" and "unat off + unat cnt \<le> 2 ^ 64 + unat (mapped_size (real_memory mem))"
  shows "\<exists>l w'. ipm_memory_claim_region mem acc off cnt w =
      Ret (IPM_RESULT_SUCCESS, Some (claim_counter (obj_list (objs w ic))), w') \<and> obj_list (objs w' ic) = l \<and>
    region_claim acc off cnt (access_id (real_memory mem)) (obj_list (objs w ic)) \<in> set (active l)"
proof -
  have "unat (off + cnt) = unat off + unat cnt - 2 ^ 64"
    using unat_plus_wraps [of off cnt] assms(7) by simp
  then have le: "off + cnt \<le> mapped_size (real_memory mem)" using assms(8) by (simp add: word_le_nat_alt)
  obtain l where l: "ipm_memory_claim_region mem acc off cnt w =
      Ret (IPM_RESULT_SUCCESS, Some (claim_counter (obj_list (objs w ic))), set_list ic l w)"
    "active l = added (region_claim acc off cnt (access_id (real_memory mem)) (obj_list (objs w ic))) (obj_list (objs w ic))"
    by (rule memory_claim_ok [OF assms(1-5) le assms(6)])
  then show ?thesis by (auto simp: set_list_def added_def)
qed

theorem claim_region_accepts_wrapped_witness:
  "\<exists>mem w w'. ipm_memory_create test_ctx 69 cool_block IPM_ACCESS_MODE_READ_WRITE sample_world =
      Ret (IPM_RESULT_SUCCESS, Some mem, w) \<and>
    ipm_memory_claim_region mem IPM_ACCESS_MODE_READ_WRITE 32 (- 16) w = Ret (IPM_RESULT_SUCCESS, Some 0, w')"
proof -
  obtain mem w where m: "ipm_memory_create test_ctx 69 cool_block IPM_ACCESS_MODE_READ_WRITE sample_world =
      Ret (IPM_RESULT_SUCCESS, Some mem, w)" "mem_ok w 1 0 mem" "obj_list (objs w 0) = fresh_list"
    "mapped_size (real_memory mem) = 4096" "access_mode (real_memory mem) = IPM_ACCESS_MODE_READ_WRITE"
    by (rule sample_memory)
  have u: "unat (- 16 :: size_t) = 2 ^ 64 - 16" by (simp add: unat_word_ariths unsigned_minus_1_eq_mask)
  have r: "ready (obj_list (objs w 0))" "active (obj_list (objs w 0)) = []" "claim_counter (obj_list (objs w 0)) = 0"
    "count (obj_list (objs w 0)) \<noteq> capacity (obj_list (objs w 0))"
    using m(3) fresh_list_ready by (simp_all add: fresh_list_def)
  have v: "valid_access IPM_ACCESS_MODE_READ_WRITE" "0 < (- 16 :: size_t)"
    using u by (simp_all add: valid_access_def word_less_nat_alt)
  show ?thesis
    using claim_region_accepts_wrapped [OF m(2) r(1) v, where off = 32] m(1,4,5) r u
    by (auto simp: grantable_def)
qed

text \<open>
  C33. Growing: a size that rounds to less than the handle's mapped size is refused with \<^verbatim>\<open>IPM_RESULT_ERR_BAD_VALUE\<close> and
  changes nothing. A larger size, when no call fails and nobody else grew the block (sizes are below $2^{62}$), gives the block and the handle
  the rounded size and the object the room for it; of the header only the size changes, so the segment mutex is free again and
  the reference count and the counter of ids are kept, and no other object changes; but the handle's pointer is null afterwards.
\<close>

theorem memory_resize_grow_outcome:
  assumes "handle_ok w ir (real_memory mem)" and "block_obj bname 1 (objs w ir)" and "quiet w"
    and "segment_mutex (obj_header (objs w ir)) = Mut shared_robust Unlocked"
    and "mapped_size (real_memory mem) = block_size (obj_header (objs w ir))"
    and "unat new_size < 2 ^ 62" and "round_size new_size \<noteq> mapped_size (real_memory mem)"
  shows "if round_size new_size < mapped_size (real_memory mem)
    then \<exists>w'. ipm_memory_resize_grow mem new_size w = Ret (IPM_RESULT_ERR_BAD_VALUE, mem, w') \<and>
           same_resources w w' \<and> objs w' = objs w
    else \<exists>mem' w'. ipm_memory_resize_grow mem new_size w = Ret (IPM_RESULT_SUCCESS, mem', w') \<and>
           obj_header (objs w' ir) = (obj_header (objs w ir))\<lparr>block_size := round_size new_size\<rparr> \<and>
           obj_len (objs w' ir) = unat (round_size new_size) + 4096 \<and> (\<forall>j. j \<noteq> ir \<longrightarrow> objs w' j = objs w j) \<and>
           mapped_size (real_memory mem') = round_size new_size \<and> unat new_size \<le> unat (round_size new_size) \<and>
           block_obj bname 1 (objs w' ir) \<and> ipm_memory_pointer mem' = NULL"
proof (cases "round_size new_size < mapped_size (real_memory mem)")
  case True
  then show ?thesis by (simp add: ipm_memory_resize_grow_def Let_def same_resources_def)
next
  case False
  let ?n = "round_size new_size" and ?b = "real_memory mem"
  have psz: "unat ?n = page_ceil (unat new_size)" using assms(6) by (intro round_size_exact) simp
  have al: "unat ?n mod 4096 = 0" using psz by (simp add: page_ceil_def)
  have "unat ?n \<le> unat new_size + 4095" using psz by (simp add: page_ceil_def)
  then have lt: "unat ?n + 4096 < 2 ^ 63" using assms(6) by simp
  have gt: "block_size (obj_header (objs w ir)) < ?n" using False assms(5,7) by (simp add: order_less_le)
  have pos: "0 < mapped_size ?b" using block_objD(2) [OF assms(2)] assms(5) by simp
  let ?w1 = "w\<lparr>faults := tl (faults w), objs := (objs w)(ir := grown_obj ?n (objs w ir))\<rparr>"
  have grow: "shared_memory_block_resize (mem_ctx mem) ?b ?n w =
      Ret (IPM_RESULT_SUCCESS, ?b\<lparr>mapped_size := ?n, memory := NULL\<rparr>, remapped ir ?b (access_mode ?b) ?w1)"
    using block_resize_grows [OF assms(1-4) gt al lt pos] assms(7) by (simp add: Let_def)
  have "block_obj bname 1 (grown_obj ?n (objs w ir))"
    using assms(2) gt by (auto simp: block_obj_def grown_obj_def resize_obj_def Let_def word_less_nat_alt)
  then show ?thesis
    using False grow psz page_ceil_ge [of "unat new_size"] assms(4)
    by (simp add: ipm_memory_resize_grow_def Let_def remapped_def grown_obj_def resize_obj_def ipm_memory_pointer_def)
qed

text \<open>
  C38. Changing the access of a handle succeeds and the handle records the new access, but \<^verbatim>\<open>ipm_memory_pointer\<close>
  returns null although the remapping worked, and the new mapping can be reached through no handle.
\<close>

theorem memory_change_access_loses_pointer:
  assumes "handle_ok w ir (real_memory mem)" and "block_obj bname 1 (objs w ir)" and "quiet w"
    and "0 < mapped_size (real_memory mem)" and "acc \<noteq> access_mode (real_memory mem)"
  shows "\<exists>mem' w'. ipm_memory_change_access mem acc w = Ret (IPM_RESULT_SUCCESS, mem', w') \<and>
    access_mode (real_memory mem') = acc \<and> ipm_memory_pointer mem' = NULL \<and>
    (\<exists>m. maps w' (next_map w) = Some m \<and> map_obj m = ir \<and> map_off m = 4096) \<and> objs w' = objs w"
proof -
  note d = block_objD [OF assms(2)]
  have "4096 \<le> obj_len (objs w ir)" using d(3) by simp
  note upd = update_mapping_quiet [OF assms(1) this assms(3) d(2) assms(4), of "mem_ctx mem" acc]
  show ?thesis using upd assms(5)
    by (simp add: ipm_memory_change_access_def ipm_memory_pointer_def remapped_def)
qed

theorem memory_resize_grow_outcome_witness:
  "\<exists>mem w mem' w'. ipm_memory_create test_ctx 69 cool_block IPM_ACCESS_MODE_READ_WRITE sample_world =
      Ret (IPM_RESULT_SUCCESS, Some mem, w) \<and>
    ipm_memory_resize_grow mem 5000 w = Ret (IPM_RESULT_SUCCESS, mem', w') \<and> ipm_memory_pointer mem' = NULL"
proof -
  obtain mem w where m: "ipm_memory_create test_ctx 69 cool_block IPM_ACCESS_MODE_READ_WRITE sample_world =
      Ret (IPM_RESULT_SUCCESS, Some mem, w)" "mem_ok w 1 0 mem" "quiet w"
    "block_obj cool_block 1 (objs w 1)" "block_size (obj_header (objs w 1)) = 4096"
    "mapped_size (real_memory mem) = 4096" "segment_mutex (obj_header (objs w 1)) = Mut shared_robust Unlocked"
    by (rule sample_memory)
  have h: "handle_ok w 1 (real_memory mem)" using m(2) by (simp add: mem_ok_def)
  have "unat (round_size 5000) = page_ceil (unat (5000 :: size_t))" by (rule round_size_exact) simp
  then have "unat (round_size 5000) = unat (8192 :: size_t)" by (simp add: page_ceil_def)
  then have r: "round_size 5000 = 8192" by (simp only: word_unat_eq_iff)
  show ?thesis
    using memory_resize_grow_outcome [OF h m(4,3,7), of 5000] m(1,5,6) r by (auto simp: word_less_nat_alt)
qed

theorem memory_change_access_loses_pointer_witness:
  "\<exists>mem w mem' w'. ipm_memory_create test_ctx 69 cool_block IPM_ACCESS_MODE_READ_WRITE sample_world =
      Ret (IPM_RESULT_SUCCESS, Some mem, w) \<and>
    ipm_memory_change_access mem IPM_ACCESS_MODE_READ_ONLY w = Ret (IPM_RESULT_SUCCESS, mem', w') \<and>
    ipm_memory_pointer mem' = NULL"
proof -
  obtain mem w where m: "ipm_memory_create test_ctx 69 cool_block IPM_ACCESS_MODE_READ_WRITE sample_world =
      Ret (IPM_RESULT_SUCCESS, Some mem, w)" "mem_ok w 1 0 mem" "quiet w"
    "block_obj cool_block 1 (objs w 1)" "mapped_size (real_memory mem) = 4096"
    "access_mode (real_memory mem) = IPM_ACCESS_MODE_READ_WRITE"
    by (rule sample_memory)
  have h: "handle_ok w 1 (real_memory mem)" using m(2) by (simp add: mem_ok_def)
  show ?thesis
    using memory_change_access_loses_pointer [OF h m(4,3), of IPM_ACCESS_MODE_READ_ONLY] m(1,5,6)
    by (auto simp: word_less_nat_alt)
qed

end
