(* ===== verification/Library_Machine.thy ===== *)
theory Library_Machine
  imports Library_Spec Memory_Calls
begin

text \<open>
  Any number of processes that use one memory through the calls of \<^verbatim>\<open>source/ipm_memory.c\<close>. They share the name space and
  the objects of the kernel; descriptors, mappings and the heap are their own. The runs are serial: a process makes a call,
  and no other process runs until it has returned; a call that would have to wait does not return and ends the run. (Calls
  that overlap are the subject of \<^verbatim>\<open>Claim_Protocol\<close> for the claims and of \<^verbatim>\<open>Block_Races\<close> for the blocks.) This theory has the machine, the state of the
  specification it stands for, the invariant that ties the two together, and what every kind of call keeps of it.
\<close>

section \<open>Processes and the kernel\<close>

record 'h machine =
  k_names :: "string \<rightharpoonup> nat"
  k_objs :: "nat \<Rightarrow> shm_obj"
  k_next :: nat
  procs :: "nat \<Rightarrow> 'h world"
  open_handles :: "(nat \<times> 'h ipm_memory) list"
  inherited :: "(nat \<times> 'h ipm_memory) list"

text \<open>The world as a process sees it, and the machine after the process has run.\<close>

definition view :: "'h machine \<Rightarrow> nat \<Rightarrow> 'h world" where
  "view mc p = (procs mc p)\<lparr>names := k_names mc, objs := k_objs mc, next_obj := k_next mc\<rparr>"

definition commit :: "nat \<Rightarrow> 'h world \<Rightarrow> 'h machine \<Rightarrow> 'h machine" where
  "commit p w mc =
     mc\<lparr>k_names := names w, k_objs := objs w, k_next := next_obj w, procs := (procs mc)(p := w)\<rparr>"

definition through ::
  "(nat \<times> 'h ipm_memory) list \<Rightarrow> nat \<Rightarrow> (nat \<Rightarrow> 'h ipm_memory \<Rightarrow> 'r outcome) \<Rightarrow> 'r outcome" where
  "through hs k f = (if k < length hs then f (fst (hs ! k)) (snd (hs ! k)) else UB)"

text \<open>The process \<open>q\<close> becomes a copy of \<open>p\<close>, with copies of its handles.\<close>

definition inherits :: "nat \<Rightarrow> nat \<Rightarrow> (nat \<times> 'h ipm_memory) list \<Rightarrow> (nat \<times> 'h ipm_memory) list" where
  "inherits p q hs = map (\<lambda>(_, m). (q, m)) (filter (\<lambda>(r, _). r = p) hs)"

definition forked :: "nat \<Rightarrow> nat \<Rightarrow> 'h machine \<Rightarrow> 'h machine" where
  "forked p q mc =
     mc\<lparr>procs := (procs mc)(q := (procs mc p)\<lparr>self := q\<rparr>),
        inherited := inherited mc @ inherits p q (open_handles mc) @ inherits p q (inherited mc)\<rparr>"

fun library_call ::
  "'h ipm_context \<Rightarrow> string \<Rightarrow> call \<Rightarrow> 'h machine \<Rightarrow> ((ipm_result \<times> ipm_id option) \<times> 'h machine) outcome" where
  "library_call ctx bname (Create p sz acc) mc =
     bind_outcome (ipm_memory_create ctx sz bname acc (view mc p)) (\<lambda>(res, m, w).
     Ret ((res, None), (commit p w mc)\<lparr>open_handles :=
       open_handles mc @ (case m of None \<Rightarrow> [] | Some m \<Rightarrow> [(p, m)])\<rparr>))"
| "library_call ctx bname (Open p acc) mc =
     bind_outcome (ipm_memory_open ctx bname acc (view mc p)) (\<lambda>(res, m, w).
     Ret ((res, None), (commit p w mc)\<lparr>open_handles :=
       open_handles mc @ (case m of None \<Rightarrow> [] | Some m \<Rightarrow> [(p, m)])\<rparr>))"
| "library_call ctx bname (Claim_region k acc off cnt) mc =
     through (open_handles mc) k (\<lambda>p m.
     bind_outcome (ipm_memory_claim_region m acc off cnt (view mc p)) (\<lambda>(res, cid, w).
     Ret ((res, cid), commit p w mc)))"
| "library_call ctx bname (Release_region k cid) mc =
     through (open_handles mc) k (\<lambda>p m.
     bind_outcome (ipm_memory_release_region m cid (view mc p)) (\<lambda>(res, w). Ret ((res, None), commit p w mc)))"
| "library_call ctx bname (Release_handle k) mc =
     through (open_handles mc) k (\<lambda>p m.
     bind_outcome (ipm_memory_release_all m (view mc p)) (\<lambda>(res, w). Ret ((res, None), commit p w mc)))"
| "library_call ctx bname (Remove_claims k) mc =
     through (open_handles mc) k (\<lambda>p m.
     bind_outcome (ipm_memory_remove_all_active_claims m (view mc p)) (\<lambda>(res, w).
     Ret ((res, None), commit p w mc)))"
| "library_call ctx bname (Close k) mc =
     through (open_handles mc) k (\<lambda>p m.
     bind_outcome (ipm_memory_close m (view mc p)) (\<lambda>w.
     Ret ((IPM_RESULT_SUCCESS, None), (commit p w mc)\<lparr>open_handles := drop_nth k (open_handles mc)\<rparr>)))"
| "library_call ctx bname (Fork p q) mc =
     Ret ((IPM_RESULT_SUCCESS, None), forked p q mc)"
| "library_call ctx bname (Clean j) mc =
     through (inherited mc) j (\<lambda>p m.
     bind_outcome (ipm_memory_clean m (view mc p)) (\<lambda>w.
     Ret ((IPM_RESULT_SUCCESS, None), (commit p w mc)\<lparr>inherited := drop_nth j (inherited mc)\<rparr>)))"

section \<open>What a machine stands for\<close>

abbreviation real_name :: "string \<Rightarrow> string" where
  "real_name bname \<equiv> make_block_name_based_on_id name_buffer_size bname 1"

abbreviation list_name :: "string \<Rightarrow> string" where
  "list_name bname \<equiv> make_block_name_based_on_id name_buffer_size bname 2"

definition holder :: "nat \<times> 'h ipm_memory \<Rightarrow> nat \<times> ipm_id \<times> ipm_access_mode" where
  "holder x = (fst x, access_id (real_memory (snd x)), access_mode (real_memory (snd x)))"

text \<open>
  Each part of the state is read from where the library keeps it: the holders from the open handles, the size and the next
  access id from the object that has the first name, the claims from the object that has the second one.
\<close>

definition promised :: "string \<Rightarrow> 'h machine \<Rightarrow> library" where
  "promised bname mc =
     \<lparr>holders = map holder (open_handles mc), heirs = map fst (inherited mc),
      mem_size = (case k_names mc (real_name bname) of None \<Rightarrow> 0 | Some ir \<Rightarrow> block_size (obj_header (k_objs mc ir))),
      next_access = (case k_names mc (real_name bname) of None \<Rightarrow> 0 | Some ir \<Rightarrow> id_counter (obj_header (k_objs mc ir))),
      held_claims = (case k_names mc (list_name bname) of None \<Rightarrow> [] | Some ic \<Rightarrow> rev (active (obj_list (k_objs mc ic)))),
      next_claim = (case k_names mc (list_name bname) of None \<Rightarrow> 0 | Some ic \<Rightarrow> claim_counter (obj_list (k_objs mc ic)))\<rparr>"

section \<open>Sound machines\<close>

text \<open>A handle of a process is sound for the objects \<open>ir\<close> and \<open>ic\<close>.\<close>

definition sound_at :: "'h ipm_context \<Rightarrow> string \<Rightarrow> 'h machine \<Rightarrow> nat \<Rightarrow> nat \<Rightarrow> nat \<times> 'h ipm_memory \<Rightarrow> bool" where
  "sound_at ctx bname mc ir ic x \<longleftrightarrow>
     mem_ok (view mc (fst x)) ir ic (snd x) \<and> mem_ctx (snd x) = ctx \<and>
     block_obj bname 1 (k_objs mc ir) \<and> block_obj bname 2 (k_objs mc ic) \<and>
     mapped_size (real_memory (snd x)) = block_size (obj_header (k_objs mc ir)) \<and>
     block_size (obj_header (k_objs mc ic)) = claim_size"

text \<open>The handles of one process share no descriptor and no mapping.\<close>

definition blocks_of :: "nat \<Rightarrow> (nat \<times> 'h ipm_memory) list \<Rightarrow> ipm_shared_memory_block list" where
  "blocks_of p hs = concat (map (\<lambda>x. if fst x = p then [real_memory (snd x), active_claims (snd x)] else []) hs)"

definition apart :: "ipm_shared_memory_block list \<Rightarrow> bool" where
  "apart bs \<longleftrightarrow> distinct (map mem_fd bs) \<and> distinct (concat (map owned bs))"

definition addresses :: "ipm_shared_memory_block list \<Rightarrow> nat set" where
  "addresses bs = {a. \<exists>b \<in> set bs. Addr a \<in> set (owned b)}"

text \<open>The descriptors and mappings of a process are those of its handles and no others.\<close>

definition owns_exactly :: "'h world \<Rightarrow> ipm_shared_memory_block list \<Rightarrow> bool" where
  "owns_exactly w bs \<longleftrightarrow> dom (fds w) = mem_fd ` set bs \<and> dom (maps w) = addresses bs"

definition at_rest :: "'h world \<Rightarrow> bool" where
  "at_rest w \<longleftrightarrow> kernel_ok w \<and> quiet w \<and> others w = []"

text \<open>The two objects of the memory: the counts of the handles and a claim list between critical sections.\<close>

definition counts_ok :: "'h machine \<Rightarrow> nat \<Rightarrow> nat \<Rightarrow> bool" where
  "counts_ok mc ir ic \<longleftrightarrow>
     unat (refcount (obj_header (k_objs mc ir))) = length (open_handles mc) \<and>
     unat (refcount (obj_header (k_objs mc ic))) = length (open_handles mc) \<and>
     ready (obj_list (k_objs mc ic)) \<and> capacity (obj_list (k_objs mc ic)) = 99"

definition memory_state :: "'h ipm_context \<Rightarrow> string \<Rightarrow> 'h machine \<Rightarrow> bool" where
  "memory_state ctx bname mc \<longleftrightarrow>
     (case (k_names mc (real_name bname), k_names mc (list_name bname)) of
        (Some ir, Some ic) \<Rightarrow>
          open_handles mc \<noteq> [] \<and> (\<forall>x \<in> set (open_handles mc). sound_at ctx bname mc ir ic x) \<and> counts_ok mc ir ic
      | (None, None) \<Rightarrow> open_handles mc = []
      | _ \<Rightarrow> False)"

definition machine_ok :: "'h ipm_context \<Rightarrow> string \<Rightarrow> 'h machine \<Rightarrow> bool" where
  "machine_ok ctx bname mc \<longleftrightarrow>
     (\<forall>p. at_rest (view mc p)) \<and> (\<forall>p. apart (blocks_of p (open_handles mc @ inherited mc))) \<and>
     (\<forall>p. owns_exactly (view mc p) (blocks_of p (open_handles mc @ inherited mc))) \<and>
     (\<forall>x \<in> set (inherited mc). \<exists>ir ic. sound_at ctx bname mc ir ic x) \<and> memory_state ctx bname mc"

section \<open>A process runs while the others wait\<close>

lemma view_commit:
  "view (commit p w mc) q = (if q = p then w else (view mc q)\<lparr>names := names w, objs := objs w, next_obj := next_obj w\<rparr>)"
  by (cases w) (simp add: view_def commit_def)

lemma view_handles [simp]:
  "view (mc\<lparr>open_handles := hs\<rparr>) p = view mc p" "view (mc\<lparr>inherited := hs\<rparr>) p = view mc p"
  by (simp_all add: view_def)

lemma view_frame [simp]:
  "names (view mc p) = k_names mc" "objs (view mc p) = k_objs mc" "next_obj (view mc p) = k_next mc"
  by (simp_all add: view_def)

lemma commit_frame [simp]:
  "k_names (commit p w mc) = names w" "k_objs (commit p w mc) = objs w" "k_next (commit p w mc) = next_obj w"
  "open_handles (commit p w mc) = open_handles mc" "inherited (commit p w mc) = inherited mc"
  by (simp_all add: commit_def)

lemma sound_at_handles [simp]:
  "sound_at ctx bname (mc\<lparr>open_handles := hs\<rparr>) ir ic x = sound_at ctx bname mc ir ic x"
  "sound_at ctx bname (mc\<lparr>inherited := hs\<rparr>) ir ic x = sound_at ctx bname mc ir ic x"
  by (simp_all add: sound_at_def)

text \<open>What no call changes of an object that exists.\<close>

definition same_block :: "shm_obj \<Rightarrow> shm_obj \<Rightarrow> bool" where
  "same_block x y \<longleftrightarrow>
     obj_len y = obj_len x \<and> block_size (obj_header y) = block_size (obj_header x) \<and>
     block_id (obj_header y) = block_id (obj_header x) \<and> block_name (obj_header y) = block_name (obj_header x) \<and>
     length (claims (obj_list y)) = length (claims (obj_list x))"

text \<open>
  A call of a process keeps everything except the handles of the blocks \<open>gone\<close>; of descriptors and mappings it adds those
  of the blocks \<open>new\<close>.
\<close>

definition keeps ::
  "'h world \<Rightarrow> 'h world \<Rightarrow> ipm_shared_memory_block list \<Rightarrow> ipm_shared_memory_block list \<Rightarrow> bool" where
  "keeps w w' gone new \<longleftrightarrow>
     at_rest w' \<and> next_obj w \<le> next_obj w' \<and> (\<forall>i < next_obj w. same_block (objs w i) (objs w' i)) \<and>
     (\<forall>i b. handle_ok w i b \<longrightarrow>
        (\<forall>g \<in> set gone. mem_fd b \<noteq> mem_fd g \<and> set (owned b) \<inter> set (owned g) = {}) \<longrightarrow> handle_ok w' i b) \<and>
     dom (fds w') = dom (fds w) - mem_fd ` set gone \<union> mem_fd ` set new \<and>
     dom (maps w') = dom (maps w) - addresses gone \<union> addresses new"

lemma addresses_simps [simp]:
  "addresses [] = {}" "addresses (as @ bs) = addresses as \<union> addresses bs"
  "addresses (b # bs) = {a. Addr a \<in> set (owned b)} \<union> addresses bs"
  by (auto simp: addresses_def)

lemma owns_exactly_cong: "fds w' = fds w \<Longrightarrow> maps w' = maps w \<Longrightarrow> owns_exactly w' bs = owns_exactly w bs"
  by (simp add: owns_exactly_def)

lemma same_block_refl [simp]: "same_block x x"
  by (simp add: same_block_def)

lemma same_block_obj: "same_block x y \<Longrightarrow> block_obj bname bid y = block_obj bname bid x"
  by (simp add: same_block_def block_obj_def Let_def)

lemma handle_ok_below: "kernel_ok w \<Longrightarrow> handle_ok w i b \<Longrightarrow> i < next_obj w"
  by (auto simp: kernel_ok_iff elim!: handle_okE)

lemma at_rest_other:
  assumes "at_rest v" and "at_rest w" and "next_obj v \<le> next_obj w"
  shows "at_rest (v\<lparr>names := names w, objs := objs w, next_obj := next_obj w\<rparr>)"
  using assms unfolding at_rest_def kernel_ok_iff by (simp add: quiet_def) (meson order_less_le_trans)

lemma at_rest_commit:
  assumes "\<forall>p. at_rest (view mc p)" and "keeps (view mc p) w gone new"
  shows "at_rest (view (commit p w mc) q)"
  using assms at_rest_other [of "view mc q" w] by (simp add: view_commit keeps_def)

lemma sound_at_commit:
  assumes s: "sound_at ctx bname mc ir ic x" and c: "at_rest (view mc (fst x))" and k: "keeps (view mc p) w gone new"
    and apart: "fst x = p \<Longrightarrow> \<forall>b \<in> {real_memory (snd x), active_claims (snd x)}. \<forall>g \<in> set gone.
      mem_fd b \<noteq> mem_fd g \<and> set (owned b) \<inter> set (owned g) = {}"
  shows "sound_at ctx bname (commit p w mc) ir ic x"
proof -
  have h: "handle_ok (view mc (fst x)) ir (real_memory (snd x))" "handle_ok (view mc (fst x)) ic (active_claims (snd x))"
    using s by (simp_all add: sound_at_def mem_ok_def)
  have "ir < k_next mc" "ic < k_next mc" using handle_ok_below [OF _ h(1)] handle_ok_below [OF _ h(2)] c by (simp_all add: at_rest_def)
  then have same: "same_block (k_objs mc ir) (objs w ir)" "same_block (k_objs mc ic) (objs w ic)"
    using k by (simp_all add: keeps_def)
  have "handle_ok (view (commit p w mc) (fst x)) i b"
    if "handle_ok (view mc (fst x)) i b" "b \<in> {real_memory (snd x), active_claims (snd x)}" for i b
  proof (cases "fst x = p")
    case True
    then show ?thesis using that apart k by (auto simp: keeps_def view_commit)
  next
    case False
    then show ?thesis using that(1) handle_ok_cong [of "view (commit p w mc) (fst x)" "view mc (fst x)"]
      by (simp add: view_commit)
  qed
  then have "mem_ok (view (commit p w mc) (fst x)) ir ic (snd x)"
    using s h same by (simp add: sound_at_def mem_ok_def same_block_def view_commit)
  then show ?thesis using s same by (simp add: sound_at_def same_block_obj) (simp add: same_block_def)
qed

subsection \<open>Blocks of a process\<close>

lemma blocks_of_append [simp]: "blocks_of p (xs @ ys) = blocks_of p xs @ blocks_of p ys"
  by (simp add: blocks_of_def)

lemma blocks_of_Cons [simp]:
  "blocks_of p (x # xs) = (if fst x = p then [real_memory (snd x), active_claims (snd x)] else []) @ blocks_of p xs"
  by (simp add: blocks_of_def)

lemma blocks_of_Nil [simp]: "blocks_of p [] = []"
  by (simp add: blocks_of_def)

lemma in_blocks_of:
  "b \<in> set (blocks_of p hs) \<longleftrightarrow> (\<exists>x \<in> set hs. fst x = p \<and> b \<in> {real_memory (snd x), active_claims (snd x)})"
  by (induction hs) auto

lemma distinct_middle: "distinct (xs @ zs @ ys) \<longleftrightarrow> distinct (xs @ ys) \<and> distinct zs \<and> set zs \<inter> set (xs @ ys) = {}"
  by auto

lemma apart_middle:
  "apart (as @ cs @ bs) \<longleftrightarrow> apart (as @ bs) \<and> apart cs \<and>
     (\<forall>b \<in> set (as @ bs). \<forall>g \<in> set cs. mem_fd b \<noteq> mem_fd g \<and> set (owned b) \<inter> set (owned g) = {})"
proof -
  have fd: "mem_fd ` set cs \<inter> mem_fd ` set (as @ bs) = {} \<longleftrightarrow> (\<forall>b \<in> set (as @ bs). \<forall>g \<in> set cs. mem_fd b \<noteq> mem_fd g)"
    by (auto simp: disjoint_iff) (metis Un_iff imageI)+
  have ow: "\<Union> (set ` owned ` set cs) \<inter> \<Union> (set ` owned ` set (as @ bs)) = {} \<longleftrightarrow>
      (\<forall>b \<in> set (as @ bs). \<forall>g \<in> set cs. set (owned b) \<inter> set (owned g) = {})"
    by (auto simp: disjoint_iff)
  have d1: "distinct (map mem_fd (as @ cs @ bs)) \<longleftrightarrow> distinct (map mem_fd (as @ bs)) \<and> distinct (map mem_fd cs) \<and>
      (\<forall>b \<in> set (as @ bs). \<forall>g \<in> set cs. mem_fd b \<noteq> mem_fd g)"
    by (subst fd [symmetric]) (simp only: map_append distinct_middle set_append set_map image_Un)
  have d2: "distinct (concat (map owned (as @ cs @ bs))) \<longleftrightarrow> distinct (concat (map owned (as @ bs))) \<and>
      distinct (concat (map owned cs)) \<and> (\<forall>b \<in> set (as @ bs). \<forall>g \<in> set cs. set (owned b) \<inter> set (owned g) = {})"
    by (subst ow [symmetric]) (simp only: map_append concat_append distinct_middle set_append set_map set_concat image_Un Union_Un_distrib)
  show ?thesis unfolding apart_def d1 d2 by blast
qed

text \<open>A new handle owns what was not in use.\<close>

definition fresh_memory :: "'h world \<Rightarrow> 'h ipm_memory \<Rightarrow> bool" where
  "fresh_memory w m \<longleftrightarrow>
     apart [real_memory m, active_claims m] \<and>
     (\<forall>b \<in> {real_memory m, active_claims m}.
        int (next_fd w) \<le> mem_fd b \<and> (\<forall>a. Addr a \<in> set (owned b) \<longrightarrow> next_map w \<le> a))"

lemma fresh_apart:
  assumes "kernel_ok w" and "handle_ok w i b" and "fresh_memory w m" and "g \<in> {real_memory m, active_claims m}"
  shows "mem_fd b \<noteq> mem_fd g \<and> set (owned b) \<inter> set (owned g) = {}"
proof -
  obtain x y where xy: "header b = Addr x" "memory b = Addr y" "fds w (mem_fd b) = Some i" "maps w x \<noteq> None" "maps w y \<noteq> None"
    using assms(2) by (rule handle_okE) auto
  then have "mem_fd b < int (next_fd w)" "x < next_map w" "y < next_map w"
    using assms(1) unfolding kernel_ok_iff by auto
  then show ?thesis using assms(3,4) xy(1,2) by (fastforce simp: fresh_memory_def owned_def)
qed

lemma machine_sound:
  assumes "machine_ok ctx bname mc" and "x \<in> set (open_handles mc @ inherited mc)"
  shows "\<exists>ir ic. sound_at ctx bname mc ir ic x"
  using assms by (auto simp: machine_ok_def memory_state_def split: option.splits) blast

lemma machine_handle:
  assumes ok: "machine_ok ctx bname mc" and b: "b \<in> set (blocks_of p (open_handles mc @ inherited mc))"
  shows "\<exists>i. handle_ok (view mc p) i b"
proof -
  obtain x where x: "x \<in> set (open_handles mc @ inherited mc)" "fst x = p" "b \<in> {real_memory (snd x), active_claims (snd x)}"
    using b unfolding in_blocks_of by blast
  have "\<exists>ir ic. sound_at ctx bname mc ir ic x" by (rule machine_sound [OF ok x(1)])
  then show ?thesis using x(2,3) by (auto simp: sound_at_def mem_ok_def)
qed

subsection \<open>The invariant after a call\<close>

lemma inherited_kept:
  assumes "machine_ok ctx bname mc" and "keeps (view mc p) w gone new"
    and "set hs \<subseteq> set (inherited mc)"
    and "\<forall>x \<in> set hs. fst x = p \<longrightarrow> (\<forall>b \<in> {real_memory (snd x), active_claims (snd x)}. \<forall>g \<in> set gone.
      mem_fd b \<noteq> mem_fd g \<and> set (owned b) \<inter> set (owned g) = {})"
  shows "\<forall>x \<in> set hs. \<exists>ir ic. sound_at ctx bname (commit p w mc) ir ic x"
  using assms sound_at_commit [of ctx bname mc _ _ _ p w gone new] unfolding machine_ok_def by (meson subsetD)

lemma owns_commit:
  assumes "owns_exactly (view mc q) (blocks_of q hs)" and "keeps (view mc p) w gone new"
    and "q \<noteq> p \<Longrightarrow> set (blocks_of q hs') = set (blocks_of q hs)"
    and "mem_fd ` set (blocks_of p hs') = mem_fd ` set (blocks_of p hs) - mem_fd ` set gone \<union> mem_fd ` set new"
    and "addresses (blocks_of p hs') = addresses (blocks_of p hs) - addresses gone \<union> addresses new"
  shows "owns_exactly (view (commit p w mc) q) (blocks_of q hs')"
  using assms by (cases "q = p") (simp_all add: owns_exactly_def keeps_def view_commit addresses_def)

lemma machine_owns: "machine_ok ctx bname mc \<Longrightarrow> owns_exactly (view mc q) (blocks_of q (open_handles mc @ inherited mc))"
  unfolding machine_ok_def by blast

text \<open>A call that neither opens nor closes a handle.\<close>

lemma machine_ok_kept:
  assumes ok: "machine_ok ctx bname mc" and k: "keeps (view mc p) w [] []" and nm: "names w = k_names mc"
    and cnt: "\<And>ir ic. k_names mc (real_name bname) = Some ir \<Longrightarrow> k_names mc (list_name bname) = Some ic \<Longrightarrow>
      counts_ok mc ir ic \<Longrightarrow> counts_ok (commit p w mc) ir ic"
  shows "machine_ok ctx bname (commit p w mc)"
proof -
  have c: "\<forall>p. at_rest (view mc p)" using ok by (simp add: machine_ok_def)
  have "memory_state ctx bname (commit p w mc)"
    using ok nm cnt sound_at_commit [OF _ _ k] c
    by (auto simp: machine_ok_def memory_state_def split: option.splits)
  moreover have "owns_exactly (view (commit p w mc) q) (blocks_of q (open_handles mc @ inherited mc))" for q
    by (rule owns_commit [OF machine_owns [OF ok] k]) simp_all
  ultimately show ?thesis
    using ok at_rest_commit [OF c k] inherited_kept [OF ok k order_refl] by (simp add: machine_ok_def)
qed

text \<open>A call that changes only the caller's heap and \<^verbatim>\<open>errno\<close>.\<close>

definition untouched :: "'h world \<Rightarrow> 'h world \<Rightarrow> bool" where
  "untouched w w' \<longleftrightarrow>
     fds w' = fds w \<and> next_fd w' = next_fd w \<and> names w' = names w \<and> objs w' = objs w \<and> next_obj w' = next_obj w \<and>
     maps w' = maps w \<and> next_map w' = next_map w \<and> others w' = others w \<and> (quiet w \<longrightarrow> quiet w')"

lemma keeps_untouched: "at_rest w \<Longrightarrow> untouched w w' \<Longrightarrow> keeps w w' [] []"
  using handle_ok_cong [of w' w] by (simp add: keeps_def untouched_def at_rest_def kernel_ok_def)

lemma machine_untouched:
  assumes ok: "machine_ok ctx bname mc" and u: "untouched (view mc p) w"
  shows "machine_ok ctx bname (commit p w mc)" and "promised bname (commit p w mc) = promised bname mc"
proof -
  have "keeps (view mc p) w [] []" using ok keeps_untouched [OF _ u] by (simp add: machine_ok_def)
  then show "machine_ok ctx bname (commit p w mc)"
    using u by (intro machine_ok_kept [OF ok]) (simp_all add: untouched_def counts_ok_def)
  show "promised bname (commit p w mc) = promised bname mc"
    using u by (simp add: promised_def untouched_def split: option.split)
qed

section \<open>Claims\<close>

text \<open>A handle by its position.\<close>

lemma open_handleE:
  assumes "machine_ok ctx bname mc" and "k < length (open_handles mc)" and "open_handles mc ! k = (p, m)"
  obtains ir ic where "k_names mc (real_name bname) = Some ir" "k_names mc (list_name bname) = Some ic"
    "sound_at ctx bname mc ir ic (p, m)" "counts_ok mc ir ic" "at_rest (view mc p)" "mem_ok (view mc p) ir ic m"
proof -
  have "(p, m) \<in> set (open_handles mc)" using assms(2,3) by (metis nth_mem)
  then show thesis using assms(1) that
    by (auto simp: machine_ok_def memory_state_def sound_at_def split: option.splits)
qed

lemma promised_Some:
  assumes "k_names mc (real_name bname) = Some ir" and "k_names mc (list_name bname) = Some ic"
  shows "promised bname mc =
    \<lparr>holders = map holder (open_handles mc), heirs = map fst (inherited mc),
     mem_size = block_size (obj_header (k_objs mc ir)), next_access = id_counter (obj_header (k_objs mc ir)),
     held_claims = rev (active (obj_list (k_objs mc ic))), next_claim = claim_counter (obj_list (k_objs mc ic))\<rparr>"
  using assms by (simp add: promised_def)

lemma promised_holder:
  assumes "machine_ok ctx bname mc" and "k < length (open_handles mc)" and "open_handles mc ! k = (p, m)"
  shows "holder_id (promised bname mc) k = access_id (real_memory m)"
    and "snd (snd (holders (promised bname mc) ! k)) = access_mode (real_memory m)"
  using assms by (auto simp: promised_Some holder_id_def holder_def elim!: open_handleE)

lemma holders_length: "machine_ok ctx bname mc \<Longrightarrow> length (holders (promised bname mc)) = length (open_handles mc)"
  by (auto simp: machine_ok_def memory_state_def promised_def split: option.splits)

text \<open>A new claim list, written through a handle.\<close>

lemma machine_list_edit:
  assumes ok: "machine_ok ctx bname mc" and nb: "k_names mc (real_name bname) = Some ir" "k_names mc (list_name bname) = Some ic"
    and m: "mem_ok (view mc p) ir ic m" and l: "ready l" "capacity l = 99" "length (claims l) = 99"
  shows "machine_ok ctx bname (commit p (set_list ic l (view mc p)) mc)"
    and "promised bname (commit p (set_list ic l (view mc p)) mc) =
      (promised bname mc)\<lparr>held_claims := rev (active l), next_claim := claim_counter l\<rparr>"
proof -
  let ?w = "set_list ic l (view mc p)"
  have r: "at_rest (view mc p)" using ok by (simp add: machine_ok_def)
  have w: "fds ?w = fds (view mc p)" "maps ?w = maps (view mc p)" "names ?w = k_names mc" "next_obj ?w = k_next mc"
    "objs ?w = (k_objs mc)(ic := (k_objs mc ic)\<lparr>obj_list := l\<rparr>)"
    by (simp_all add: set_list_def)
  have "at_rest ?w" using r by (simp add: at_rest_def kernel_ok_def quiet_def set_list_def)
  moreover have "same_block (k_objs mc i) (objs ?w i)" for i
    using m l(3) by (simp add: w same_block_def mem_ok_def)
  ultimately have "keeps (view mc p) ?w [] []"
    using handle_ok_cong [OF w(1,2)] by (simp add: keeps_def w)
  then show "machine_ok ctx bname (commit p ?w mc)"
    using nb m l by (intro machine_ok_kept [OF ok]) (auto simp: w counts_ok_def mem_ok_def)
  show "promised bname (commit p ?w mc) = (promised bname mc)\<lparr>held_claims := rev (active l), next_claim := claim_counter l\<rparr>"
    using nb m by (simp add: promised_Some w mem_ok_def)
qed

lemma memory_release_all_exact:
  assumes ok: "mem_ok w ir ic m" and L: "ready (obj_list (objs w ic))" "count (obj_list (objs w ic)) < capacity (obj_list (objs w ic))"
    and ids: "ids_by_proc (active (obj_list (objs w ic)))"
    and last: "filter (\<lambda>c. proc_id c \<noteq> access_id (real_memory m)) (rev (active (obj_list (objs w ic)))) =
      dropWhile (\<lambda>c. proc_id c = access_id (real_memory m)) (rev (active (obj_list (objs w ic))))"
  obtains l where "ipm_memory_release_all m w = Ret (IPM_RESULT_SUCCESS, set_list ic l w)" "ready l"
    "rev (active l) = filter (\<lambda>c. proc_id c \<noteq> access_id (real_memory m)) (rev (active (obj_list (objs w ic))))"
    "claim_counter l = claim_counter (obj_list (objs w ic))" "capacity l = capacity (obj_list (objs w ic))"
    "mem_ok (set_list ic l w) ir ic m"
proof -
  let ?L = "obj_list (objs w ic)" and ?me = "access_id (real_memory m)"
  have len: "length (claims ?L) = 99" using ok by (simp add: mem_ok_def)
  then have small: "length (claims ?L) < 2 ^ 31" by simp
  obtain l where l: "release_all_list (mem_ctx m) ?me ?L w = Ret (IPM_RESULT_SUCCESS, l, w)" "ready l"
    "rev (active l) = filter (\<lambda>c. proc_id c \<noteq> ?me) (rev (active ?L))"
    "claim_counter l = claim_counter ?L" "same_shape ?L l"
    using release_all_latest [OF L small ids refl last, of "mem_ctx m" w] by blast
  note at = mem_ok_list [OF ok]
  have "ipm_memory_release_all m w = Ret (IPM_RESULT_SUCCESS, set_list ic l w)"
    unfolding ipm_memory_release_all_def by (rule on_list_Ret [OF at(1) _ at(1)]) (simp add: l(1))
  then show thesis using that l len mem_ok_set_list [OF ok, of l] by (simp add: same_shape_def)
qed

section \<open>Closing and leaving\<close>

text \<open>One handle goes; the others of the process and of the other processes stay.\<close>

lemma without_handle:
  assumes ok: "machine_ok ctx bname mc" and split: "open_handles mc @ inherited mc = as @ (p, m) # bs"
    and k: "keeps (view mc p) w [real_memory m, active_claims m] []"
  shows "at_rest (view (commit p w mc) q)" and "apart (blocks_of q (as @ bs))"
    and "x \<in> set (as @ bs) \<Longrightarrow> sound_at ctx bname mc ir ic x \<Longrightarrow> sound_at ctx bname (commit p w mc) ir ic x"
    and "owns_exactly (view (commit p w mc) q) (blocks_of q (as @ bs))"
proof -
  have c: "\<forall>p. at_rest (view mc p)" using ok by (simp add: machine_ok_def)
  show "at_rest (view (commit p w mc) q)" by (rule at_rest_commit [OF c k])
  have ap: "apart (blocks_of q as @ (if p = q then [real_memory m, active_claims m] else []) @ blocks_of q bs)" for q
  proof -
    have "apart (blocks_of q (open_handles mc @ inherited mc))" using ok unfolding machine_ok_def by blast
    then show ?thesis unfolding split by (simp only: blocks_of_append blocks_of_Cons fst_conv snd_conv)
  qed
  then have "apart (blocks_of q as @ blocks_of q bs)" unfolding apart_middle by blast
  then show "apart (blocks_of q (as @ bs))" by simp
  have "\<forall>b \<in> set (blocks_of p as @ blocks_of p bs). \<forall>g \<in> {real_memory m, active_claims m}.
      mem_fd b \<noteq> mem_fd g \<and> set (owned b) \<inter> set (owned g) = {}"
    using ap [of p] unfolding apart_middle by auto
  then have "mem_fd ` set (blocks_of p (as @ bs)) =
      mem_fd ` set (blocks_of p (as @ (p, m) # bs)) - mem_fd ` set [real_memory m, active_claims m]"
    "addresses (blocks_of p (as @ bs)) =
      addresses (blocks_of p (as @ (p, m) # bs)) - addresses [real_memory m, active_claims m]"
    by (auto simp: addresses_def)
  then show "owns_exactly (view (commit p w mc) q) (blocks_of q (as @ bs))"
    by (intro owns_commit [OF machine_owns [OF ok, unfolded split] k]) simp_all
  assume x: "x \<in> set (as @ bs)" and s: "sound_at ctx bname mc ir ic x"
  have "mem_fd b \<noteq> mem_fd g \<and> set (owned b) \<inter> set (owned g) = {}"
    if "fst x = p" "b \<in> {real_memory (snd x), active_claims (snd x)}" "g \<in> set [real_memory m, active_claims m]" for b g
  proof -
    have "b \<in> set (blocks_of p as @ blocks_of p bs)" using x that(1,2) by (auto simp: in_blocks_of)
    then show ?thesis using ap [of p] that(3) unfolding apart_middle by auto
  qed
  then show "sound_at ctx bname (commit p w mc) ir ic x" using c by (intro sound_at_commit [OF s _ k]) auto
qed

lemma split_nth: "k < length xs \<Longrightarrow> xs ! k = x \<Longrightarrow> xs = take k xs @ x # drop (Suc k) xs"
  using id_take_nth_drop by fastforce

lemma keeps_free_handle: "keeps w v gone new \<Longrightarrow> keeps w (free_handle ctx p v) gone new"
  using handle_ok_cong [of "free_handle ctx p v" v] by (simp add: keeps_def at_rest_def kernel_ok_def quiet_def)

lemma set_list_rest: "at_rest w \<Longrightarrow> at_rest (set_list ic l w)"
  by (simp add: at_rest_def kernel_ok_def quiet_def set_list_def)

lemma dom_detached:
  assumes "handle_ok w i b"
  shows "dom (fds (detached j b w)) = dom (fds w) - {mem_fd b}"
    and "dom (maps (detached j b w)) = dom (maps w) - {a. Addr a \<in> set (owned b)}"
  using assms by (auto simp: detached_def owned_def elim!: handle_okE split: if_splits)

lemma keeps_detached:
  assumes m: "mem_ok (set_list ic l w) ir ic m" and r: "at_rest w" and len: "length (claims l) = length (claims (obj_list (objs w ic)))"
  shows "keeps w (detached ir (real_memory m) (detached ic (active_claims m) (set_list ic l w))) [real_memory m, active_claims m] []"
    (is "keeps w ?w _ _")
proof -
  let ?v = "set_list ic l w"
  have h: "handle_ok ?v ir (real_memory m)" "handle_ok ?v ic (active_claims m)" and ne: "ir \<noteq> ic"
    using m by (simp_all add: mem_ok_def)
  have d: "handle_ok (detached ic (active_claims m) ?v) ir (real_memory m)" by (rule handle_ok_detached_other [OF h ne])
  have "kernel_ok ?w" using set_list_rest [OF r] by (intro kernel_ok_detached) (simp add: at_rest_def)
  then have "at_rest ?w" using r by (simp add: at_rest_def detached_def quiet_def set_list_def)
  moreover have "handle_ok ?w i b"
    if "handle_ok w i b" "\<forall>g \<in> set [real_memory m, active_claims m]. mem_fd b \<noteq> mem_fd g \<and> set (owned b) \<inter> set (owned g) = {}"
    for i b
  proof -
    have "handle_ok ?v i b" using that(1) handle_ok_cong [of ?v w] by (simp add: set_list_def)
    then show ?thesis using that(2) by (intro handle_ok_detached [OF _ d] handle_ok_detached [OF _ h(2)]) simp_all
  qed
  moreover have "same_block (objs w i) (objs ?w i)" for i
    using len by (simp add: same_block_def detached_def set_list_def)
  moreover have "dom (fds ?w) = dom (fds w) - {mem_fd (real_memory m), mem_fd (active_claims m)}"
    using dom_detached(1) [OF d, of ir] dom_detached(1) [OF h(2), of ic] by (auto simp: set_list_def)
  moreover have "dom (maps ?w) = dom (maps w) - addresses [real_memory m, active_claims m]"
    using dom_detached(2) [OF d, of ir] dom_detached(2) [OF h(2), of ic] by (auto simp: set_list_def)
  ultimately show ?thesis by (simp add: keeps_def) (simp add: detached_def set_list_def)
qed

lemma keeps_unlinked:
  assumes "keeps w v gone new" and "\<And>l. length (claims (g l)) = length (claims l)"
  shows "keeps w (unlinked nb i g v) gone new"
proof -
  have "at_rest (unlinked nb i g v)"
    using assms(1) kernel_ok_unlinked [of v nb i g] subsetD [OF set_tl_subset, of _ "faults v"]
    by (auto simp: keeps_def at_rest_def) (auto simp: unlinked_def quiet_def)
  then show ?thesis using assms handle_ok_unlinked [of nb i g v]
    by (simp add: keeps_def unlinked_def same_block_def)
qed

lemma detached_unlinked:
  "i \<noteq> j \<Longrightarrow> detached i b (unlinked nb j g v) = unlinked nb j g (detached i b v)"
  by (simp add: detached_def unlinked_def snd_mutex_calls fun_upd_twist split: ptr.split)

lemma length_destroyed [simp]: "length (claims (destroyed_list l)) = length (claims l)"
  by (simp add: destroyed_list_def)

lemma drop_nth_append: "k < length xs \<Longrightarrow> take k xs @ drop (Suc k) xs @ ys = drop_nth k xs @ ys"
  by (simp add: drop_nth_def)

lemma machine_ok_closed:
  assumes ok: "machine_ok ctx bname mc" and j: "j < length (open_handles mc)" and pm: "open_handles mc ! j = (p, m)"
    and k: "keeps (view mc p) w [real_memory m, active_claims m] []"
    and st: "(\<And>x ir ic. x \<in> set (drop_nth j (open_handles mc)) \<Longrightarrow> sound_at ctx bname mc ir ic x \<Longrightarrow>
        sound_at ctx bname (commit p w mc) ir ic x) \<Longrightarrow>
      memory_state ctx bname ((commit p w mc)\<lparr>open_handles := drop_nth j (open_handles mc)\<rparr>)"
  shows "machine_ok ctx bname ((commit p w mc)\<lparr>open_handles := drop_nth j (open_handles mc)\<rparr>)"
proof -
  let ?hs = "drop_nth j (open_handles mc)"
  have sp: "open_handles mc @ inherited mc =
      take j (open_handles mc) @ (p, m) # (drop (Suc j) (open_handles mc) @ inherited mc)"
    using split_nth [OF j pm] by (metis append_Cons append_assoc)
  have set: "set ?hs \<union> set (inherited mc) = set (take j (open_handles mc) @ drop (Suc j) (open_handles mc) @ inherited mc)"
    by (auto simp: drop_nth_def)
  note wh = without_handle [OF ok sp k]
  have ap: "apart (blocks_of q (?hs @ inherited mc)) \<and> owns_exactly (view (commit p w mc) q) (blocks_of q (?hs @ inherited mc))"
    for q using wh(2,4) [of q] by (simp add: drop_nth_def)
  have "\<exists>ir ic. sound_at ctx bname (commit p w mc) ir ic x" if "x \<in> set (inherited mc)" for x
    using ok that wh(3) [of x] unfolding machine_ok_def set_append by blast
  moreover have "memory_state ctx bname ((commit p w mc)\<lparr>open_handles := ?hs\<rparr>)"
    using set by (intro st wh(3)) auto
  ultimately show ?thesis using wh(1) ap by (simp add: machine_ok_def)
qed

text \<open>The counts after one of several handles has gone, and after a handle has come.\<close>

lemma counts_not_last:
  assumes "counts_ok mc ir ic" and j: "j < length (open_handles mc)" and "length (open_handles mc) \<noteq> 1" and "i \<in> {ir, ic}"
  shows "refcount (obj_header (k_objs mc i)) \<noteq> 1"
    and "unat (refcount (obj_header (k_objs mc i)) - 1) = length (drop_nth j (open_handles mc))"
proof -
  have c: "unat (refcount (obj_header (k_objs mc i))) = length (open_handles mc)" using assms by (auto simp: counts_ok_def)
  then show "refcount (obj_header (k_objs mc i)) \<noteq> 1" using assms(3) by auto
  have "refcount (obj_header (k_objs mc i)) \<noteq> 0" using c j by auto
  then show "unat (refcount (obj_header (k_objs mc i)) - 1) = length (drop_nth j (open_handles mc))"
    using c length_drop_nth [OF j] by (simp add: unat_minus_one)
qed

lemma counts_one_more:
  assumes "counts_ok mc ir ic" and "length (open_handles mc) < 2 ^ 32 - 2" and "open_handles mc \<noteq> []" and "i \<in> {ir, ic}"
  shows "refcount (obj_header (k_objs mc i)) \<noteq> 0"
    and "unat (refcount (obj_header (k_objs mc i)) + 1) = Suc (length (open_handles mc))"
proof -
  have c: "unat (refcount (obj_header (k_objs mc i))) = length (open_handles mc)" using assms by (auto simp: counts_ok_def)
  then show "refcount (obj_header (k_objs mc i)) \<noteq> 0" using assms(3) by auto
  show "unat (refcount (obj_header (k_objs mc i)) + 1) = Suc (length (open_handles mc))"
    using c assms(2) by (subst unat_word_ariths) simp
qed

lemma forgotten_frame [simp]:
  "objs (forgotten b w) = objs w" "names (forgotten b w) = names w" "next_obj (forgotten b w) = next_obj w"
  "host (forgotten b w) = host w" "others (forgotten b w) = others w" "quiet (forgotten b w) = quiet w"
  by (simp_all add: forgotten_def quiet_def)

lemma handle_ok_forgotten: "handle_ok (forgotten b w) i x = handle_ok (detached j b w) i x"
  by (rule handle_ok_cong) (simp_all add: forgotten_def detached_def)

lemma kernel_ok_forgotten: "kernel_ok w \<Longrightarrow> kernel_ok (forgotten b w)"
  unfolding kernel_ok_iff forgotten_def by (auto split: ptr.splits if_splits)

lemma dom_forgotten:
  assumes "handle_ok w i b"
  shows "dom (fds (forgotten b w)) = dom (fds w) - {mem_fd b}"
    and "dom (maps (forgotten b w)) = dom (maps w) - {a. Addr a \<in> set (owned b)}"
  using dom_detached [OF assms, of i] by (simp_all add: forgotten_def detached_def)

lemma keeps_forgotten:
  assumes m: "mem_ok w ir ic m" and r: "at_rest w"
  shows "keeps w (forgotten (real_memory m) (forgotten (active_claims m) w)) [real_memory m, active_claims m] []"
    (is "keeps w ?w _ _")
proof -
  let ?v = "forgotten (active_claims m) w"
  have h: "handle_ok w ir (real_memory m)" "handle_ok w ic (active_claims m)" and ne: "ir \<noteq> ic"
    using m by (simp_all add: mem_ok_def)
  have d: "handle_ok ?v ir (real_memory m)"
    unfolding handle_ok_forgotten [of _ _ _ _ ic] by (rule handle_ok_detached_other [OF h ne])
  have "handle_ok ?w i b"
    if "handle_ok w i b" "\<forall>g \<in> set [real_memory m, active_claims m]. mem_fd b \<noteq> mem_fd g \<and> set (owned b) \<inter> set (owned g) = {}"
    for i b
  proof -
    have "handle_ok ?v i b" unfolding handle_ok_forgotten [of _ _ _ _ ic]
      using that by (intro handle_ok_detached [OF _ h(2)]) simp_all
    then show ?thesis unfolding handle_ok_forgotten [of "real_memory m" _ _ _ ir]
      using that(2) by (intro handle_ok_detached [OF _ d]) simp_all
  qed
  moreover have "dom (fds ?w) = dom (fds w) - {mem_fd (real_memory m), mem_fd (active_claims m)}"
    "dom (maps ?w) = dom (maps w) - addresses [real_memory m, active_claims m]"
    using dom_forgotten [OF d] dom_forgotten [OF h(2)] by auto
  ultimately show ?thesis using r by (simp add: keeps_def at_rest_def kernel_ok_forgotten)
qed

lemma memory_state_cong:
  assumes "k_names mc' = k_names mc" and "k_objs mc' = k_objs mc" and "open_handles mc' = open_handles mc"
    and "\<And>x ir ic. x \<in> set (open_handles mc) \<Longrightarrow> sound_at ctx bname mc ir ic x \<Longrightarrow> sound_at ctx bname mc' ir ic x"
    and "memory_state ctx bname mc"
  shows "memory_state ctx bname mc'"
  using assms by (auto simp: memory_state_def counts_ok_def split: option.splits)

lemma machine_ok_left:
  assumes ok: "machine_ok ctx bname mc" and j: "j < length (inherited mc)" and pm: "inherited mc ! j = (p, m)"
    and kp: "keeps (view mc p) w [real_memory m, active_claims m] []" and f: "names w = k_names mc" "objs w = k_objs mc"
  shows "machine_ok ctx bname ((commit p w mc)\<lparr>inherited := drop_nth j (inherited mc)\<rparr>)"
proof -
  let ?ih = "drop_nth j (inherited mc)"
  have sp: "open_handles mc @ inherited mc =
      (open_handles mc @ take j (inherited mc)) @ (p, m) # drop (Suc j) (inherited mc)"
    using split_nth [OF j pm] by simp
  note wh = without_handle [OF ok sp kp]
  have ap: "apart (blocks_of q (open_handles mc @ ?ih)) \<and>
      owns_exactly (view (commit p w mc) q) (blocks_of q (open_handles mc @ ?ih))"
    for q using wh(2,4) [of q] by (simp add: drop_nth_def)
  have "\<exists>ir ic. sound_at ctx bname (commit p w mc) ir ic x" if x: "x \<in> set ?ih" for x
  proof -
    obtain ir ic where "sound_at ctx bname mc ir ic x"
      using ok subsetD [OF set_drop_nth x] unfolding machine_ok_def by blast
    moreover have "x \<in> set ((open_handles mc @ take j (inherited mc)) @ drop (Suc j) (inherited mc))"
      using x by (simp add: drop_nth_def)
    ultimately show ?thesis using wh(3) by blast
  qed
  moreover have "memory_state ctx bname (commit p w mc)"
    by (rule memory_state_cong [of _ mc]) (use ok f wh(3) in \<open>simp_all add: machine_ok_def\<close>)
  then have "memory_state ctx bname ((commit p w mc)\<lparr>inherited := ?ih\<rparr>)"
    by (rule memory_state_cong [rotated 4]) simp_all
  ultimately show ?thesis using wh(1) ap by (simp add: machine_ok_def)
qed

section \<open>Forking\<close>

lemma mem_ok_self [simp]: "mem_ok (w\<lparr>self := t\<rparr>) ir ic m = mem_ok w ir ic m"
  by (simp add: mem_ok_def handle_ok_cong [of "w\<lparr>self := t\<rparr>" w])

lemma forked_frame [simp]:
  "k_names (forked p q mc) = k_names mc" "k_objs (forked p q mc) = k_objs mc" "open_handles (forked p q mc) = open_handles mc"
  "inherited (forked p q mc) = inherited mc @ inherits p q (open_handles mc) @ inherits p q (inherited mc)"
  by (simp_all add: forked_def)

lemma view_forked: "view (forked p q mc) r = (if r = q then (view mc p)\<lparr>self := q\<rparr> else view mc r)"
  by (simp add: view_def forked_def)

lemma sound_at_forked:
  "sound_at ctx bname mc ir ic x \<Longrightarrow> fst x \<noteq> q \<Longrightarrow> sound_at ctx bname (forked p q mc) ir ic x"
  "sound_at ctx bname mc ir ic (p, m) \<Longrightarrow> sound_at ctx bname (forked p q mc) ir ic (q, m)"
  by (simp_all add: sound_at_def view_forked)

lemma blocks_of_inherits: "blocks_of r (inherits p q hs) = (if r = q then blocks_of p hs else [])"
  by (induction hs) (auto simp: inherits_def)

lemma in_inherits: "x \<in> set (inherits p q hs) \<longleftrightarrow> (\<exists>m. x = (q, m) \<and> (p, m) \<in> set hs)"
  by (auto simp: inherits_def)

lemma machine_ok_forked:
  assumes ok: "machine_ok ctx bname mc" and idle: "\<And>x. x \<in> set (open_handles mc @ inherited mc) \<Longrightarrow> fst x \<noteq> q"
  shows "machine_ok ctx bname (forked p q mc)"
proof -
  let ?hs = "open_handles mc @ inherited mc" and ?mc = "forked p q mc"
  have "at_rest ((view mc p)\<lparr>self := q\<rparr>)" using ok by (simp add: machine_ok_def at_rest_def kernel_ok_def quiet_def)
  then have rest: "\<forall>r. at_rest (view ?mc r)" using ok by (simp add: view_forked machine_ok_def)
  have "blocks_of q ?hs = []" using idle in_blocks_of [of _ q ?hs] by (metis all_not_in_conv set_empty)
  then have bl: "blocks_of r (open_handles ?mc @ inherited ?mc) = blocks_of (if r = q then p else r) ?hs" for r
    by (simp add: blocks_of_inherits)
  have "owns_exactly (view ?mc r) bs = owns_exactly (view mc (if r = q then p else r)) bs" for r bs
    by (rule owns_exactly_cong) (simp_all add: view_forked)
  then have own: "\<forall>r. owns_exactly (view ?mc r) (blocks_of r (open_handles ?mc @ inherited ?mc))"
    unfolding bl using machine_owns [OF ok] by blast
  have ap: "\<forall>r. apart (blocks_of r (open_handles ?mc @ inherited ?mc))" unfolding bl using ok unfolding machine_ok_def by blast
  have "\<exists>ir ic. sound_at ctx bname ?mc ir ic x" if x: "x \<in> set (inherited ?mc)" for x
  proof -
    consider "x \<in> set ?hs" | m where "x = (q, m)" "(p, m) \<in> set ?hs" using x unfolding forked_frame set_append Un_iff in_inherits by blast
    then show ?thesis
    proof cases
      case 1
      then show ?thesis using machine_sound [OF ok 1] sound_at_forked(1) idle [OF 1] by blast
    next
      case (2 m)
      then show ?thesis using machine_sound [OF ok 2(2)] sound_at_forked(2) by blast
    qed
  qed
  moreover have "memory_state ctx bname ?mc"
    by (rule memory_state_cong [of _ mc]) (use ok idle in \<open>simp_all add: machine_ok_def sound_at_forked\<close>)
  ultimately show ?thesis using rest own ap unfolding machine_ok_def by blast
qed

lemma promised_holders: "machine_ok ctx bname mc \<Longrightarrow> holders (promised bname mc) = map holder (open_handles mc)"
  by (auto simp: machine_ok_def memory_state_def promised_def split: option.splits)

lemma promised_forked:
  assumes ok: "machine_ok ctx bname mc"
  shows "spec_call (Fork p q) (promised bname mc) = Some ((IPM_RESULT_SUCCESS, None), promised bname (forked p q mc))"
proof -
  have heirs: "heirs (promised bname mc) = map fst (inherited mc)" by (simp add: promised_def split: option.split)
  have "map fst (inherits p q hs) = map (\<lambda>_. q) (filter (\<lambda>(r, _). r = p) (map holder hs))"
    "map fst (inherits p q hs) = map (\<lambda>_. q) (filter (\<lambda>r. r = p) (map fst hs))" for hs :: "(nat \<times> 'a ipm_memory) list"
    by (induction hs) (auto simp: holder_def inherits_def)
  then show ?thesis
    by (simp add: heirs promised_holders [OF ok]) (simp add: promised_def no_memory_def split: option.split)
qed

section \<open>Creating and opening\<close>

lemma machine_ok_new_handle:
  assumes ok: "machine_ok ctx bname mc" and k: "keeps (view mc p) w [] [real_memory m, active_claims m]"
    and fresh: "fresh_memory (view mc p) m"
    and st: "(\<And>x ir ic. x \<in> set (open_handles mc) \<Longrightarrow> sound_at ctx bname mc ir ic x \<Longrightarrow>
        sound_at ctx bname (commit p w mc) ir ic x) \<Longrightarrow>
      memory_state ctx bname ((commit p w mc)\<lparr>open_handles := open_handles mc @ [(p, m)]\<rparr>)"
  shows "machine_ok ctx bname ((commit p w mc)\<lparr>open_handles := open_handles mc @ [(p, m)]\<rparr>)"
proof -
  have c: "\<forall>p. at_rest (view mc p)" using ok by (simp add: machine_ok_def)
  have sd: "sound_at ctx bname (commit p w mc) ir ic x" if "sound_at ctx bname mc ir ic x" for x ir ic
    using c by (intro sound_at_commit [OF that _ k]) simp_all
  have ap: "apart (blocks_of q ((open_handles mc @ [(p, m)]) @ inherited mc))" for q
  proof -
    have a: "apart (blocks_of q (open_handles mc) @ blocks_of q (inherited mc))" using ok by (simp add: machine_ok_def)
    have "mem_fd b \<noteq> mem_fd g \<and> set (owned b) \<inter> set (owned g) = {}"
      if b: "b \<in> set (blocks_of p (open_handles mc) @ blocks_of p (inherited mc))" and g: "g \<in> {real_memory m, active_claims m}" for b g
    proof -
      obtain i where "handle_ok (view mc p) i b" using machine_handle [OF ok, of b p] b by auto
      then show ?thesis using c g by (intro fresh_apart [OF _ _ fresh g]) (simp_all add: at_rest_def)
    qed
    then have "apart (blocks_of p (open_handles mc) @ [real_memory m, active_claims m] @ blocks_of p (inherited mc))" if "p = q"
      using a that fresh unfolding apart_middle fresh_memory_def by auto
    then show ?thesis using a by (cases "p = q") simp_all
  qed
  moreover have "\<forall>x \<in> set (inherited mc). \<exists>ir ic. sound_at ctx bname (commit p w mc) ir ic x"
    using ok sd unfolding machine_ok_def by blast
  moreover have "owns_exactly (view (commit p w mc) q) (blocks_of q ((open_handles mc @ [(p, m)]) @ inherited mc))" for q
    by (rule owns_commit [OF machine_owns [OF ok] k]) auto
  moreover have "view ((commit p w mc)\<lparr>open_handles := hs\<rparr>) q = view (commit p w mc) q" for hs q by simp
  ultimately show ?thesis
    using at_rest_commit [OF c k] st sd unfolding machine_ok_def by (simp del: blocks_of_append)
qed

lemma fresh_new_memory: "fresh_memory w (new_memory ctx this bname sz acc w)"
  by (auto simp: fresh_memory_def new_memory_def new_block_def apart_def owned_def)

lemma fresh_opened_memory: "fresh_memory w (opened_memory ctx this bname ir ic acc w)"
  by (auto simp: fresh_memory_def opened_memory_def new_block_def apart_def owned_def)

lemma opened_faults: "opened i acc w = (opened i acc w)\<lparr>faults := faults w\<rparr>"
  by (simp add: opened_def)

lemma keeps_opened:
  assumes r: "at_rest w" and w0: "w0 = w\<lparr>errno := e, host := h\<rparr>" and q: "quiet (w\<lparr>faults := fs\<rparr>)"
    and i: "ir < next_obj w" "ic < next_obj w"
  shows "keeps w ((opened ic IPM_ACCESS_MODE_READ_WRITE (opened ir acc w0))\<lparr>faults := fs\<rparr>) []
    [real_memory (opened_memory ctx this bname ir ic acc w), active_claims (opened_memory ctx this bname ir ic acc w)]"
    (is "keeps w ?w [] _")
proof -
  let ?m = "opened_memory ctx this bname ir ic acc w"
  have k0: "kernel_ok w0" using r by (simp add: w0 at_rest_def kernel_ok_def)
  then have k1: "kernel_ok (opened ir acc w0)" using i by (subst opened_faults, intro kernel_ok_opened) (simp_all add: w0)
  then have "kernel_ok ?w" using i by (intro kernel_ok_opened) (simp_all add: opened_def w0)
  moreover have "handle_ok ?w j b" if "handle_ok w j b" for j b
  proof -
    have "handle_ok w0 j b" using that handle_ok_cong [of w0 w] by (simp add: w0)
    then have "handle_ok (opened ir acc w0) j b" by (subst opened_faults) (rule handle_ok_opened [OF k0])
    then show ?thesis by (rule handle_ok_opened [OF k1])
  qed
  moreover have "same_block (objs w j) (objs ?w j)" for j by (simp add: same_block_def opened_def w0)
  moreover have "dom (fds ?w) = dom (fds w) \<union> mem_fd ` {real_memory ?m, active_claims ?m}"
    "dom (maps ?w) = dom (maps w) \<union> addresses [real_memory ?m, active_claims ?m]"
    by (auto simp: opened_def w0 opened_memory_def new_block_def owned_def split: if_splits)
  ultimately show ?thesis using r q by (simp add: keeps_def at_rest_def) (simp add: opened_def w0 quiet_def)
qed

lemma at_rest_frame: "at_rest w \<Longrightarrow> kernel_ok w" "at_rest w \<Longrightarrow> quiet w" "at_rest w \<Longrightarrow> others w = []"
  by (simp_all add: at_rest_def)

text \<open>An open handle shows what the two objects are.\<close>

lemma memory_objects:
  assumes ok: "machine_ok ctx bname mc"
    and nb: "k_names mc (real_name bname) = Some ir" "k_names mc (list_name bname) = Some ic"
  shows "block_obj bname 1 (k_objs mc ir)" "block_obj bname 2 (k_objs mc ic)" "ir \<noteq> ic" "ir < k_next mc" "ic < k_next mc"
    "block_size (obj_header (k_objs mc ic)) = claim_size" "length (claims (obj_list (k_objs mc ic))) = 99"
    "obj_len (k_objs mc ic) = 8192" "4096 \<le> obj_len (k_objs mc ir)" "counts_ok mc ir ic" "open_handles mc \<noteq> []"
proof -
  show "open_handles mc \<noteq> []" "counts_ok mc ir ic" using ok nb by (simp_all add: machine_ok_def memory_state_def)
  then obtain x where "x \<in> set (open_handles mc)" by (meson list.set_sel(1))
  then have s: "sound_at ctx bname mc ir ic x" using ok nb by (simp add: machine_ok_def memory_state_def)
  then show "block_obj bname 1 (k_objs mc ir)" "block_obj bname 2 (k_objs mc ic)" "ir \<noteq> ic"
    "block_size (obj_header (k_objs mc ic)) = claim_size" "length (claims (obj_list (k_objs mc ic))) = 99"
    "obj_len (k_objs mc ic) = 8192" "4096 \<le> obj_len (k_objs mc ir)"
    by (simp_all add: sound_at_def mem_ok_def)
  have "at_rest (view mc (fst x))" using ok by (simp add: machine_ok_def)
  then have "kernel_ok (view mc (fst x))" by (rule at_rest_frame)
  note below = handle_ok_below [OF this, of ir] handle_ok_below [OF this, of ic]
  show "ir < k_next mc" "ic < k_next mc" using s below by (auto simp: sound_at_def mem_ok_def)
qed

lemma handle_ok_with_list:
  assumes "kernel_ok w" and "handle_ok w i b"
  shows "handle_ok (with_list bname w) i b"
  using handle_ok_created [OF assms, where bname = bname and bid = 2 and sz = 4096 and acc = IPM_ACCESS_MODE_READ_WRITE and fs = "faults w"]
    handle_ok_cong [of "with_list bname w" "(created bname 2 4096 IPM_ACCESS_MODE_READ_WRITE w)\<lparr>faults := faults w\<rparr>"]
  by (simp add: with_list_def set_list_def)

lemma keeps_created:
  assumes r: "at_rest w" and w0: "w0 = w\<lparr>errno := e, host := h\<rparr>" and q: "quiet (w\<lparr>faults := fs\<rparr>)"
  shows "keeps w ((created bname 1 sz acc (with_list bname w0))\<lparr>faults := fs\<rparr>) []
    [real_memory (new_memory ctx this bname sz acc w), active_claims (new_memory ctx this bname sz acc w)]"
    (is "keeps w ?w [] _")
proof -
  let ?m = "new_memory ctx this bname sz acc w"
  have k0: "kernel_ok w0" using r by (simp add: w0 at_rest_def kernel_ok_def)
  have k1: "kernel_ok (with_list bname w0)"
    using kernel_ok_with_list [OF k0, where bname = bname] by (simp add: kernel_ok_def)
  have "kernel_ok ?w" by (rule kernel_ok_created [OF k1])
  moreover have "handle_ok ?w j b" if "handle_ok w j b" for j b
  proof -
    have "handle_ok w0 j b" using that handle_ok_cong [of w0 w] by (simp add: w0)
    then show ?thesis by (intro handle_ok_created [OF k1] handle_ok_with_list [OF k0])
  qed
  moreover have "objs ?w j = objs w j" if "j < next_obj w" for j
    using that by (simp add: created_def with_list_def set_list_def w0)
  moreover have "dom (fds ?w) = dom (fds w) \<union> mem_fd ` {real_memory ?m, active_claims ?m}"
    "dom (maps ?w) = dom (maps w) \<union> addresses [real_memory ?m, active_claims ?m]"
    by (auto simp: created_def with_list_def set_list_def w0 new_memory_def new_block_def owned_def split: if_splits)
  ultimately show ?thesis using r q
    by (simp add: keeps_def at_rest_def) (simp add: created_def with_list_def set_list_def w0 quiet_def)
qed

end
