(* ===== verification/Library_Calls.thy ===== *)
theory Library_Calls
  imports Library_Machine
begin

text \<open>
  Every call of a process does on the machine of \<^verbatim>\<open>Library_Machine\<close> what \<^verbatim>\<open>Library_Spec\<close> says, while the callbacks
  of the context do not fail.
\<close>

section \<open>Every call does what the specification says\<close>

definition hosts_good :: "(nat \<Rightarrow> 'h \<Rightarrow> bool) \<Rightarrow> nat \<Rightarrow> 'h machine \<Rightarrow> bool" where
  "hosts_good good k mc \<longleftrightarrow> (\<forall>p. good k (host (procs mc p)))"

definition implements ::
  "'h ipm_context \<Rightarrow> string \<Rightarrow> (nat \<Rightarrow> 'h \<Rightarrow> bool) \<Rightarrow> nat \<Rightarrow> call \<Rightarrow> 'h machine \<Rightarrow> bool" where
  "implements ctx bname good k ev mc \<longleftrightarrow>
     (case spec_call ev (promised bname mc) of
        None \<Rightarrow> library_call ctx bname ev mc = Blocked
      | Some (rep, a) \<Rightarrow>
          \<exists>mc'. library_call ctx bname ev mc = Ret (rep, mc') \<and> promised bname mc' = a \<and>
            machine_ok ctx bname mc' \<and> hosts_good good k mc')"

lemma host_view [simp]: "host (view mc p) = host (procs mc p)"
  by (simp add: view_def)

lemma procs_commit: "procs (commit p w mc) q = (if q = p then w else procs mc q)"
  by (simp add: commit_def)

lemma untouched_report [simp]: "untouched w (mem_report ctx msg l f w)"
  by (simp add: untouched_def quiet_def)

lemma mem_ok_listed: "mem_ok (set_list ic l w) ir ic m \<Longrightarrow> length (claims l) = 99"
  by (simp add: mem_ok_def set_list_def)

text \<open>When a claim is refused at once, and how.\<close>

definition claim_refused :: "'h ipm_memory \<Rightarrow> ipm_access_mode \<Rightarrow> size_t \<Rightarrow> size_t \<Rightarrow> bool" where
  "claim_refused m acc off cnt \<longleftrightarrow>
     access_mode (real_memory m) = IPM_ACCESS_MODE_READ_ONLY \<and> acc = IPM_ACCESS_MODE_READ_WRITE \<or>
     mapped_size (real_memory m) < off + cnt"

definition refusal :: "'h ipm_memory \<Rightarrow> ipm_access_mode \<Rightarrow> ipm_result" where
  "refusal m acc =
     (if access_mode (real_memory m) = IPM_ACCESS_MODE_READ_ONLY \<and> acc = IPM_ACCESS_MODE_READ_WRITE
      then IPM_RESULT_ERR_BAD_ACCESS else IPM_RESULT_ERR_BAD_VALUE)"

lemma memory_claim_refused:
  assumes "valid_access acc" and "0 < cnt" and "claim_refused m acc off cnt"
  shows "\<exists>msg l. ipm_memory_claim_region m acc off cnt w =
    Ret (refusal m acc, None, mem_report (mem_ctx m) msg l ''ipm_memory_claim_region'' w)"
  using assms unfolding claim_refused_def refusal_def
  by (cases "access_mode (real_memory m) = IPM_ACCESS_MODE_READ_ONLY \<and> acc = IPM_ACCESS_MODE_READ_WRITE")
    (simp_all add: ipm_memory_claim_region_def; blast)+

text \<open>What a claim through a handle goes by, in the list and in the specification.\<close>

lemma handle_claimsE:
  assumes ok: "machine_ok ctx bname mc" and j: "j < length (open_handles mc)" and pm: "open_handles mc ! j = (p, m)"
  obtains ir ic where "mem_size (promised bname mc) = mapped_size (real_memory m)" "mem_ctx m = ctx"
    "mem_ok (view mc p) ir ic m" "ready (obj_list (k_objs mc ic))" "capacity (obj_list (k_objs mc ic)) = 99"
    "\<forall>acc off cnt. wanted (promised bname mc) j acc off cnt =
       region_claim acc off cnt (access_id (real_memory m)) (obj_list (k_objs mc ic))"
    "\<forall>c. grantable c (obj_list (k_objs mc ic)) \<longleftrightarrow> \<not> must_wait (promised bname mc) c"
    "k_names mc (real_name bname) = Some ir" "k_names mc (list_name bname) = Some ic"
proof -
  obtain ir ic where nb: "k_names mc (real_name bname) = Some ir" "k_names mc (list_name bname) = Some ic"
    and s: "sound_at ctx bname mc ir ic (p, m)" and cnt: "counts_ok mc ir ic" and m: "mem_ok (view mc p) ir ic m"
    using ok j pm by (rule open_handleE)
  note a = promised_Some [OF nb]
  have L: "ready (obj_list (k_objs mc ic))" "capacity (obj_list (k_objs mc ic)) = 99" using cnt by (simp_all add: counts_ok_def)
  show thesis
    by (rule that [OF _ _ m L _ _ nb])
      (use s promised_holder(1) [OF ok j pm] count_full [OF L] in
        \<open>auto simp: a sound_at_def wanted_def grantable_def must_wait_def\<close>)
qed

lemma claim_ids_by_proc:
  assumes "library_ok n (promised bname mc)" and "k_names mc (real_name bname) = Some ir" "k_names mc (list_name bname) = Some ic"
  shows "ids_by_proc (active (obj_list (k_objs mc ic)))"
proof -
  have "distinct (map claim_id (rev (active (obj_list (k_objs mc ic)))))"
    using assms(1) by (simp add: promised_Some [OF assms(2,3)] library_ok_def claims_ok_def)
  from ids_by_proc_distinct [OF this] show ?thesis unfolding ids_by_proc_def set_rev .
qed

text \<open>Releasing all claims of a handle, as a part of closing too.\<close>

lemma release_handle_run:
  assumes ok: "machine_ok ctx bname mc" and lib: "library_ok n (promised bname mc)"
    and pr: "releasable (promised bname mc) j" and pm: "open_handles mc ! j = (p, m)"
    and nb: "k_names mc (real_name bname) = Some ir" "k_names mc (list_name bname) = Some ic"
    and cnt: "counts_ok mc ir ic" and m: "mem_ok (view mc p) ir ic m"
  obtains l where "ipm_memory_release_all m (view mc p) = Ret (IPM_RESULT_SUCCESS, set_list ic l (view mc p))" "ready l"
    "rev (active l) = held_claims (without_claims_of (access_id (real_memory m)) (promised bname mc))"
    "claim_counter l = claim_counter (obj_list (k_objs mc ic))" "capacity l = 99"
    "mem_ok (set_list ic l (view mc p)) ir ic m"
proof -
  let ?L = "obj_list (k_objs mc ic)"
  have j: "j < length (open_handles mc)" using pr holders_length [OF ok] by (simp add: releasable_def)
  note h = promised_holder [OF ok j pm]
  have L: "ready ?L" "capacity ?L = 99" using cnt by (simp_all add: counts_ok_def)
  have room: "count ?L < capacity ?L"
    using pr ready_room [OF L] by (simp add: releasable_def promised_Some [OF nb])
  show thesis
    by (rule memory_release_all_exact [OF m])
      (use that L room claim_ids_by_proc [OF lib nb] pr h(1)
        in \<open>simp_all add: releasable_def without_claims_of_def promised_Some [OF nb]\<close>)
qed

context reliable_callbacks
begin

lemma good_le: "j \<le> k \<Longrightarrow> good k h \<Longrightarrow> good j h"
  by (induction k) (auto simp: le_Suc_eq intro: good_less)

lemma hosts_commit:
  assumes "hosts_good good k mc" and "j \<le> k" and "good j (host w)"
  shows "hosts_good good j (commit p w mc)"
  using assms good_le by (auto simp: hosts_good_def procs_commit)

lemma mem_report_good:
  assumes "good (Suc k) (host w)"
  shows "good k (host (mem_report ctx msg l f w))"
  using report_error_good [OF assms]
  by (simp add: mem_report_def IPM_ERROR_def split: prod.split)

lemma free_handle_good:
  assumes "good k (host w)"
  shows "good k (host (free_handle ctx p w))"
  using ipm_free_good [OF assms] by (simp add: free_handle_def split: prod.split)

text \<open>A call that is refused.\<close>

lemma implements_refused:
  assumes "machine_ok ctx bname mc" and "hosts_good good (k + 3) mc"
    and "spec_call ev (promised bname mc) = Some (rep, promised bname mc)"
    and "library_call ctx bname ev mc = Ret (rep, commit p w mc)"
    and "untouched (view mc p) w" and "good k (host w)"
  shows "implements ctx bname good k ev mc"
  using assms machine_untouched [OF assms(1,5)] hosts_commit [OF assms(2) _ assms(6)]
  by (simp add: implements_def)

text \<open>A call that writes a new claim list.\<close>

lemma implements_list:
  assumes ok: "machine_ok ctx bname mc" and host: "hosts_good good (k + 3) mc"
    and nb: "k_names mc (real_name bname) = Some ir" "k_names mc (list_name bname) = Some ic"
    and m: "mem_ok (view mc p) ir ic m" and l: "ready l" "capacity l = 99" "length (claims l) = 99"
    and spec: "spec_call ev (promised bname mc) =
      Some (rep, (promised bname mc)\<lparr>held_claims := rev (active l), next_claim := claim_counter l\<rparr>)"
    and run: "library_call ctx bname ev mc = Ret (rep, commit p (set_list ic l (view mc p)) mc)"
  shows "implements ctx bname good k ev mc"
proof -
  have "good k (host (set_list ic l (view mc p)))" using host good_le [of k "k + 3"] by (simp add: hosts_good_def)
  then show ?thesis
    using machine_list_edit [OF ok nb m l] hosts_commit [OF host, of k] spec run by (simp add: implements_def)
qed

text \<open>Claiming a region: refused, asleep, or granted.\<close>

lemma implements_claim_refused:
  assumes ok: "machine_ok ctx bname mc" and host: "hosts_good good (k + 3) mc"
    and pr: "proper (promised bname mc) (Claim_region j acc off cnt)"
    and j: "j < length (open_handles mc)" "open_handles mc ! j = (p, m)"
    and no: "claim_refused m acc off cnt"
  shows "implements ctx bname good k (Claim_region j acc off cnt) mc"
proof -
  let ?a = "promised bname mc" and ?r = "refusal m acc"
  obtain ir ic where f: "mem_size ?a = mapped_size (real_memory m)" "mem_ctx m = ctx" "mem_ok (view mc p) ir ic m"
    "ready (obj_list (k_objs mc ic))" "capacity (obj_list (k_objs mc ic)) = 99"
    "\<forall>acc off cnt. wanted ?a j acc off cnt = region_claim acc off cnt (access_id (real_memory m)) (obj_list (k_objs mc ic))"
    "\<forall>c. grantable c (obj_list (k_objs mc ic)) \<longleftrightarrow> \<not> must_wait ?a c"
    "k_names mc (real_name bname) = Some ir" "k_names mc (list_name bname) = Some ic"
    by (rule handle_claimsE [OF ok j])
  obtain msg l where run: "ipm_memory_claim_region m acc off cnt (view mc p) =
      Ret (?r, None, mem_report ctx msg l ''ipm_memory_claim_region'' (view mc p))"
    using memory_claim_refused [OF _ _ no] pr f(2) by force
  have g: "good (Suc k) (host (view mc p))" using host good_le [of "Suc k" "k + 3"] by (simp add: hosts_good_def)
  have "spec_call (Claim_region j acc off cnt) ?a = Some ((?r, None), ?a)"
    using no f(1) promised_holder(2) [OF ok j] by (auto simp: claim_refused_def refusal_def)
  moreover have "library_call ctx bname (Claim_region j acc off cnt) mc =
      Ret ((?r, None), commit p (mem_report ctx msg l ''ipm_memory_claim_region'' (view mc p)) mc)"
    using j run by (simp add: through_def)
  ultimately show ?thesis
    by (rule implements_refused [OF ok host _ _ untouched_report mem_report_good [OF g]])
qed

lemma implements_claim_sleeps:
  assumes ok: "machine_ok ctx bname mc" and pr: "proper (promised bname mc) (Claim_region j acc off cnt)"
    and j: "j < length (open_handles mc)" "open_handles mc ! j = (p, m)" and yes: "\<not> claim_refused m acc off cnt"
    and wait: "must_wait (promised bname mc) (wanted (promised bname mc) j acc off cnt)"
  shows "implements ctx bname good k (Claim_region j acc off cnt) mc"
proof -
  let ?a = "promised bname mc"
  obtain ir ic where f: "mem_size ?a = mapped_size (real_memory m)" "mem_ctx m = ctx" "mem_ok (view mc p) ir ic m"
    "ready (obj_list (k_objs mc ic))" "capacity (obj_list (k_objs mc ic)) = 99"
    "\<forall>acc off cnt. wanted ?a j acc off cnt = region_claim acc off cnt (access_id (real_memory m)) (obj_list (k_objs mc ic))"
    "\<forall>c. grantable c (obj_list (k_objs mc ic)) \<longleftrightarrow> \<not> must_wait ?a c"
    "k_names mc (real_name bname) = Some ir" "k_names mc (list_name bname) = Some ic"
    by (rule handle_claimsE [OF ok j])
  have r: "others (view mc p) = []" "quiet (view mc p)" using ok by (simp_all add: machine_ok_def at_rest_def)
  have "claim_region_list ctx acc off cnt (access_id (real_memory m)) (obj_list (k_objs mc ic)) (view mc p) = Blocked"
    by (rule claim_region_blocked [OF f(4) r(1)]) (use wait f(6,7) in \<open>simp_all add: next_fault_quiet [OF r(2)]\<close>)
  then have "ipm_memory_claim_region m acc off cnt (view mc p) = Blocked"
    using yes pr mem_ok_list [OF f(3)] f(2)
    by (auto simp: ipm_memory_claim_region_def on_list_def read_write_list claim_refused_def)
  then show ?thesis
    using j yes wait f(1) promised_holder(2) [OF ok j] by (auto simp: implements_def through_def claim_refused_def)
qed

lemma implements_claim_granted:
  assumes ok: "machine_ok ctx bname mc" and host: "hosts_good good (k + 3) mc"
    and pr: "proper (promised bname mc) (Claim_region j acc off cnt)"
    and j: "j < length (open_handles mc)" "open_handles mc ! j = (p, m)" and yes: "\<not> claim_refused m acc off cnt"
    and free: "\<not> must_wait (promised bname mc) (wanted (promised bname mc) j acc off cnt)"
  shows "implements ctx bname good k (Claim_region j acc off cnt) mc"
proof -
  let ?a = "promised bname mc"
  obtain ir ic where f: "mem_size ?a = mapped_size (real_memory m)" "mem_ctx m = ctx" "mem_ok (view mc p) ir ic m"
    "ready (obj_list (k_objs mc ic))" "capacity (obj_list (k_objs mc ic)) = 99"
    "\<forall>acc off cnt. wanted ?a j acc off cnt = region_claim acc off cnt (access_id (real_memory m)) (obj_list (k_objs mc ic))"
    "\<forall>c. grantable c (obj_list (k_objs mc ic)) \<longleftrightarrow> \<not> must_wait ?a c"
    "k_names mc (real_name bname) = Some ir" "k_names mc (list_name bname) = Some ic"
    by (rule handle_claimsE [OF ok j])
  note nb = f(8,9)
  let ?L = "obj_list (k_objs mc ic)"
  have c: "valid_access acc" "0 < cnt" "off + cnt \<le> mapped_size (real_memory m)"
    "\<not> (access_mode (real_memory m) = IPM_ACCESS_MODE_READ_ONLY \<and> acc = IPM_ACCESS_MODE_READ_WRITE)"
    using pr yes by (simp_all add: claim_refused_def not_less)
  obtain l where l: "ipm_memory_claim_region m acc off cnt (view mc p) =
      Ret (IPM_RESULT_SUCCESS, Some (claim_counter ?L), set_list ic l (view mc p))" "ready l"
    "active l = added (wanted ?a j acc off cnt) ?L" "claim_counter l = claim_counter ?L + 1" "capacity l = 99"
    "length (claims l) = 99"
    by (rule memory_claim_ok [OF f(3) _ c(1,2,4,3)]) (use f(4-7) free in \<open>simp_all add: mem_ok_listed\<close>)
  have "active l = active ?L @ [wanted ?a j acc off cnt]"
    unfolding l(3) by (rule added_append) (use pr nb in \<open>simp add: promised_Some wanted_def\<close>)
  then show ?thesis
    using free c f(1) j l(1,4) promised_holder(2) [OF ok j]
    by (intro implements_list [OF ok host nb f(3) l(2,5,6)]) (simp_all add: not_less promised_Some [OF nb] through_def)
qed

lemma implements_Claim_region:
  assumes ok: "machine_ok ctx bname mc" and host: "hosts_good good (k + 3) mc"
    and pr: "proper (promised bname mc) (Claim_region j acc off cnt)"
  shows "implements ctx bname good k (Claim_region j acc off cnt) mc"
proof -
  obtain p m where pm: "open_handles mc ! j = (p, m)" by fastforce
  have j: "j < length (open_handles mc)" using pr holders_length [OF ok] by simp
  show ?thesis
    using implements_claim_refused [OF ok host pr j pm] implements_claim_sleeps [OF ok pr j pm]
      implements_claim_granted [OF ok host pr j pm] by blast
qed

lemma implements_Release_region:
  assumes ok: "machine_ok ctx bname mc" and host: "hosts_good good (k + 3) mc"
    and lib: "library_ok n (promised bname mc)" and pr: "proper (promised bname mc) (Release_region j cid)"
  shows "implements ctx bname good k (Release_region j cid) mc"
proof -
  obtain p m where pm: "open_handles mc ! j = (p, m)" by fastforce
  have j: "j < length (open_handles mc)" using pr holders_length [OF ok] by simp
  obtain ir ic where nb: "k_names mc (real_name bname) = Some ir" "k_names mc (list_name bname) = Some ic"
    and cnt: "counts_ok mc ir ic" and m: "mem_ok (view mc p) ir ic m"
    using ok j pm by (rule open_handleE)
  let ?L = "obj_list (k_objs mc ic)"
  have L: "ready ?L" "capacity ?L = 99" using cnt by (simp_all add: counts_ok_def)
  note a = promised_Some [OF nb]
  obtain c cs where cs: "rev (active ?L) = c # cs" "claim_id c = cid" using pr by (cases "rev (active ?L)") (auto simp: a)
  then have act: "active ?L = rev cs @ [c]" by (metis rev.simps(2) rev_rev_ident)
  have "distinct (map claim_id (c # cs))" using lib cs(1) by (simp add: a library_ok_def claims_ok_def)
  then have new: "claim_id c \<notin> claim_id ` set cs" by simp
  then have flt: "filter (\<lambda>c. claim_id c \<noteq> cid) (c # cs) = cs" using cs(2) by (auto simp: filter_id_conv intro: rev_image_eqI)
  have "length (active ?L) < 99" using pr by (simp add: a)
  then have room: "count ?L < capacity ?L" using ready_room L by blast
  obtain l where l: "ipm_memory_release_region m cid (view mc p) = Ret (IPM_RESULT_SUCCESS, set_list ic l (view mc p))"
    "ready l" "active l = rev cs" "claim_counter l = claim_counter ?L" "capacity l = 99" "length (claims l) = 99"
    by (rule memory_release_ok [OF m, of cid])
      (use L room act cs(2) removed_last [of c "rev cs"] new in \<open>simp_all add: mem_ok_listed\<close>)
  show ?thesis
    by (rule implements_list [OF ok host nb m l(2,5,6)])
      (use j pm l flt cs(1) in \<open>simp_all add: through_def a\<close>)
qed

lemma implements_Release_handle:
  assumes ok: "machine_ok ctx bname mc" and host: "hosts_good good (k + 3) mc"
    and lib: "library_ok n (promised bname mc)" and pr: "proper (promised bname mc) (Release_handle j)"
  shows "implements ctx bname good k (Release_handle j) mc"
proof -
  obtain p m where pm: "open_handles mc ! j = (p, m)" by fastforce
  have r: "releasable (promised bname mc) j" using pr by simp
  then have j: "j < length (open_handles mc)" using holders_length [OF ok] by (simp add: releasable_def)
  obtain ir ic where nb: "k_names mc (real_name bname) = Some ir" "k_names mc (list_name bname) = Some ic"
    and cnt: "counts_ok mc ir ic" and m: "mem_ok (view mc p) ir ic m"
    using ok j pm by (rule open_handleE)
  obtain l where l: "ipm_memory_release_all m (view mc p) = Ret (IPM_RESULT_SUCCESS, set_list ic l (view mc p))" "ready l"
    "rev (active l) = held_claims (without_claims_of (access_id (real_memory m)) (promised bname mc))"
    "claim_counter l = claim_counter (obj_list (k_objs mc ic))" "capacity l = 99" "length (claims l) = 99"
    by (rule release_handle_run [OF ok lib r pm nb cnt m]) (simp add: mem_ok_listed)
  show ?thesis
    by (rule implements_list [OF ok host nb m l(2,5,6)])
      (use j pm l promised_holder [OF ok j pm] in \<open>simp_all add: through_def without_claims_of_def promised_Some [OF nb]\<close>)
qed

lemma implements_Remove_claims:
  assumes ok: "machine_ok ctx bname mc" and host: "hosts_good good (k + 3) mc"
    and pr: "proper (promised bname mc) (Remove_claims j)"
  shows "implements ctx bname good k (Remove_claims j) mc"
proof -
  obtain p m where pm: "open_handles mc ! j = (p, m)" by fastforce
  have j: "j < length (open_handles mc)" using pr holders_length [OF ok] by simp
  obtain ir ic where nb: "k_names mc (real_name bname) = Some ir" "k_names mc (list_name bname) = Some ic"
    and cnt: "counts_ok mc ir ic" and m: "mem_ok (view mc p) ir ic m"
    using ok j pm by (rule open_handleE)
  let ?L = "obj_list (k_objs mc ic)"
  have L: "ready ?L" "capacity ?L = 99" "length (claims ?L) = 99" using cnt m by (simp_all add: counts_ok_def mem_ok_def)
  have room: "count ?L < capacity ?L" using pr ready_room [OF L(1,2)] by (simp add: promised_Some [OF nb])
  obtain l where l: "remove_all_list (mem_ctx m) ?L (view mc p) = Ret (IPM_RESULT_SUCCESS, l, view mc p)" "ready l"
    "active l = []" "claim_counter l = claim_counter ?L" "capacity l = 99" "length (claims l) = 99"
    using remove_all_list_Ret [OF L(1), of "view mc p" "mem_ctx m"] room L by auto
  note at = mem_ok_list [OF m]
  have "ipm_memory_remove_all_active_claims m (view mc p) = Ret (IPM_RESULT_SUCCESS, set_list ic l (view mc p))"
    unfolding ipm_memory_remove_all_active_claims_def by (rule on_list_Ret [OF at(1) _ at(1)]) (simp add: l(1))
  then show ?thesis
    by (intro implements_list [OF ok host nb m l(2,5,6)])
      (use j pm l in \<open>simp_all add: through_def promised_Some [OF nb]\<close>)
qed

end

context reliable_callbacks
begin

lemma hosts_handles [simp]:
  "hosts_good good k (mc\<lparr>open_handles := hs\<rparr>) = hosts_good good k mc"
  "hosts_good good k (mc\<lparr>inherited := hs\<rparr>) = hosts_good good k mc"
  by (simp_all add: hosts_good_def)

lemma implements_Close_shared:
  assumes ok: "machine_ok ctx bname mc" and host: "hosts_good good (k + 3) mc"
    and j: "j < length (open_handles mc)" and pm: "open_handles mc ! j = (p, m)" and more: "length (open_handles mc) \<noteq> 1"
    and nb: "k_names mc (real_name bname) = Some ir" "k_names mc (list_name bname) = Some ic"
    and s: "sound_at ctx bname mc ir ic (p, m)" and cnt: "counts_ok mc ir ic" and rest: "at_rest (view mc p)"
    and l: "ipm_memory_release_all m (view mc p) = Ret (IPM_RESULT_SUCCESS, set_list ic l (view mc p))" "ready l"
      "rev (active l) = held_claims (without_claims_of (access_id (real_memory m)) (promised bname mc))"
      "claim_counter l = claim_counter (obj_list (k_objs mc ic))" "capacity l = 99"
      "mem_ok (set_list ic l (view mc p)) ir ic m"
  shows "implements ctx bname good k (Close j) mc"
proof -
  let ?w = "view mc p" and ?hs = "drop_nth j (open_handles mc)" and ?a = "promised bname mc"
  define w1 where "w1 = detached ir (real_memory m) (detached ic (active_claims m) (set_list ic l ?w))"
  define w2 where "w2 = free_handle ctx (mem_at m) w1"
  have ne: "ir \<noteq> ic" and len: "length (claims l) = length (claims (obj_list (objs ?w ic)))"
    using l(6) s by (simp_all add: mem_ok_def sound_at_def set_list_def)
  have o: "objs w2 = (k_objs mc)
      (ic := obj_header_update (\<lambda>h. h\<lparr>refcount := refcount h - 1\<rparr>) ((k_objs mc ic)\<lparr>obj_list := l\<rparr>),
       ir := obj_header_update (\<lambda>h. h\<lparr>refcount := refcount h - 1\<rparr>) (k_objs mc ir))"
    using ne by (simp add: w2_def w1_def detached_def set_list_def)
  have f: "names w2 = k_names mc" "host w1 = host (procs mc p)"
    by (simp_all add: w2_def w1_def detached_def set_list_def)
  note rc = counts_not_last [OF cnt j more]
  have close: "ipm_memory_close m ?w = Ret w2"
    using memory_close_shared [OF l(6,1), of bname] s rc(1) by (simp add: sound_at_def w1_def w2_def)
  have hs: "?hs \<noteq> []" using length_drop_nth [OF j] more by auto
  have kp: "keeps ?w w2 [real_memory m, active_claims m] []"
    unfolding w2_def w1_def by (intro keeps_free_handle keeps_detached [OF l(6) rest len])
  have mok: "machine_ok ctx bname ((commit p w2 mc)\<lparr>open_handles := ?hs\<rparr>)"
  proof (rule machine_ok_closed [OF ok j pm kp])
    assume sd: "\<And>x ir ic. x \<in> set ?hs \<Longrightarrow> sound_at ctx bname mc ir ic x \<Longrightarrow> sound_at ctx bname (commit p w2 mc) ir ic x"
    have "\<forall>x \<in> set ?hs. sound_at ctx bname mc ir ic x"
      using ok nb by (auto simp: machine_ok_def memory_state_def dest!: subsetD [OF set_drop_nth])
    then show "memory_state ctx bname ((commit p w2 mc)\<lparr>open_handles := ?hs\<rparr>)"
      using sd nb hs rc(2) l(2,5) ne by (simp add: memory_state_def counts_ok_def f o)
  qed
  moreover have "promised bname ((commit p w2 mc)\<lparr>open_handles := ?hs\<rparr>) =
      (without_claims_of (access_id (real_memory m)) ?a)\<lparr>holders := drop_nth j (holders ?a)\<rparr>"
    using l(3,4) ne by (simp add: promised_Some nb f o without_claims_of_def map_drop_nth)
  moreover have "good k (host w2)"
    using host good_le [of k "k + 3"] f(2) by (simp add: w2_def free_handle_good hosts_good_def)
  ultimately show ?thesis
    using hosts_commit [OF host, of k w2 p] close j pm more promised_holder [OF ok j pm] holders_length [OF ok]
    by (simp add: implements_def through_def)
qed

lemma implements_Close_last:
  assumes ok: "machine_ok ctx bname mc" and host: "hosts_good good (k + 3) mc" and nm: "good_name bname"
    and j: "j < length (open_handles mc)" and pm: "open_handles mc ! j = (p, m)" and one: "length (open_handles mc) = 1"
    and nb: "k_names mc (real_name bname) = Some ir" "k_names mc (list_name bname) = Some ic"
    and s: "sound_at ctx bname mc ir ic (p, m)" and cnt: "counts_ok mc ir ic" and rest: "at_rest (view mc p)"
    and l: "ipm_memory_release_all m (view mc p) = Ret (IPM_RESULT_SUCCESS, set_list ic l (view mc p))"
      "mem_ok (set_list ic l (view mc p)) ir ic m"
  shows "implements ctx bname good k (Close j) mc"
proof -
  let ?w = "view mc p"
  have hs: "drop_nth j (open_handles mc) = []" using length_drop_nth [OF j] one by auto
  define w1 where "w1 = detached ir (real_memory m) (unlinked (list_name bname) ic destroyed_list
    (detached ic (active_claims m) (set_list ic l ?w)))"
  define w2 where "w2 = free_handle ctx (mem_at m) (unlinked (real_name bname) ir (\<lambda>l. l) w1)"
  have rc: "refcount (obj_header (k_objs mc i)) = 1" if "i \<in> {ir, ic}" for i
    using cnt that one by (auto simp: counts_ok_def word_unat_eq_iff)
  have close: "ipm_memory_close m ?w = Ret w2"
    using memory_close_last_run [OF l(2,1) nm] rest s rc nb
    by (simp add: sound_at_def w1_def w2_def at_rest_def)
  have ne: "ir \<noteq> ic" and len: "length (claims l) = length (claims (obj_list (objs ?w ic)))"
    using l(2) s by (simp_all add: mem_ok_def sound_at_def set_list_def)
  have kp: "keeps ?w w2 [real_memory m, active_claims m] []"
    unfolding w2_def w1_def detached_unlinked [OF ne]
    by (intro keeps_free_handle keeps_unlinked keeps_detached [OF l(2) rest len]) simp_all
  have f: "names w2 (real_name bname) = None" "names w2 (list_name bname) = None"
    "host (unlinked (real_name bname) ir (\<lambda>l. l) w1) = host (procs mc p)"
    by (simp_all add: w2_def w1_def detached_def unlinked_def set_list_def)
  have "machine_ok ctx bname ((commit p w2 mc)\<lparr>open_handles := []\<rparr>)"
    using machine_ok_closed [OF ok j pm kp] f hs by (simp add: memory_state_def)
  moreover have "promised bname ((commit p w2 mc)\<lparr>open_handles := []\<rparr>) = no_memory (heirs (promised bname mc))"
    using f nb by (simp add: promised_def no_memory_def)
  moreover have "good k (host w2)"
    using host good_le [of k "k + 3"] f(3) by (simp add: w2_def free_handle_good hosts_good_def)
  ultimately show ?thesis
    using hosts_commit [OF host, of k w2 p] close j pm one hs holders_length [OF ok]
    by (simp add: implements_def through_def)
qed

lemma implements_Close:
  assumes ok: "machine_ok ctx bname mc" and host: "hosts_good good (k + 3) mc" and nm: "good_name bname"
    and lib: "library_ok n (promised bname mc)" and n: "n < 2 ^ 32" and pr: "proper (promised bname mc) (Close j)"
  shows "implements ctx bname good k (Close j) mc"
proof -
  let ?a = "promised bname mc"
  obtain p m where pm: "open_handles mc ! j = (p, m)" by fastforce
  have r: "releasable ?a j" using pr by simp
  then have j: "j < length (open_handles mc)" using holders_length [OF ok] by (simp add: releasable_def)
  obtain ir ic where nb: "k_names mc (real_name bname) = Some ir" "k_names mc (list_name bname) = Some ic"
    and s: "sound_at ctx bname mc ir ic (p, m)" and cnt: "counts_ok mc ir ic" and rest: "at_rest (view mc p)"
    and m: "mem_ok (view mc p) ir ic m"
    using ok j pm by (rule open_handleE)
  let ?w = "view mc p"
  obtain l where l: "ipm_memory_release_all m ?w = Ret (IPM_RESULT_SUCCESS, set_list ic l ?w)" "ready l"
    "rev (active l) = held_claims (without_claims_of (access_id (real_memory m)) ?a)"
    "claim_counter l = claim_counter (obj_list (k_objs mc ic))" "capacity l = 99" "mem_ok (set_list ic l ?w) ir ic m"
    by (rule release_handle_run [OF ok lib r pm nb cnt m])
  show ?thesis
  proof (cases "length (open_handles mc) = 1")
    case True
    then show ?thesis by (rule implements_Close_last [OF ok host nm j pm _ nb s cnt rest l(1,6)])
  next
    case False
    then show ?thesis by (rule implements_Close_shared [OF ok host j pm _ nb s cnt rest l])
  qed
qed

lemma implements_Clean:
  assumes ok: "machine_ok ctx bname mc" and host: "hosts_good good (k + 3) mc" and pr: "proper (promised bname mc) (Clean j)"
  shows "implements ctx bname good k (Clean j) mc"
proof -
  obtain p m where pm: "inherited mc ! j = (p, m)" by fastforce
  have heirs: "heirs (promised bname mc) = map fst (inherited mc)" by (simp add: promised_def split: option.split)
  then have j: "j < length (inherited mc)" using pr by simp
  then have "(p, m) \<in> set (inherited mc)" using pm by (metis nth_mem)
  then obtain ir ic where s: "sound_at ctx bname mc ir ic (p, m)" using ok unfolding machine_ok_def by blast
  let ?w = "view mc p" and ?ih = "drop_nth j (inherited mc)"
  have m: "mem_ok ?w ir ic m" using s by (simp add: sound_at_def)
  have rest: "at_rest ?w" using ok by (simp add: machine_ok_def)
  define w1 where "w1 = forgotten (real_memory m) (forgotten (active_claims m) ?w)"
  define w2 where "w2 = free_handle ctx (mem_at m) w1"
  have run: "ipm_memory_clean m ?w = Ret w2"
    using memory_clean_ok [OF m, of bname] s by (simp add: w1_def w2_def sound_at_def)
  have kp: "keeps ?w w2 [real_memory m, active_claims m] []"
    unfolding w2_def w1_def by (intro keeps_free_handle keeps_forgotten [OF m rest])
  have f: "names w2 = k_names mc" "objs w2 = k_objs mc" "host w1 = host (procs mc p)" by (simp_all add: w2_def w1_def)
  have "machine_ok ctx bname ((commit p w2 mc)\<lparr>inherited := ?ih\<rparr>)"
    using ok j pm kp f(1,2) by (rule machine_ok_left)
  moreover have "promised bname ((commit p w2 mc)\<lparr>inherited := ?ih\<rparr>) = (promised bname mc)\<lparr>heirs := drop_nth j (heirs (promised bname mc))\<rparr>"
    unfolding heirs using f by (simp add: promised_def no_memory_def map_drop_nth split: option.split)
  moreover have "good k (host w2)"
    using host good_le [of k "k + 3"] f(3) by (simp add: w2_def free_handle_good hosts_good_def)
  ultimately show ?thesis
    using hosts_commit [OF host, of k w2 p] run j pm by (simp add: implements_def through_def)
qed

end

section \<open>Forking\<close>

lemma implements_Fork:
  assumes ok: "machine_ok ctx bname mc" and host: "hosts_good good k mc" and pr: "proper (promised bname mc) (Fork p q)"
  shows "implements ctx bname good k (Fork p q) mc"
proof -
  have "heirs (promised bname mc) = map fst (inherited mc)" by (simp add: promised_def split: option.split)
  moreover have "fst x \<noteq> q" if "x \<in> set (open_handles mc @ inherited mc)" for x
    using pr that calculation by (force simp: promised_holders [OF ok] holder_def)
  then have "machine_ok ctx bname (forked p q mc)" by (intro machine_ok_forked [OF ok])
  moreover have "hosts_good good k (forked p q mc)" using host by (simp add: hosts_good_def forked_def)
  ultimately show ?thesis using promised_forked [OF ok, of p q] by (simp add: implements_def)
qed

context reliable_callbacks
begin

lemma ipm_alloc_good:
  assumes "good (Suc k) (host w)"
  obtains this h where "ipm_alloc ctx sz l f w = (this, w\<lparr>errno := errno w, host := h\<rparr>)" "this \<noteq> NULL" "good k h"
proof -
  obtain p e h where a: "ipm_alloc_real ctx sz ''ipm_memory.c'' l f (errno w, host w) = (p, e, h)" by (metis surj_pair)
  show thesis using alloc_real_good [OF assms a] a by (intro that) (auto simp: ipm_alloc_def)
qed

lemma implements_Open_existing:
  assumes ok: "machine_ok ctx bname mc" and host: "hosts_good good (k + 3) mc"
    and nm: "good_name bname" "CHR ''/'' \<notin> set bname" and acc: "valid_access acc"
    and lib: "library_ok n (promised bname mc)" and n: "n < 2 ^ 32 - 2"
    and nb: "k_names mc (real_name bname) = Some ir" "k_names mc (list_name bname) = Some ic"
  shows "implements ctx bname good k (Open p acc) mc"
proof -
  let ?w = "view mc p" and ?a = "promised bname mc"
  note o = memory_objects [OF ok nb]
  have rest: "at_rest ?w" using ok by (simp add: machine_ok_def)
  have len: "length (open_handles mc) \<le> n" using lib holders_length [OF ok] by (simp add: library_ok_def holders_ok_def)
  have "length (open_handles mc) < 2 ^ 32 - 2" using len n by simp
  note rc = counts_one_more [OF o(10) this o(11)]
  have "good (Suc (k + 2)) (host ?w)" using host by (simp add: hosts_good_def numeral_3_eq_3)
  then obtain this h where al: "ipm_alloc ctx sizeof_ipm_memory 89 ''ipm_memory_open'' ?w =
      (this, ?w\<lparr>errno := errno ?w, host := h\<rparr>)" "this \<noteq> NULL" and gh: "good (k + 2) h" by (rule ipm_alloc_good)
  define w0 where "w0 = ?w\<lparr>errno := errno ?w, host := h\<rparr>"
  let ?m = "opened_memory ctx this bname ir ic acc ?w"
  obtain fs where q: "quiet (?w\<lparr>faults := fs\<rparr>)" and run: "ipm_memory_open ctx bname acc ?w =
      Ret (IPM_RESULT_SUCCESS, Some ?m, (opened ic IPM_ACCESS_MODE_READ_WRITE (opened ir acc w0))\<lparr>faults := fs\<rparr>)"
    using memory_open_run [OF at_rest_frame(2) [OF rest] nm acc _ _ o(3) _ _ _ _ al] nb o(1,2) rc(1) by (auto simp: w0_def)
  define w2 where "w2 = (opened ic IPM_ACCESS_MODE_READ_WRITE (opened ir acc w0))\<lparr>faults := fs\<rparr>"
  have kp: "keeps ?w w2 [] [real_memory ?m, active_claims ?m]" unfolding w2_def by (rule keeps_opened [OF rest w0_def q]) (use o in simp_all)
  have f: "names w2 = k_names mc" "host w2 = h" "objs w2 = (k_objs mc)
      (ir := obj_header_update (\<lambda>h. h\<lparr>refcount := refcount h + 1, id_counter := id_counter h + 1\<rparr>) (k_objs mc ir),
       ic := obj_header_update (\<lambda>h. h\<lparr>refcount := refcount h + 1, id_counter := id_counter h + 1\<rparr>) (k_objs mc ic))"
    using o(3) by (simp_all add: w2_def opened_def w0_def)
  have "handle_ok w2 ir (real_memory ?m) \<and> handle_ok w2 ic (active_claims ?m)"
    using memory_open_ok [OF at_rest_frame(1,2) [OF rest] nm acc _ _ o(3) _ _ _ _ al] run nb o(1,2) rc(1)
    by (auto simp: w2_def)
  moreover have "view (commit p w2 mc) p = w2" by (simp add: view_commit)
  ultimately have new: "sound_at ctx bname (commit p w2 mc) ir ic (p, ?m)"
    using o by (simp add: sound_at_def mem_ok_def f block_obj_count) (simp add: opened_memory_def new_block_def)
  have "machine_ok ctx bname ((commit p w2 mc)\<lparr>open_handles := open_handles mc @ [(p, ?m)]\<rparr>)"
  proof (rule machine_ok_new_handle [OF ok kp fresh_opened_memory])
    assume "\<And>x ir ic. x \<in> set (open_handles mc) \<Longrightarrow> sound_at ctx bname mc ir ic x \<Longrightarrow> sound_at ctx bname (commit p w2 mc) ir ic x"
    moreover have "\<forall>x \<in> set (open_handles mc). sound_at ctx bname mc ir ic x"
      using ok nb by (simp add: machine_ok_def memory_state_def)
    ultimately show "memory_state ctx bname ((commit p w2 mc)\<lparr>open_handles := open_handles mc @ [(p, ?m)]\<rparr>)"
      using nb new rc(2) o(3,10) by (auto simp: memory_state_def counts_ok_def f)
  qed
  moreover have "promised bname ((commit p w2 mc)\<lparr>open_handles := open_handles mc @ [(p, ?m)]\<rparr>) =
      ?a\<lparr>holders := holders ?a @ [(p, next_access ?a, acc)], next_access := next_access ?a + 1\<rparr>"
    using nb o(3) by (simp add: promised_Some f holder_def opened_memory_def new_block_def)
  moreover have "holders ?a \<noteq> []" using holders_length [OF ok] o(11) by auto
  ultimately show ?thesis
    using hosts_commit [OF host, of k w2 p] run [folded w2_def] good_le [OF _ gh, of k] f(2)
    by (simp add: implements_def)
qed

lemma shm_report_good:
  assumes "good (Suc k) (host w)"
  shows "good k (host (shm_report ctx msg l f w))" and "errno (shm_report ctx msg l f w) = errno w"
  using report_error_good [OF assms]
  by (simp_all add: shm_report_def IPM_ERROR_def split: prod.split)

lemma implements_Open_missing:
  assumes ok: "machine_ok ctx bname mc" and host: "hosts_good good (k + 3) mc"
    and nm: "good_name bname" "CHR ''/'' \<notin> set bname" and acc: "valid_access acc"
    and nb: "k_names mc (real_name bname) = None"
  shows "implements ctx bname good k (Open p acc) mc"
proof -
  let ?w = "view mc p" and ?f = "''shared_memory_block_open''"
  have q: "quiet ?w" using ok by (simp add: machine_ok_def at_rest_frame)
  have len: "length bname \<le> IPM_MAX_NAME_LEN" using nm(1) by (simp add: good_name_def)
  have "good (Suc (k + 2)) (host ?w)" using host by (simp add: hosts_good_def numeral_3_eq_3)
  then obtain this h where al: "ipm_alloc ctx sizeof_ipm_memory 89 ''ipm_memory_open'' ?w =
      (this, ?w\<lparr>errno := errno ?w, host := h\<rparr>)" "this \<noteq> NULL" and gh: "good (k + 2) h" by (rule ipm_alloc_good)
  define w1 where "w1 = ?w\<lparr>host := h, faults := tl (faults ?w), errno := ENOENT\<rparr>"
  define w2 where "w2 = shm_report ctx ([Lit ''Could not open block with id '', HexId 1] @ errno_reason w1) 160 ?f w1"
  define w3 where "w3 = free_handle ctx this (mem_report ctx
    ([Lit ''Could not open the shared memory block '', Str bname] @ result_reason IPM_RESULT_ERR_DOES_NOT_EXIST) 102
    ''ipm_memory_open'' w2)"
  have g1: "good (Suc (Suc k)) (host w1)" using gh by (simp add: w1_def)
  have g2: "good (Suc k) (host w2)" "errno w2 = errno w1" unfolding w2_def by (rule shm_report_good [OF g1])+
  have "quiet (?w\<lparr>errno := errno ?w, host := h\<rparr>)" using q by (simp add: quiet_def)
  then have "shared_memory_block_open ctx bname 1 acc poisoned (?w\<lparr>errno := errno ?w, host := h\<rparr>) =
      Ret (IPM_RESULT_ERR_DOES_NOT_EXIST, poisoned, w2)"
    using len nb g2(2) by (simp add: shared_memory_block_open_def shm_open_def next_fault_quiet w2_def w1_def Let_def)
  then have run: "ipm_memory_open ctx bname acc ?w = Ret (IPM_RESULT_ERR_DOES_NOT_EXIST, None, w3)"
    using nm acc len al by (simp add: ipm_memory_open_def IPM_MEMORY_BLOCK_REAL_MEMORY_def w3_def)
  have "untouched ?w w3" using quiet_tl [OF q]
    by (simp add: untouched_def w3_def w2_def w1_def quiet_def)
  moreover have "good k (host w3)" unfolding w3_def by (intro free_handle_good mem_report_good g2(1))
  moreover have "open_handles mc = []" using ok nb by (auto simp: machine_ok_def memory_state_def split: option.splits)
  moreover have "(commit p w3 mc)\<lparr>open_handles := open_handles mc\<rparr> = commit p w3 mc" by (simp add: commit_def)
  ultimately show ?thesis
    using run holders_length [OF ok]
    by (intro implements_refused [OF ok host, where p = p and w = w3]) simp_all
qed

lemma implements_Create_exists:
  assumes ok: "machine_ok ctx bname mc" and host: "hosts_good good (k + 3) mc"
    and nm: "good_name bname" "CHR ''/'' \<notin> set bname" and pr: "proper (promised bname mc) (Create p sz acc)"
    and nb: "k_names mc (list_name bname) = Some ic"
  shows "implements ctx bname good k (Create p sz acc) mc"
proof -
  let ?w = "view mc p"
  have q: "quiet ?w" using ok by (simp add: machine_ok_def at_rest_frame)
  have len: "length bname \<le> IPM_MAX_NAME_LEN" using nm(1) by (simp add: good_name_def)
  have "good (Suc (k + 2)) (host ?w)" using host by (simp add: hosts_good_def numeral_3_eq_3)
  then obtain this h w0 where al: "ipm_alloc ctx sizeof_ipm_memory 31 ''ipm_memory_create'' ?w = (this, w0)" "this \<noteq> NULL"
    and gh: "good (k + 2) h" and w0: "w0 = ?w\<lparr>errno := errno ?w, host := h\<rparr>" by (metis ipm_alloc_good)
  define w1 where "w1 = w0\<lparr>faults := tl (faults w0), errno := EEXIST\<rparr>"
  define w2 where "w2 = free_handle ctx this (mem_report ctx
    ([Lit ''Could not create the shared memory block claim list '', Str bname] @ result_reason IPM_RESULT_ERR_EXISTS) 48
    ''ipm_memory_create'' w1)"
  have sz: "0 < sz" "unat sz < 2 ^ 62" "valid_access acc" using pr by simp_all
  have f0: "quiet w0" "ndebug w0 = ndebug ?w" "names w0 = k_names mc" using q by (simp_all add: quiet_def w0)
  have "shared_memory_block_create ctx bname 2 4096 IPM_ACCESS_MODE_READ_WRITE poisoned w0 =
      Ret (IPM_RESULT_ERR_EXISTS, poisoned, w1)"
    unfolding w1_def by (rule block_create_exists [OF f0(1) len]) (use nb f0 in \<open>simp_all add: word_less_nat_alt\<close>)
  then have run: "ipm_memory_create ctx sz bname acc ?w = Ret (IPM_RESULT_ERR_EXISTS, None, w2)"
    by (simp add: memory_create_starts [OF nm sz(3,1,2) al] w2_def)
  have "untouched ?w w2" using quiet_tl [OF q] by (simp add: untouched_def w2_def w1_def w0 quiet_def)
  moreover have "good (Suc k) (host w1)" using good_le [OF _ gh, of "Suc k"] by (simp add: w1_def w0)
  then have "good k (host w2)" unfolding w2_def by (intro free_handle_good mem_report_good)
  moreover have "open_handles mc \<noteq> []" using ok nb by (auto simp: machine_ok_def memory_state_def split: option.splits)
  moreover have "(commit p w2 mc)\<lparr>open_handles := open_handles mc\<rparr> = commit p w2 mc" by (simp add: commit_def)
  moreover have "holders (promised bname mc) \<noteq> []" using holders_length [OF ok] calculation(3) by auto
  ultimately show ?thesis
    using run by (intro implements_refused [OF ok host, where p = p and w = w2]) simp_all
qed

lemma implements_Create_new:
  assumes ok: "machine_ok ctx bname mc" and host: "hosts_good good (k + 3) mc"
    and nm: "good_name bname" "CHR ''/'' \<notin> set bname" and pr: "proper (promised bname mc) (Create p sz acc)"
    and nb: "k_names mc (real_name bname) = None" "k_names mc (list_name bname) = None"
  shows "implements ctx bname good k (Create p sz acc) mc"
proof -
  let ?w = "view mc p" and ?ic = "k_next mc" and ?ir = "Suc (k_next mc)"
  have rest: "at_rest ?w" using ok by (simp add: machine_ok_def)
  have sz: "valid_access acc" "0 < sz" "unat sz < 2 ^ 62" using pr by simp_all
  have "good (Suc (k + 2)) (host ?w)" using host by (simp add: hosts_good_def numeral_3_eq_3)
  then obtain this h w0 where al: "ipm_alloc ctx sizeof_ipm_memory 31 ''ipm_memory_create'' ?w = (this, w0)" "this \<noteq> NULL"
    and gh: "good (k + 2) h" and w0: "w0 = ?w\<lparr>errno := errno ?w, host := h\<rparr>" by (metis ipm_alloc_good)
  have new: "\<forall>bid \<in> {1, 2}. names ?w (make_block_name_based_on_id name_buffer_size bname bid) = None" using nb by simp
  note cr = at_rest_frame(1,2) [OF rest] nm sz new al
  let ?m = "new_memory ctx this bname (round_size sz) acc ?w"
  obtain fs where q: "quiet (?w\<lparr>faults := fs\<rparr>)" and run: "ipm_memory_create ctx sz bname acc ?w =
      Ret (IPM_RESULT_SUCCESS, Some ?m, (created bname 1 (round_size sz) acc (with_list bname w0))\<lparr>faults := fs\<rparr>)"
    using memory_create_run [OF cr] by blast
  define w2 where "w2 = (created bname 1 (round_size sz) acc (with_list bname w0))\<lparr>faults := fs\<rparr>"
  have kp: "keeps ?w w2 [] [real_memory ?m, active_claims ?m]" unfolding w2_def by (rule keeps_created [OF rest w0 q])
  have e: "open_handles mc = []" using ok nb by (simp add: machine_ok_def memory_state_def)
  have m: "mem_ok w2 ?ir ?ic ?m" "obj_list (objs w2 ?ic) = fresh_list"
    "block_obj bname 2 (objs w2 ?ic)" "block_obj bname 1 (objs w2 ?ir)"
    "refcount (obj_header (objs w2 ?ic)) = 1" "refcount (obj_header (objs w2 ?ir)) = 1"
    "block_size (obj_header (objs w2 ?ic)) = claim_size" "block_size (obj_header (objs w2 ?ir)) = round_size sz"
    "names w2 = (k_names mc)(list_name bname \<mapsto> ?ic, real_name bname \<mapsto> ?ir)" "host w2 = h"
    using memory_create_ok [OF cr] run [folded w2_def] by (auto simp: w0)
  have "id_counter (obj_header (objs w2 ?ir)) = 2"
    by (simp add: w2_def created_def with_list_facts w0 new_obj_def new_header_def resize_obj_def)
  moreover have "mem_ctx ?m = ctx" "mapped_size (real_memory ?m) = round_size sz" "access_id (real_memory ?m) = 1"
    "access_mode (real_memory ?m) = acc"
    by (simp_all add: new_memory_def new_block_def)
  moreover have nbs: "names w2 (real_name bname) = Some ?ir" "names w2 (list_name bname) = Some ?ic"
    using m(9) block_name_inj [of bname bname 1 2] nm(1) by (auto simp: good_name_def)
  ultimately have pm: "promised bname ((commit p w2 mc)\<lparr>open_handles := open_handles mc @ [(p, ?m)]\<rparr>) =
      snd (the (spec_call (Create p sz acc) (promised bname mc)))"
    and snd: "sound_at ctx bname (commit p w2 mc) ?ir ?ic (p, ?m)"
    using m e nb fresh_list_ready
    by (simp_all add: promised_Some sound_at_def view_commit holder_def promised_def fresh_list_def)
  have "machine_ok ctx bname ((commit p w2 mc)\<lparr>open_handles := open_handles mc @ [(p, ?m)]\<rparr>)"
    by (rule machine_ok_new_handle [OF ok kp fresh_new_memory])
      (use nbs snd m e fresh_list_ready in \<open>simp add: memory_state_def counts_ok_def fresh_list_def\<close>)
  moreover have "holders (promised bname mc) = []" using holders_length [OF ok] e by simp
  ultimately show ?thesis
    using hosts_commit [OF host, of k w2 p] run [folded w2_def] good_le [OF _ gh, of k] m(10) pm
    by (simp add: implements_def)
qed

text \<open>All calls.\<close>

lemma implements_call:
  assumes ok: "machine_ok ctx bname mc" and host: "hosts_good good (k + 3) mc"
    and nm: "good_name bname" "CHR ''/'' \<notin> set bname"
    and lib: "library_ok n (promised bname mc)" and n: "n < 2 ^ 32 - 2" and pr: "proper (promised bname mc) ev"
  shows "implements ctx bname good k ev mc"
proof (cases ev)
  case (Create p sz acc)
  then show ?thesis
    using implements_Create_exists [OF ok host nm] implements_Create_new [OF ok host nm] pr ok
    by (cases "k_names mc (list_name bname)") (auto simp: machine_ok_def memory_state_def split: option.splits)
next
  case (Open p acc)
  then show ?thesis
    using implements_Open_existing [OF ok host nm _ lib n] implements_Open_missing [OF ok host nm] pr ok
    by (cases "k_names mc (real_name bname)") (auto simp: machine_ok_def memory_state_def split: option.splits)
next
  case (Close j)
  then show ?thesis using implements_Close [OF ok host nm(1) lib, of j] n pr by simp
next
  case (Fork p q)
  have "hosts_good good k mc" using host good_le [of k "k + 3"] by (simp add: hosts_good_def)
  then show ?thesis using implements_Fork [OF ok] pr Fork by simp
qed (use implements_Claim_region [OF ok host] implements_Release_region [OF ok host lib] implements_Release_handle [OF ok host lib]
    implements_Remove_claims [OF ok host] implements_Clean [OF ok host] pr in simp_all)

end

end
