(* ===== verification/Library_Runs.thy ===== *)
theory Library_Runs
  imports Library_Calls
begin

text \<open>
  The runs of all clients on the machine of \<^verbatim>\<open>Library_Machine\<close>: they cannot tell the library from its specification,
  the counts of the shared objects are the numbers of handles, and claims exclude each other.
\<close>

section \<open>The machine as an implementation of the specification\<close>

text \<open>The machine before anybody has used the memory.\<close>

definition unused :: "string \<Rightarrow> 'h machine \<Rightarrow> bool" where
  "unused bname mc \<longleftrightarrow>
     (\<forall>p. at_rest (view mc p) \<and> dom (fds (procs mc p)) = {} \<and> dom (maps (procs mc p)) = {}) \<and>
     open_handles mc = [] \<and> inherited mc = [] \<and> k_names mc (real_name bname) = None \<and> k_names mc (list_name bname) = None"

text \<open>A machine that is sound for \<open>n\<close> more calls, of at most \<open>2\<^sup>3\<^sup>2 - 2\<close> in all.\<close>

definition machine_sound_for :: "'h ipm_context \<Rightarrow> string \<Rightarrow> (nat \<Rightarrow> 'h \<Rightarrow> bool) \<Rightarrow> nat \<Rightarrow> 'h machine \<Rightarrow> bool" where
  "machine_sound_for ctx bname good n mc \<longleftrightarrow>
     machine_ok ctx bname mc \<and> hosts_good good (3 * n) mc \<and>
     (\<exists>j. library_ok j (promised bname mc) \<and> j + n < 2 ^ 32 - 2)"

lemma unused_ok:
  assumes "unused bname mc"
  shows "machine_ok ctx bname mc" and "promised bname mc = no_memory []"
  using assms
  by (simp_all add: unused_def machine_ok_def memory_state_def promised_def no_memory_def apart_def
      owns_exactly_def view_def)

lemma unused_sound:
  assumes "unused bname mc" and "hosts_good good (3 * n) mc" and "n < 2 ^ 32 - 2"
  shows "machine_sound_for ctx bname good n mc"
  using assms unused_ok(1) [OF assms(1), of ctx] unused_ok(2) [OF assms(1)] library_ok_start [of 0]
  by (auto simp: machine_sound_for_def intro!: exI [of _ 0])

text \<open>Conversely, a sound machine that stands for no memory is as it was before anybody had used it.\<close>

lemma unusedI:
  assumes ok: "machine_ok ctx bname mc" and p: "promised bname mc = no_memory []"
  shows "unused bname mc"
proof -
  have h: "open_handles mc = []" "inherited mc = []" using p by (simp_all add: promised_def no_memory_def)
  then have "k_names mc (real_name bname) = None" "k_names mc (list_name bname) = None"
    using ok by (auto simp: machine_ok_def memory_state_def split: option.splits)
  moreover have "dom (fds (procs mc q)) = {} \<and> dom (maps (procs mc q)) = {}" for q
    using machine_owns [OF ok, of q] h by (simp add: owns_exactly_def addresses_def view_def)
  ultimately show ?thesis using ok h by (simp add: unused_def machine_ok_def)
qed

text \<open>A memory with a name the library accepts, used through callbacks that do not fail.\<close>

locale named_memory = reliable_callbacks ctx good
  for ctx :: "'h ipm_context" and good :: "nat \<Rightarrow> 'h \<Rightarrow> bool" +
  fixes bname :: string
  assumes name_ok: "good_name bname" and no_slash: "CHR ''/'' \<notin> set bname"
begin

lemma machine_step:
  assumes "machine_sound_for ctx bname good (Suc n) mc" and "proper (promised bname mc) ev"
  shows "implements ctx bname good (3 * n) ev mc"
  using assms implements_call [OF _ _ name_ok no_slash, of mc "3 * n" _ ev]
  by (auto simp: machine_sound_for_def ac_simps)

lemma machine_replies:
  assumes s: "machine_sound_for ctx bname good (Suc n) mc" and pr: "proper (promised bname mc) ev"
    and sp: "spec_call ev (promised bname mc) = Some (rep, a)"
  shows "\<exists>mc'. library_call ctx bname ev mc = Ret (rep, mc') \<and> promised bname mc' = a \<and>
    machine_sound_for ctx bname good n mc'"
proof -
  obtain mc' where mc': "library_call ctx bname ev mc = Ret (rep, mc')" "promised bname mc' = a" "machine_ok ctx bname mc'"
    "hosts_good good (3 * n) mc'"
    using machine_step [OF s pr] sp by (auto simp: implements_def)
  obtain j where j: "library_ok j (promised bname mc)" "j + Suc n < 2 ^ 32 - 2"
    using s by (auto simp: machine_sound_for_def)
  have "library_ok (Suc j) a" using library_ok_call [OF j(1) pr _ sp] j(2) by simp
  then show ?thesis using mc' j(2) by (auto simp: machine_sound_for_def intro!: exI [of _ "Suc j"])
qed

end

sublocale named_memory \<subseteq> machine: library_interface "library_call ctx bname" "promised bname" "machine_sound_for ctx bname good"
proof
  fix n mc ev
  assume s: "machine_sound_for ctx bname good (Suc n) mc"
  then obtain j where "library_ok j (promised bname mc)" "j + n < 2 ^ 32 - 2" by (force simp: machine_sound_for_def)
  moreover have "hosts_good good (3 * n) mc" using s good_le [of "3 * n" "3 * Suc n"]
    by (simp add: machine_sound_for_def hosts_good_def)
  ultimately show "machine_sound_for ctx bname good n mc" using s by (auto simp: machine_sound_for_def)
  assume pr: "proper (promised bname mc) ev"
  show "library_call ctx bname ev mc = Blocked" if "spec_call ev (promised bname mc) = None"
    using machine_step [OF s pr] that by (simp add: implements_def)
  show "\<exists>mc'. library_call ctx bname ev mc = Ret (rep, mc') \<and> promised bname mc' = a \<and>
      machine_sound_for ctx bname good n mc'" if "spec_call ev (promised bname mc) = Some (rep, a)" for rep a
    by (rule machine_replies [OF s pr that])
qed

context named_memory
begin

text \<open>A client of a memory nobody has used yet, and the state it leaves.\<close>

lemma client_from_unused:
  assumes "unused bname mc" and "hosts_good good (3 * n) mc" and "calls_within c n" and "n < 2 ^ 32 - 2"
    and "proper_client c (no_memory [])"
  shows "case run_client spec_step c (no_memory []) of
      Ret (x, a) \<Rightarrow> \<exists>mc'. run_client (library_call ctx bname) c mc = Ret (x, mc') \<and> promised bname mc' = a \<and>
        machine_sound_for ctx bname good 0 mc'
    | Blocked \<Rightarrow> run_client (library_call ctx bname) c mc = Blocked
    | Abort \<Rightarrow> run_client (library_call ctx bname) c mc = Abort
    | UB \<Rightarrow> False"
  using machine.client_refines [OF unused_sound [OF assms(1,2,4)] assms(3)] assms(5) unused_ok(2) [OF assms(1)] by metis

lemma client_end_state:
  assumes "unused bname mc" and "hosts_good good (3 * n) mc" and "calls_within c n" and "n < 2 ^ 32 - 2"
    and "proper_client c (no_memory [])" and run: "run_client (library_call ctx bname) c mc = Ret (x, mc')"
  shows "machine_ok ctx bname mc'" and "\<exists>j. library_ok j (promised bname mc')"
  using client_from_unused [OF assms(1-5)] run by (auto simp: machine_sound_for_def split: outcome.splits)

end

interpretation test_memory: named_memory test_ctx malloc_lasts cool_block
  by unfold_locales (fact cool_block_ok(1) cool_block_no_slash)+

lemma promised_ids:
  assumes "machine_ok ctx bname mc"
  shows "map (fst \<circ> snd) (holders (promised bname mc)) = map (\<lambda>x. access_id (real_memory (snd x))) (open_handles mc)"
  using assms by (auto simp: machine_ok_def memory_state_def promised_def holder_def split: option.splits)


section \<open>Examples\<close>

text \<open>A machine whose processes have not used the library yet.\<close>

definition sample_machine :: "test_host machine" where
  "sample_machine =
     \<lparr>k_names = Map.empty, k_objs = (\<lambda>_. empty_obj), k_next = 0, procs = (\<lambda>p. sample_world\<lparr>self := p\<rparr>),
      open_handles = [], inherited = []\<rparr>"

lemma sample_machine_unused: "unused bname sample_machine"
  by (simp add: unused_def sample_machine_def view_def sample_world_def at_rest_def kernel_ok_def quiet_def)

lemma sample_machine_lasts: "k \<le> 100 \<Longrightarrow> hosts_good malloc_lasts k sample_machine"
  by (simp add: hosts_good_def malloc_lasts_def sample_machine_def sample_world_def)

text \<open>One process creates a memory and claims a part of it; another one opens it for reading, and asks for too much.\<close>

definition sample_run :: "reply list client" where
  "sample_run =
     Ask (Create 1 69 IPM_ACCESS_MODE_READ_WRITE) (\<lambda>r1.
     Ask (Open 2 IPM_ACCESS_MODE_READ_ONLY) (\<lambda>r2.
     Ask (Claim_region 0 IPM_ACCESS_MODE_READ_WRITE 0 16) (\<lambda>r3.
     Ask (Claim_region 1 IPM_ACCESS_MODE_READ_WRITE 32 16) (\<lambda>r4.
     Done [r1, r2, r3, r4]))))"

definition sample_claimed :: ipm_memory_claim where
  "sample_claimed = \<lparr>claim_id = 0, proc_id = 1, access = IPM_ACCESS_MODE_READ_WRITE, offset = 0, region_size = 16\<rparr>"

lemma sample_run_within: "calls_within sample_run 4"
  by (simp add: sample_run_def eval_nat_numeral)

lemma sample_run_spec:
  "proper_client sample_run (no_memory [])"
  "run_client spec_step sample_run (no_memory []) =
     Ret ([(IPM_RESULT_SUCCESS, None), (IPM_RESULT_SUCCESS, None), (IPM_RESULT_SUCCESS, Some 0),
           (IPM_RESULT_ERR_BAD_ACCESS, None)],
       \<lparr>holders = [(1, 1, IPM_ACCESS_MODE_READ_WRITE), (2, 2, IPM_ACCESS_MODE_READ_ONLY)], heirs = [], mem_size = 4096,
        next_access = 3, held_claims = [sample_claimed], next_claim = 1\<rparr>)"
  by (simp_all add: sample_run_def sample_claimed_def round_size_69 valid_access_def must_wait_def wanted_def holder_id_def
      spec_step_def word_less_nat_alt)

lemma sample_machine_hosts: "hosts_good malloc_lasts (3 * 4) sample_machine"
  by (rule sample_machine_lasts) simp

lemma sample_run_runs:
  obtains reps mc' ic where "run_client (library_call test_ctx cool_block) sample_run sample_machine = Ret (reps, mc')"
    "k_names mc' (list_name cool_block) = Some ic" "active (obj_list (k_objs mc' ic)) = [sample_claimed]"
proof -
  obtain reps mc' where "run_client (library_call test_ctx cool_block) sample_run sample_machine = Ret (reps, mc')"
    "held_claims (promised cool_block mc') = [sample_claimed]"
    using test_memory.client_from_unused [OF sample_machine_unused sample_machine_hosts sample_run_within _ sample_run_spec(1)]
    by (auto simp: sample_run_spec(2))
  then show thesis using that by (auto simp: promised_def split: option.splits)
qed

section \<open>Properties\<close>

text \<open>
  C1. In serial runs the library implements its specification. Take any number of processes, a memory nobody has used, callbacks
  that do not fail and system calls that do not fail, and any program of the processes that uses the library properly;
  which process makes which call next may depend on all replies so far, but each call runs alone from its beginning to its
  end. Then every call returns exactly the result and the claim id that the specification says: the program ends with the
  same value, no assertion of the library fails and no behaviour is undefined, and afterwards the objects of the kernel and
  the handles stand for the state of the specification; or the specification says that a caller would have to wait, and
  then the run ends there, because that call would; or an assertion of the program fails with both. Nothing is said about
  what a caller that sleeps gets later, nor about calls that overlap.
\<close>

theorem library_refines_spec:
  assumes "named_memory ctx good bname" and "unused bname mc" and "hosts_good good (3 * n) mc"
    and "calls_within c n" and "n < 2 ^ 32 - 2" and "proper_client c (no_memory [])"
  shows "case run_client spec_step c (no_memory []) of
      Ret (x, a) \<Rightarrow> \<exists>mc'. run_client (library_call ctx bname) c mc = Ret (x, mc') \<and> promised bname mc' = a
    | Blocked \<Rightarrow> run_client (library_call ctx bname) c mc = Blocked
    | Abort \<Rightarrow> run_client (library_call ctx bname) c mc = Abort
    | UB \<Rightarrow> False"
  using named_memory.client_from_unused [OF assms] by (auto split: outcome.splits)

theorem library_refines_spec_witness:
  "\<exists>mc'. run_client (library_call test_ctx cool_block) sample_run sample_machine =
      Ret ([(IPM_RESULT_SUCCESS, None), (IPM_RESULT_SUCCESS, None), (IPM_RESULT_SUCCESS, Some 0),
            (IPM_RESULT_ERR_BAD_ACCESS, None)], mc') \<and>
    held_claims (promised cool_block mc') = [sample_claimed]"
  using library_refines_spec [OF test_memory.named_memory_axioms sample_machine_unused sample_machine_hosts
      sample_run_within _ sample_run_spec(1)]
  by (auto simp: sample_run_spec(2))

text \<open>
  C3. What holds at the end of every such run, and so after every call of it: both names exist exactly while some process has
  the memory open, both reference counts are the number of open handles, no two handles have the same access id,
  every process has exactly the descriptors and the mappings of its handles, open or inherited, and nothing else.
\<close>

theorem library_counts_handles:
  assumes "named_memory ctx good bname" and "unused bname mc" and "hosts_good good (3 * n) mc"
    and "calls_within c n" and "n < 2 ^ 32 - 2" and "proper_client c (no_memory [])"
    and "run_client (library_call ctx bname) c mc = Ret (x, mc')"
  shows "(k_names mc' (real_name bname) = None \<longleftrightarrow> open_handles mc' = []) \<and>
    (k_names mc' (list_name bname) = None \<longleftrightarrow> open_handles mc' = []) \<and>
    (\<forall>i. k_names mc' (real_name bname) = Some i \<or> k_names mc' (list_name bname) = Some i \<longrightarrow>
       unat (refcount (obj_header (k_objs mc' i))) = length (open_handles mc')) \<and>
    distinct (map (\<lambda>x. access_id (real_memory (snd x))) (open_handles mc')) \<and>
    (\<forall>p. owns_exactly (view mc' p) (blocks_of p (open_handles mc' @ inherited mc')))"
proof -
  note st = named_memory.client_end_state [OF assms]
  obtain j where "library_ok j (promised bname mc')" using st(2) by blast
  then have "distinct (map (fst \<circ> snd) (holders (promised bname mc')))" by (simp add: library_ok_def holders_ok_def)
  then have "distinct (map (\<lambda>x. access_id (real_memory (snd x))) (open_handles mc'))" unfolding promised_ids [OF st(1)] .
  then show ?thesis using st(1) machine_owns [OF st(1)]
    by (auto simp: machine_ok_def memory_state_def counts_ok_def split: option.splits)
qed

theorem library_counts_handles_witness:
  "\<exists>reps mc'. run_client (library_call test_ctx cool_block) sample_run sample_machine = Ret (reps, mc') \<and>
    (k_names mc' (real_name cool_block) = None \<longleftrightarrow> open_handles mc' = [])"
proof -
  obtain reps mc' where run: "run_client (library_call test_ctx cool_block) sample_run sample_machine = Ret (reps, mc')"
    by (rule sample_run_runs)
  have "k_names mc' (real_name cool_block) = None \<longleftrightarrow> open_handles mc' = []"
    using library_counts_handles [OF test_memory.named_memory_axioms sample_machine_unused sample_machine_hosts
        sample_run_within _ sample_run_spec(1) run] by simp
  then show ?thesis using run by (intro exI conjI)
qed

text \<open>
  C2. Exclusion, from end to end: in every such run the claims in the shared list belong to handles that are open, and two of
  them that share a byte and belong to different handles are both for reading.
\<close>

theorem library_excludes:
  assumes "named_memory ctx good bname" and "unused bname mc" and "hosts_good good (3 * n) mc"
    and "calls_within c n" and "n < 2 ^ 32 - 2" and "proper_client c (no_memory [])"
    and "run_client (library_call ctx bname) c mc = Ret (x, mc')"
    and "k_names mc' (list_name bname) = Some ic"
    and "c1 \<in> set (active (obj_list (k_objs mc' ic)))" and "c2 \<in> set (active (obj_list (k_objs mc' ic)))"
  shows "(\<exists>y \<in> set (open_handles mc'). access_id (real_memory (snd y)) = proc_id c1) \<and>
    (proc_id c1 \<noteq> proc_id c2 \<longrightarrow> region c1 \<inter> region c2 \<noteq> {} \<longrightarrow>
       access c1 = IPM_ACCESS_MODE_READ_ONLY \<and> access c2 = IPM_ACCESS_MODE_READ_ONLY)"
proof -
  note st = named_memory.client_end_state [OF assms(1-7)]
  obtain j where lib: "library_ok j (promised bname mc')" using st(2) by blast
  obtain ir where ir: "k_names mc' (real_name bname) = Some ir"
    using st(1) assms(8) by (auto simp: machine_ok_def memory_state_def split: option.splits)
  have "claims_ok j (set (map (fst \<circ> snd) (holders (promised bname mc'))))
      (rev (active (obj_list (k_objs mc' ic)))) (next_claim (promised bname mc'))"
    using lib by (simp add: library_ok_def promised_Some [OF ir assms(8)] image_image)
  then have cl: "claims_ok j ((\<lambda>x. access_id (real_memory (snd x))) ` set (open_handles mc'))
      (rev (active (obj_list (k_objs mc' ic)))) (next_claim (promised bname mc'))"
    unfolding promised_ids [OF st(1)] by simp
  then have "no_wrap c1" "no_wrap c2" "\<not> claims_conflict c1 c2" using assms(9,10) by (auto simp: claims_ok_def compatible_def)
  moreover have "proc_id c1 \<in> (\<lambda>x. access_id (real_memory (snd x))) ` set (open_handles mc')"
    using cl assms(9) unfolding claims_ok_def set_rev by blast
  then have "\<exists>y \<in> set (open_handles mc'). access_id (real_memory (snd y)) = proc_id c1" by (elim imageE) (rule bexI, simp_all)
  ultimately show ?thesis using claims_conflict_no_wrap [of c1 c2] by blast
qed

theorem library_excludes_witness:
  "\<exists>reps mc' ic x. run_client (library_call test_ctx cool_block) sample_run sample_machine = Ret (reps, mc') \<and>
    active (obj_list (k_objs mc' ic)) = [sample_claimed] \<and> x \<in> set (open_handles mc') \<and> access_id (real_memory (snd x)) = 1"
proof -
  obtain reps mc' ic where run: "run_client (library_call test_ctx cool_block) sample_run sample_machine = Ret (reps, mc')"
    "k_names mc' (list_name cool_block) = Some ic" "active (obj_list (k_objs mc' ic)) = [sample_claimed]"
    by (rule sample_run_runs)
  obtain x where x: "x \<in> set (open_handles mc')" "access_id (real_memory (snd x)) = proc_id sample_claimed"
    using library_excludes [OF test_memory.named_memory_axioms sample_machine_unused sample_machine_hosts
        sample_run_within _ sample_run_spec(1) run(1,2), of sample_claimed sample_claimed] run(3) by auto
  show ?thesis
    using run(1,3) x by (intro exI [of _ reps] exI [of _ mc'] exI [of _ ic] exI [of _ x]) (simp add: sample_claimed_def)
qed

text \<open>
  C4. What the queries say through every open handle after every such run: \<^verbatim>\<open>ipm_memory_ref_count\<close> gives the number of open
  handles of all processes, \<^verbatim>\<open>ipm_memory_get_info\<close> the number of the claims that are held, the size of the memory and the
  access mode and id of the handle, and \<^verbatim>\<open>ipm_memory_pointer\<close> is not null.
\<close>

theorem library_reports:
  assumes "named_memory ctx good bname" and "unused bname mc" and "hosts_good good (3 * n) mc"
    and "calls_within c n" and "n < 2 ^ 32 - 2" and "proper_client c (no_memory [])"
    and "run_client (library_call ctx bname) c mc = Ret (x, mc')"
    and "k < length (open_handles mc')" and "open_handles mc' ! k = (p, m)"
  shows "ipm_memory_ref_count m (view mc' p) = Ret (word_of_nat (length (open_handles mc'))) \<and>
    (\<exists>info. ipm_memory_get_info m (view mc' p) = Ret info \<and>
       unat (info_active_claims info) = length (held_claims (promised bname mc')) \<and>
       info_block_size info = mem_size (promised bname mc') \<and>
       (p, info_access_id info, memory_access_mode info) = holders (promised bname mc') ! k) \<and>
    ipm_memory_pointer m \<noteq> NULL"
proof -
  note ok = named_memory.client_end_state(1) [OF assms(1-7)]
  obtain ir ic where nb: "k_names mc' (real_name bname) = Some ir" "k_names mc' (list_name bname) = Some ic"
    and s: "sound_at ctx bname mc' ir ic (p, m)" and cnt: "counts_ok mc' ir ic" and m: "mem_ok (view mc' p) ir ic m"
    using ok assms(8,9) by (rule open_handleE)
  have h: "handle_ok (view mc' p) ir (real_memory m)" "4096 \<le> obj_len (objs (view mc' p) ir)"
    using m by (simp_all add: mem_ok_def)
  have "unat (refcount (obj_header (k_objs mc' ir))) = length (open_handles mc')" using cnt by (simp add: counts_ok_def)
  then have rc: "refcount (obj_header (k_objs mc' ir)) = word_of_nat (length (open_handles mc'))" by (metis of_nat_unat ucast_id)
  have "ipm_memory_ref_count m (view mc' p) = Ret (word_of_nat (length (open_handles mc')))"
    using handle_header [OF h] rc by (simp add: ipm_memory_ref_count_def read_header_def)
  moreover have "unat (count (obj_list (k_objs mc' ic))) = length (active (obj_list (k_objs mc' ic)))"
    using cnt list_wfD(5) [of "obj_list (k_objs mc' ic)"] by (simp add: counts_ok_def ready_def)
  moreover have "ipm_memory_pointer m \<noteq> NULL" using h(1) by (auto simp: ipm_memory_pointer_def elim!: handle_okE)
  ultimately show ?thesis
    using mem_ok_list(1) [OF m] s assms(8,9)
    by (simp add: ipm_memory_get_info_def read_write_list promised_Some [OF nb] holder_def sound_at_def)
qed

theorem library_reports_witness:
  "\<exists>reps mc' p m. run_client (library_call test_ctx cool_block) sample_run sample_machine = Ret (reps, mc') \<and>
    ipm_memory_ref_count m (view mc' p) = Ret 2"
proof -
  obtain reps mc' where run: "run_client (library_call test_ctx cool_block) sample_run sample_machine = Ret (reps, mc')"
    and two: "length (holders (promised cool_block mc')) = 2"
    using test_memory.client_from_unused [OF sample_machine_unused sample_machine_hosts sample_run_within _ sample_run_spec(1)]
    by (auto simp: sample_run_spec(2))
  note ok = test_memory.client_end_state(1) [OF sample_machine_unused sample_machine_hosts sample_run_within _ sample_run_spec(1) run]
  have len: "length (open_handles mc') = 2" using two holders_length [OF ok] by simp
  obtain p m where pm: "open_handles mc' ! 0 = (p, m)" by fastforce
  have "ipm_memory_ref_count m (view mc' p) = Ret 2"
    using library_reports [OF test_memory.named_memory_axioms sample_machine_unused sample_machine_hosts sample_run_within _
        sample_run_spec(1) run _ pm] len by simp
  then show ?thesis using run by blast
qed

end
