(* ===== verification/Test_Programs.thy ===== *)
theory Test_Programs
  imports IPM_Memory
begin

text \<open>
  \<^verbatim>\<open>tests/single_test.c\<close> with the helpers of \<^verbatim>\<open>tests/test_common.c\<close>, as a program over the model: one process
  creates a memory, makes and releases two overlapping claims through one handle, closes the memory and finds
  it gone. What it prints about the claims is its result; a failed \<^verbatim>\<open>ASSERT\<close> stops it.
\<close>

section \<open>The program\<close>

definition test_assert :: "bool \<Rightarrow> 'a outcome \<Rightarrow> 'a outcome" where
  "test_assert P k = (if P then k else Abort)"

definition claim_line :: "ipm_memory_claim \<Rightarrow> string" where
  "claim_line claim =
     fmt_string
       [Lit ''(ipm_memory_claim) {.claim_id = '', Zu (claim_id claim), Lit '', .proc_id = '', Zu (proc_id claim),
        Lit '', access = '', Str (if access claim = IPM_ACCESS_MODE_READ_WRITE then ''RW'' else ''RO''),
        Lit '', .offset = '', Zu (offset claim), Lit '', .size = '', Zu (region_size claim), Lit ''}'',
        Lit [CHR 10]]"

definition print_claims ::
  "'h ipm_memory \<Rightarrow> ('h, 'a) world_scheme \<Rightarrow> string list outcome" where
  "print_claims mem w =
     c_assert (ndebug w) (memory (active_claims mem) \<noteq> NULL)
     (bind_outcome (read_list (memory (active_claims mem)) w) (\<lambda>l.
      if unat (count l) \<le> length (claims l) then Ret (map claim_line (take (unat (count l)) (claims l)))
      else UB))"

definition single_test :: "(test_host, 'a) world_scheme \<Rightarrow> (string list list \<times> (test_host, 'a) world_scheme) outcome" where
  "single_test w =
     bind_outcome (ipm_memory_create test_ctx 69 ''cool_block'' IPM_ACCESS_MODE_READ_WRITE w) (\<lambda>(res, mem, w).
     test_assert (res = IPM_RESULT_SUCCESS)
     (case mem of
        None \<Rightarrow> UB
      | Some mem \<Rightarrow>
     bind_outcome (ipm_memory_get_info mem w) (\<lambda>block_info.
     test_assert (info_active_claims block_info = 0)
     (test_assert (memory_access_mode block_info = IPM_ACCESS_MODE_READ_WRITE)
     (test_assert (info_block_size block_info \<ge> 69)
     (bind_outcome (ipm_memory_claim_region mem IPM_ACCESS_MODE_READ_WRITE 16 16 w) (\<lambda>(res, claim_id1, w).
     test_assert (res = IPM_RESULT_SUCCESS)
     (bind_outcome (print_claims mem w) (\<lambda>point1.
     bind_outcome (ipm_memory_claim_region mem IPM_ACCESS_MODE_READ_WRITE 24 16 w) (\<lambda>(res, claim_id2, w).
     test_assert (res = IPM_RESULT_SUCCESS)
     (bind_outcome (print_claims mem w) (\<lambda>point2.
     bind_outcome (case claim_id2 of None \<Rightarrow> UB | Some i \<Rightarrow> ipm_memory_release_region mem i w) (\<lambda>(res, w).
     test_assert (res = IPM_RESULT_SUCCESS)
     (bind_outcome (print_claims mem w) (\<lambda>point3.
     bind_outcome (case claim_id1 of None \<Rightarrow> UB | Some i \<Rightarrow> ipm_memory_release_region mem i w) (\<lambda>(res, w).
     test_assert (res = IPM_RESULT_SUCCESS)
     (bind_outcome (print_claims mem w) (\<lambda>point4.
     bind_outcome (ipm_memory_close mem w) (\<lambda>w.
     bind_outcome (ipm_memory_open test_ctx ''cool_block'' IPM_ACCESS_MODE_READ_WRITE w) (\<lambda>(res, m, w).
     test_assert (res = IPM_RESULT_ERR_DOES_NOT_EXIST)
     (Ret ([point1, point2, point3, point4], w))))))))))))))))))))))"

section \<open>The run\<close>

lemma test_assert_True [simp]: "test_assert True k = k"
  by (simp add: test_assert_def)

lemma keeps_errno_test:
  assumes "0 < malloc_budget h"
  shows "keeps_errno test_ctx h"
  unfolding keeps_errno_def
  using assms
  by (simp add: ipm_report_error_def ipm_alloc_real_def ipm_free_def test_ctx_def allocate_callback_def
      deallocate_callback_def common_error_report_fn_def Let_def)

lemma memory_open_missing:
  assumes q: "quiet w" and nm: "length bname \<le> IPM_MAX_NAME_LEN" "CHR ''/'' \<notin> set bname" and acc: "valid_access acc"
    and none: "names w (make_block_name_based_on_id name_buffer_size bname 1) = None"
    and alloc: "ipm_alloc ctx sizeof_ipm_memory 89 ''ipm_memory_open'' w = (this, w0)" "this \<noteq> NULL"
    and ke: "keeps_errno ctx (host w0)"
  shows "\<exists>w'. ipm_memory_open ctx bname acc w = Ret (IPM_RESULT_ERR_DOES_NOT_EXIST, None, w')"
proof -
  obtain e h where w0: "w0 = w\<lparr>errno := e, host := h\<rparr>" using ipm_alloc_frame [OF alloc(1)] by blast
  have "quiet w0" using q by (simp add: w0 quiet_def)
  then obtain w1 where "shared_memory_block_open ctx bname 1 acc poisoned w0 =
      Ret (IPM_RESULT_ERR_DOES_NOT_EXIST, poisoned, w1)"
    using block_open_missing [of w0 bname 1 ctx acc poisoned] nm(1) none ke by (auto simp: w0)
  moreover have "ndebug w0 = ndebug w" by (simp add: w0)
  ultimately show ?thesis
    using nm acc alloc by (simp add: ipm_memory_open_def IPM_MEMORY_BLOCK_REAL_MEMORY_def Let_def)
qed

lemma print_claims_ready:
  assumes "mem_ok w ir ic mem" and "ready (obj_list (objs w ic))"
  shows "print_claims mem w = Ret (map claim_line (active (obj_list (objs w ic))))"
proof -
  have "unat (count (obj_list (objs w ic))) \<le> length (claims (obj_list (objs w ic)))"
    using assms(2) list_wfD(3) by (simp add: ready_def)
  then show ?thesis using mem_ok_list [OF assms(1)]
    by (simp add: print_claims_def read_write_list active_def)
qed

text \<open>Claiming and releasing through a handle that holds all active claims, at the end of the list.\<close>

lemma claim_next:
  assumes ok: "mem_ok (set_list ic l w) ir ic mem" and rdy: "ready l" and cap: "capacity l = 99"
    and few: "length (active l) < 99" and own: "\<forall>c \<in> set (active l). proc_id c = 1 \<and> offset c \<le> off"
    and mem: "access_mode (real_memory mem) = IPM_ACCESS_MODE_READ_WRITE" "access_id (real_memory mem) = 1"
      "off + 16 \<le> mapped_size (real_memory mem)"
  obtains l' where "ipm_memory_claim_region mem IPM_ACCESS_MODE_READ_WRITE off 16 (set_list ic l w) =
      Ret (IPM_RESULT_SUCCESS, Some (claim_counter l), set_list ic l' w)"
    "active l' = active l @ [sample_claim (claim_counter l) 1 off]" "ready l'" "capacity l' = 99"
    "claim_counter l' = claim_counter l + 1" "mem_ok (set_list ic l' w) ir ic mem"
proof -
  let ?rw = IPM_ACCESS_MODE_READ_WRITE
  let ?c = "region_claim ?rw off 16 (access_id (real_memory mem)) l"
  have c: "?c = sample_claim (claim_counter l) 1 off" using mem(2) by (simp add: sample_claim_def)
  have g: "grantable ?c l" using ready_room [OF rdy cap few] own mem(2) by (simp add: grantable_def)
  have a: "added ?c l = active l @ [?c]" by (rule added_append) (use own in simp)
  have va: "valid_access ?rw" "(0 :: size_t) < 16"
    "\<not> (access_mode (real_memory mem) = IPM_ACCESS_MODE_READ_ONLY \<and> ?rw = ?rw)"
    using mem(1) by (simp_all add: valid_access_def word_less_nat_alt)
  show thesis
    by (rule memory_claim_ok [OF ok _ va mem(3)]) (use rdy g a c cap that in simp_all)
qed

lemma release_last:
  assumes ok: "mem_ok (set_list ic l w) ir ic mem" and rdy: "ready l" and cap: "capacity l = 99"
    and few: "length (active l) < 99" and last: "active l = cs @ [c]" "claim_id c \<notin> claim_id ` set cs"
  obtains l' where "ipm_memory_release_region mem (claim_id c) (set_list ic l w) = Ret (IPM_RESULT_SUCCESS, set_list ic l' w)"
    "active l' = cs" "ready l'" "capacity l' = 99" "mem_ok (set_list ic l' w) ir ic mem"
  by (rule memory_release_ok [OF ok, of "claim_id c"])
    (use rdy ready_room [OF rdy cap few] removed_last [OF last(2)] last(1) cap that in simp_all)

lemma single_test_claims:
  assumes ok: "mem_ok w ir ic mem" and fresh: "obj_list (objs w ic) = fresh_list"
    and mem: "access_mode (real_memory mem) = IPM_ACCESS_MODE_READ_WRITE" "access_id (real_memory mem) = 1"
      "40 \<le> mapped_size (real_memory mem)"
  obtains l1 l2 l3 l4 where
    "ipm_memory_claim_region mem IPM_ACCESS_MODE_READ_WRITE 16 16 w = Ret (IPM_RESULT_SUCCESS, Some 0, set_list ic l1 w)"
    "active l1 = [sample_claim 0 1 16]" "ready l1" "mem_ok (set_list ic l1 w) ir ic mem"
    "ipm_memory_claim_region mem IPM_ACCESS_MODE_READ_WRITE 24 16 (set_list ic l1 w) =
      Ret (IPM_RESULT_SUCCESS, Some 1, set_list ic l2 w)"
    "active l2 = [sample_claim 0 1 16, sample_claim 1 1 24]" "ready l2" "mem_ok (set_list ic l2 w) ir ic mem"
    "ipm_memory_release_region mem 1 (set_list ic l2 w) = Ret (IPM_RESULT_SUCCESS, set_list ic l3 w)"
    "active l3 = [sample_claim 0 1 16]" "ready l3" "mem_ok (set_list ic l3 w) ir ic mem"
    "ipm_memory_release_region mem 0 (set_list ic l3 w) = Ret (IPM_RESULT_SUCCESS, set_list ic l4 w)"
    "active l4 = []" "ready l4" "capacity l4 = 99" "mem_ok (set_list ic l4 w) ir ic mem"
proof -
  have w: "w = set_list ic fresh_list w" using fresh by (cases w) (simp add: set_list_def fun_upd_idem)
  have f: "active fresh_list = []" "ready fresh_list" "capacity fresh_list = 99" "claim_counter fresh_list = 0"
    using fresh_list_ready by (simp_all add: fresh_list_def)
  have sz: "(16 :: size_t) + 16 \<le> mapped_size (real_memory mem)" "(24 :: size_t) + 16 \<le> mapped_size (real_memory mem)"
    using mem(3) by (simp_all add: word_le_nat_alt)
  obtain l1 where l1: "ipm_memory_claim_region mem IPM_ACCESS_MODE_READ_WRITE 16 16 w =
      Ret (IPM_RESULT_SUCCESS, Some 0, set_list ic l1 w)"
    "active l1 = [sample_claim 0 1 16]" "ready l1" "capacity l1 = 99" "claim_counter l1 = 1"
    "mem_ok (set_list ic l1 w) ir ic mem"
    by (rule claim_next [of ic fresh_list w ir mem 16, folded w]) (use ok f mem sz in simp_all)
  obtain l2 where l2: "ipm_memory_claim_region mem IPM_ACCESS_MODE_READ_WRITE 24 16 (set_list ic l1 w) =
      Ret (IPM_RESULT_SUCCESS, Some 1, set_list ic l2 w)"
    "active l2 = [sample_claim 0 1 16, sample_claim 1 1 24]" "ready l2" "capacity l2 = 99"
    "mem_ok (set_list ic l2 w) ir ic mem"
    by (rule claim_next [OF l1(6,3,4), of 24]) (use l1 mem sz in \<open>simp_all add: sample_claim_def word_le_nat_alt\<close>)
  obtain l3 where l3: "ipm_memory_release_region mem 1 (set_list ic l2 w) = Ret (IPM_RESULT_SUCCESS, set_list ic l3 w)"
    "active l3 = [sample_claim 0 1 16]" "ready l3" "capacity l3 = 99" "mem_ok (set_list ic l3 w) ir ic mem"
    by (rule release_last [OF l2(5,3,4), of "[sample_claim 0 1 16]" "sample_claim 1 1 24"])
      (use l2 in \<open>simp_all add: sample_claim_def\<close>)
  obtain l4 where l4: "ipm_memory_release_region mem 0 (set_list ic l3 w) = Ret (IPM_RESULT_SUCCESS, set_list ic l4 w)"
    "active l4 = []" "ready l4" "capacity l4 = 99" "mem_ok (set_list ic l4 w) ir ic mem"
    by (rule release_last [OF l3(5,3,4), of "[]" "sample_claim 0 1 16"])
      (use l3 in \<open>simp_all add: sample_claim_def\<close>)
  show thesis by (rule that) (fact l1 l2 l3 l4)+
qed

text \<open>The end of the test: the only handle is closed, and then the memory cannot be opened.\<close>

lemma close_then_open_fails:
  assumes ok: "mem_ok w ir ic mem" and l: "ready (obj_list (objs w ic))" "active (obj_list (objs w ic)) = []"
      "count (obj_list (objs w ic)) < capacity (obj_list (objs w ic))"
    and q: "quiet w" and mem: "mem_ctx mem = test_ctx" "1 < malloc_budget (host w)"
    and objc: "block_obj cool_block 2 (objs w ic)" "refcount (obj_header (objs w ic)) = 1"
      "block_size (obj_header (objs w ic)) = claim_size"
    and objr: "block_obj cool_block 1 (objs w ir)" "refcount (obj_header (objs w ir)) = 1"
      "block_size (obj_header (objs w ir)) = mapped_size (real_memory mem)"
    and nb: "names w (make_block_name_based_on_id name_buffer_size cool_block 2) = Some ic"
      "names w (make_block_name_based_on_id name_buffer_size cool_block 1) = Some ir"
  shows "\<exists>w1 w2. ipm_memory_close mem w = Ret w1 \<and>
    ipm_memory_open test_ctx cool_block IPM_ACCESS_MODE_READ_WRITE w1 = Ret (IPM_RESULT_ERR_DOES_NOT_EXIST, None, w2)"
proof -
  let ?nb = "make_block_name_based_on_id name_buffer_size cool_block"
  have ids: "ids_by_proc (active (obj_list (objs w ic)))" using l(2) by (simp add: ids_by_proc_def)
  obtain w0 where w0: "ipm_memory_close mem w = Ret (free_handle test_ctx (mem_at mem) w0)"
    "names w0 = (names w)(?nb 2 := None, ?nb 1 := None)" "quiet w0" "host w0 = host w"
    using memory_close_last [OF ok l(1) _ ids cool_block_ok(1) q objc objr nb] l(3) mem(1) by auto
  define w1 where "w1 = free_handle test_ctx (mem_at mem) w0"
  have q1: "quiet w1" using w0(3) by (simp add: w1_def quiet_def)
  have b1: "malloc_budget (host w1) = malloc_budget (host w)"
    using w0(4)
    by (simp add: w1_def free_handle_def ipm_free_def test_ctx_def deallocate_callback_def Let_def split: ptr.split)
  have n1: "names w1 (?nb 1) = None" using w0(2) by (simp add: w1_def)
  obtain w2 where a: "ipm_alloc test_ctx sizeof_ipm_memory 89 ''ipm_memory_open'' w1 = (Addr (next_block (host w1)), w2)"
    and h2: "malloc_budget (host w2) = malloc_budget (host w1) - 1"
    using test_alloc [of w1 sizeof_ipm_memory 89 "''ipm_memory_open''"] b1 mem(2) by auto
  have va: "valid_access IPM_ACCESS_MODE_READ_WRITE" by (simp add: valid_access_def)
  have "\<exists>w3. ipm_memory_open test_ctx cool_block IPM_ACCESS_MODE_READ_WRITE w1 = Ret (IPM_RESULT_ERR_DOES_NOT_EXIST, None, w3)"
    using memory_open_missing [OF q1 _ cool_block_no_slash va n1 a] keeps_errno_test [of "host w2"] h2 b1 mem(2)
    by (auto simp: IPM_MAX_NAME_LEN_def)
  then show ?thesis using w0(1) by (auto simp: w1_def)
qed

section \<open>Properties\<close>

text \<open>
  C28. The test program passes: started in any process in which no system call fails, the name is free and
  three allocations succeed, every assertion of the test and of the library holds, the claims printed are the two that
  were made, in the order of their offsets, and at the end the memory cannot be opened any more.
\<close>
theorem single_test_passes:
  assumes "kernel_ok w" and "quiet w" and "2 < malloc_budget (host w)"
    and "\<forall>bid \<in> {1, 2}. names w (make_block_name_based_on_id name_buffer_size cool_block bid) = None"
  shows "\<exists>w'. single_test w =
    Ret ([[claim_line (sample_claim 0 1 16)],
          [claim_line (sample_claim 0 1 16), claim_line (sample_claim 1 1 24)],
          [claim_line (sample_claim 0 1 16)], []], w')"
proof -
  let ?rw = IPM_ACCESS_MODE_READ_WRITE
  let ?nb = "make_block_name_based_on_id name_buffer_size cool_block"
  let ?ic = "next_obj w" and ?ir = "Suc (next_obj w)"
  have va: "valid_access ?rw" "0 < (69 :: size_t)" "unat (69 :: size_t) < 2 ^ 62"
    by (simp_all add: valid_access_def word_less_nat_alt)
  obtain w0 where a: "ipm_alloc test_ctx sizeof_ipm_memory 31 ''ipm_memory_create'' w = (Addr (next_block (host w)), w0)"
    and h0: "malloc_budget (host w0) = malloc_budget (host w) - 1"
    using test_alloc [of w sizeof_ipm_memory 31 "''ipm_memory_create''"] assms(3) by auto
  obtain mem w1 where m: "ipm_memory_create test_ctx 69 cool_block ?rw w = Ret (IPM_RESULT_SUCCESS, Some mem, w1)"
    "mem_ok w1 ?ir ?ic mem" "quiet w1" "obj_list (objs w1 ?ic) = fresh_list"
    "block_obj cool_block 2 (objs w1 ?ic)" "block_obj cool_block 1 (objs w1 ?ir)"
    "refcount (obj_header (objs w1 ?ic)) = 1" "refcount (obj_header (objs w1 ?ir)) = 1"
    "block_size (obj_header (objs w1 ?ic)) = claim_size" "block_size (obj_header (objs w1 ?ir)) = round_size 69"
    "names w1 = (names w)(?nb 2 \<mapsto> ?ic, ?nb 1 \<mapsto> ?ir)" "mapped_size (real_memory mem) = round_size 69"
    "access_mode (real_memory mem) = ?rw" "access_id (real_memory mem) = 1" "mem_ctx mem = test_ctx" "host w1 = host w0"
    using memory_create_ok [OF assms(1,2) cool_block_ok(1) cool_block_no_slash va assms(4) a] by auto
  have sz: "40 \<le> mapped_size (real_memory mem)" "69 \<le> mapped_size (real_memory mem)"
    using m(12) round_size_69 by (simp_all add: word_le_nat_alt)
  obtain l1 l2 l3 l4 where c:
    "ipm_memory_claim_region mem ?rw 16 16 w1 = Ret (IPM_RESULT_SUCCESS, Some 0, set_list ?ic l1 w1)"
    "active l1 = [sample_claim 0 1 16]" "ready l1" "mem_ok (set_list ?ic l1 w1) ?ir ?ic mem"
    "ipm_memory_claim_region mem ?rw 24 16 (set_list ?ic l1 w1) = Ret (IPM_RESULT_SUCCESS, Some 1, set_list ?ic l2 w1)"
    "active l2 = [sample_claim 0 1 16, sample_claim 1 1 24]" "ready l2" "mem_ok (set_list ?ic l2 w1) ?ir ?ic mem"
    "ipm_memory_release_region mem 1 (set_list ?ic l2 w1) = Ret (IPM_RESULT_SUCCESS, set_list ?ic l3 w1)"
    "active l3 = [sample_claim 0 1 16]" "ready l3" "mem_ok (set_list ?ic l3 w1) ?ir ?ic mem"
    "ipm_memory_release_region mem 0 (set_list ?ic l3 w1) = Ret (IPM_RESULT_SUCCESS, set_list ?ic l4 w1)"
    "active l4 = []" "ready l4" "capacity l4 = 99" "mem_ok (set_list ?ic l4 w1) ?ir ?ic mem"
    by (rule single_test_claims [OF m(2,4,13,14) sz(1)])
  have pr: "print_claims mem (set_list ?ic l w1) = Ret (map claim_line (active l))"
    if "mem_ok (set_list ?ic l w1) ?ir ?ic mem" "ready l" for l
    using print_claims_ready [OF that(1)] that(2) by simp
  have "?nb 1 \<noteq> ?nb 2" using block_name_inj [of cool_block cool_block 1 2] by (auto simp: IPM_MAX_NAME_LEN_def)
  then have nb: "names w1 (?nb 2) = Some ?ic" "names w1 (?nb 1) = Some ?ir" using m(11) by simp_all
  have "1 < malloc_budget (host w1)" using m(16) h0 assms(3) by simp
  moreover have "count l4 < capacity l4" using ready_room [OF c(15,16)] c(14) by simp
  ultimately obtain w4 w5 where e: "ipm_memory_close mem (set_list ?ic l4 w1) = Ret w4"
    "ipm_memory_open test_ctx cool_block ?rw w4 = Ret (IPM_RESULT_ERR_DOES_NOT_EXIST, None, w5)"
    using close_then_open_fails [OF c(17)] c(14,15) m nb by auto
  have info: "\<exists>i. ipm_memory_get_info mem w1 = Ret i \<and> info_active_claims i = 0 \<and> memory_access_mode i = ?rw \<and>
      69 \<le> info_block_size i"
    using mem_ok_list(1) [OF m(2)] m(4,13) sz(2)
    by (simp add: ipm_memory_get_info_def read_write_list) (simp add: fresh_list_def)
  have "single_test w = Ret ([map claim_line (active l1), map claim_line (active l2), map claim_line (active l3),
      map claim_line (active l4)], w5)"
    using m(1) info c(1,5,9,13) pr [OF c(4,3)] pr [OF c(8,7)] pr [OF c(12,11)] pr [OF c(17,15)] e
    by (auto simp: single_test_def cool_block_def)
  then show ?thesis using c(2,6,10,14) by simp
qed

theorem single_test_passes_witness:
  "\<exists>lines w'. single_test sample_world = Ret (lines, w') \<and> map length lines = [1, 2, 1, 0]"
proof -
  have "2 < malloc_budget (host sample_world)" by (simp add: sample_world_def)
  then show ?thesis using single_test_passes [of sample_world] by auto
qed

end
