(* ===== verification/Fork_Test.thy ===== *)
theory Fork_Test
  imports Library_Runs Test_Programs
begin

text \<open>
  \<^verbatim>\<open>tests/fork_test.c\<close> as a client of the library: a process creates a memory and forks; the child leaves the handle it
  has inherited, opens the memory itself, writes a message under a claim and closes the memory, while the parent reads the
  message under a claim of its own. The two run in any order. What the pages of the memory hold is the business of the
  clients: the pointers of both handles lead to one buffer, which is a variable of the program. The waiting of
  the parent for the end of the child is the order of the steps. A claim is a step at the moment at which it is granted.
\<close>

section \<open>The program\<close>

text \<open>
  The steps of the two processes, in the order of the source. The child does not write its message in one step: the parent
  may look at the buffer when only a part of it is there.
\<close>

datatype fork_step =
    Child_clean | Child_open | Child_claim | Child_write_head | Child_write_tail | Child_release | Child_close
  | Parent_claim | Parent_print | Parent_release

definition child_steps :: "fork_step list" where
  "child_steps = [Child_clean, Child_open, Child_claim, Child_write_head, Child_write_tail, Child_release, Child_close]"

definition parent_steps :: "fork_step list" where
  "parent_steps = [Parent_claim, Parent_print, Parent_release]"

text \<open>The variables: the identifier that each process has of its claim, the shared buffer, and what was printed.\<close>

record fork_vars =
  child_claim_id :: "ipm_id option"
  parent_claim_id :: "ipm_id option"
  buffer :: string
  printed :: string

text \<open>The line that the parent prints.\<close>

definition message_line :: "string \<Rightarrow> string" where
  "message_line buf = ''Message was: '' @ [CHR 0x22] @ take 32 buf @ [CHR 0x22, CHR 0x0A]"

definition client_assert :: "bool \<Rightarrow> 'x client \<Rightarrow> 'x client" where
  "client_assert P k = (if P then k else Failed)"

text \<open>The parent closes the memory, and then it cannot be opened.\<close>

definition fork_end :: "fork_vars \<Rightarrow> string client" where
  "fork_end v =
     Ask (Close 0) (\<lambda>_.
     Ask (Open 0 IPM_ACCESS_MODE_READ_WRITE) (\<lambda>(res, _).
     client_assert (res = IPM_RESULT_ERR_DOES_NOT_EXIST) (Done (printed v))))"

text \<open>The parent is process 0 with the handle at position 0, the child is process 1 with the handle at position 1. When
  the child is interrupted in its writing it has written \<open>k\<close> characters.\<close>

fun fork_body :: "nat \<Rightarrow> fork_step list \<Rightarrow> fork_vars \<Rightarrow> string client" where
  "fork_body k [] v = fork_end v"
| "fork_body k (Child_clean # s) v = Ask (Clean 0) (\<lambda>_. fork_body k s v)"
| "fork_body k (Child_open # s) v =
     Ask (Open 1 IPM_ACCESS_MODE_READ_WRITE) (\<lambda>(res, _). client_assert (res = IPM_RESULT_SUCCESS) (fork_body k s v))"
| "fork_body k (Child_claim # s) v =
     Ask (Claim_region 1 IPM_ACCESS_MODE_READ_WRITE 0 32) (\<lambda>(res, cid).
     client_assert (res = IPM_RESULT_SUCCESS) (fork_body k s (v\<lparr>child_claim_id := cid\<rparr>)))"
| "fork_body k (Child_write_head # s) v = fork_body k s (v\<lparr>buffer := take k ''Hello my guy''\<rparr>)"
| "fork_body k (Child_write_tail # s) v = fork_body k s (v\<lparr>buffer := ''Hello my guy''\<rparr>)"
| "fork_body k (Child_release # s) v =
     (case child_claim_id v of None \<Rightarrow> Failed | Some cid \<Rightarrow>
     Ask (Release_region 1 cid) (\<lambda>(res, _). client_assert (res = IPM_RESULT_SUCCESS) (fork_body k s v)))"
| "fork_body k (Child_close # s) v = Ask (Close 1) (\<lambda>_. fork_body k s v)"
| "fork_body k (Parent_claim # s) v =
     Ask (Claim_region 0 IPM_ACCESS_MODE_READ_ONLY 0 32) (\<lambda>(res, cid).
     client_assert (res = IPM_RESULT_SUCCESS) (fork_body k s (v\<lparr>parent_claim_id := cid\<rparr>)))"
| "fork_body k (Parent_print # s) v = fork_body k s (v\<lparr>printed := message_line (buffer v)\<rparr>)"
| "fork_body k (Parent_release # s) v =
     (case parent_claim_id v of None \<Rightarrow> Failed | Some cid \<Rightarrow>
     Ask (Release_region 0 cid) (\<lambda>(res, _). client_assert (res = IPM_RESULT_SUCCESS) (fork_body k s v)))"

text \<open>The whole test; \<open>forks\<close> tells whether \<^verbatim>\<open>fork\<close> succeeds.\<close>

definition fork_test :: "bool \<Rightarrow> nat \<Rightarrow> fork_step list \<Rightarrow> string client" where
  "fork_test forks k s =
     Ask (Create 0 69 IPM_ACCESS_MODE_READ_WRITE) (\<lambda>(res, _).
     client_assert (res = IPM_RESULT_SUCCESS)
     (client_assert forks
     (Ask (Fork 0 1) (\<lambda>_.
     fork_body k s \<lparr>child_claim_id = None, parent_claim_id = None, buffer = [], printed = []\<rparr>))))"

definition before :: "'x \<Rightarrow> 'x \<Rightarrow> 'x list \<Rightarrow> bool" where
  "before x y s \<longleftrightarrow> x \<in> set (takeWhile (\<lambda>z. z \<noteq> y) s)"

text \<open>One process asks for its claim while the other one holds its own.\<close>

definition claims_meet :: "fork_step list \<Rightarrow> bool" where
  "claims_meet s \<longleftrightarrow>
     before Child_claim Parent_claim s \<and> before Parent_claim Child_release s \<or>
     before Parent_claim Child_claim s \<and> before Child_claim Parent_release s"

section \<open>The run\<close>

lemma client_assert_simps [simp]:
  "client_assert True k = k" "client_assert False k = Failed"
  by (simp_all add: client_assert_def)

lemma calls_within_mono: "calls_within c n \<Longrightarrow> n \<le> n' \<Longrightarrow> calls_within c n'"
proof (induction c arbitrary: n n')
  case (Ask ev k)
  then show ?case by (cases n') (auto, blast)
qed simp_all

lemma calls_within_assert: "calls_within k n \<Longrightarrow> calls_within (client_assert P k) n"
  by (cases P) simp_all

lemma fork_body_within: "calls_within (fork_body k s v) (length s + 2)"
  by (induction k s v rule: fork_body.induct)
    (auto simp: fork_end_def calls_within_assert split: option.split intro: calls_within_mono)

text \<open>The specification, evaluated on every schedule of the two processes.\<close>

lemma fork_test_arguments:
  "(0 :: size_t) < 69" "unat (69 :: size_t) < 2 ^ 62" "\<not> (4096 :: size_t) < 0 + 32" "(0 :: size_t) < 32"
  by (simp_all add: word_less_nat_alt)

lemmas spec_evaluation =
  spec_step_def no_memory_def must_wait_def wanted_def holder_id_def releasable_def without_claims_of_def drop_nth_def
  valid_access_def claims_conflict_def

lemma fork_test_spec:
  assumes "s \<in> shuffles child_steps parent_steps"
  shows "proper_client (fork_test forks k s) (no_memory []) \<and>
    run_client spec_step (fork_test forks k s) (no_memory []) =
      (if \<not> forks then Abort else if claims_meet s then Blocked
       else Ret (message_line (if before Child_write_tail Parent_print s then ''Hello my guy'' else []), no_memory []))"
  using assms unfolding child_steps_def parent_steps_def
  apply (simp only: shuffles.simps image_insert image_empty image_Un Un_insert_left Un_empty_left Un_iff insert_iff empty_iff
      simp_thms)
  apply (elim disjE)
  apply (simp_all add: fork_test_def fork_end_def fork_test_arguments before_def claims_meet_def round_size_69 spec_evaluation)
  done

section \<open>Properties\<close>

text \<open>
  C5. The test program with two processes passes if it can fork, in every order in which the system may run the steps of the two,
  and wherever the child is interrupted while it writes its message. If one process asks for its claim while the other one
  holds its own, the call does not return: such an order cannot be run, and no claim is granted while the other is held. In
  all other orders every assertion of the test, of its callbacks and of the library holds, the parent prints the whole message of the child
  or, if it has been first, an empty one, never a part of it, and at the end nothing is left: both names of the memory are
  gone, and no process has a handle, a descriptor or a mapping.
\<close>

theorem fork_test_passes:
  assumes "unused cool_block mc" and "hosts_good malloc_lasts (3 * 14) mc" and "s \<in> shuffles child_steps parent_steps"
  shows "if \<not> forks then run_client (library_call test_ctx cool_block) (fork_test forks k s) mc = Abort
    else if claims_meet s then run_client (library_call test_ctx cool_block) (fork_test forks k s) mc = Blocked
    else \<exists>mc'. run_client (library_call test_ctx cool_block) (fork_test forks k s) mc =
        Ret (message_line (if before Child_write_tail Parent_print s then ''Hello my guy'' else []), mc') \<and>
      unused cool_block mc' \<and> (\<forall>p. \<not> bad_state (host (procs mc' p)))"
proof -
  have "length s = 10" using length_shuffles [OF assms(3)] by (simp add: child_steps_def parent_steps_def)
  then have "calls_within (fork_test forks k s) 14"
    using fork_body_within [of k s] by (simp add: fork_test_def calls_within_assert eval_nat_numeral)
  then show ?thesis
    using test_memory.client_from_unused [OF assms(1,2), of "fork_test forks k s"] fork_test_spec [OF assms(3), of forks k]
    by (auto simp: machine_sound_for_def hosts_good_def malloc_lasts_def split: outcome.splits if_splits intro: unusedI)
qed

theorem fork_test_passes_witness:
  "(\<exists>mc'. run_client (library_call test_ctx cool_block) (fork_test True 5 (child_steps @ parent_steps)) sample_machine =
      Ret (message_line ''Hello my guy'', mc') \<and>
      k_names mc' (real_name cool_block) = None \<and> k_names mc' (list_name cool_block) = None) \<and>
   run_client (library_call test_ctx cool_block)
     (fork_test True 5 ([Parent_claim] @ child_steps @ [Parent_print, Parent_release])) sample_machine = Blocked"
proof -
  have s: "child_steps @ parent_steps \<in> shuffles child_steps parent_steps"
    "[Parent_claim] @ child_steps @ [Parent_print, Parent_release] \<in> shuffles child_steps parent_steps"
    by (simp_all add: child_steps_def parent_steps_def)
  have h: "hosts_good malloc_lasts (3 * 14) sample_machine" by (rule sample_machine_lasts) simp
  have "\<not> claims_meet (child_steps @ parent_steps)" "before Child_write_tail Parent_print (child_steps @ parent_steps)"
    "claims_meet ([Parent_claim] @ child_steps @ [Parent_print, Parent_release])"
    by (simp_all add: claims_meet_def before_def child_steps_def parent_steps_def)
  then show ?thesis
    using fork_test_passes [OF sample_machine_unused h s(1), of True 5] fork_test_passes [OF sample_machine_unused h s(2), of True 5]
    by (auto simp: unused_def)
qed

end
