(* ===== verification/Block_Phases.thy ===== *)
theory Block_Phases
  imports Block_Lifetime
begin

text \<open>
  \<^verbatim>\<open>shared_memory_block_open\<close> and \<^verbatim>\<open>shared_memory_block_close\<close> of \<^verbatim>\<open>source/shared_memory.c\<close> cut at their accesses to the
  shared header and to the name space, and any number of threads that run these pieces in any order.
  The descriptors and mappings of all the threads stand in one table; no two threads ever use the same one.
\<close>

section \<open>The pieces of opening and closing\<close>

text \<open>
  Where a thread is. The blocks from \<open>Mapped\<close> to \<open>Counted\<close> are the local variables of \<^verbatim>\<open>shared_memory_block_open\<close>, gathered
  in the form of the block they are going to be; its access id is written last.
  \<^item> \<open>Opened\<close>: has the descriptor;
  \<^item> \<open>Mapped\<close>: has both mappings and is in the loop that waits for a reference count;
  \<^item> \<open>Awake\<close>: has left the loop;
  \<^item> \<open>Matched\<close>: has compared id and name;
  \<^item> \<open>Counted\<close>: has raised the reference count;
  \<^item> \<open>Holding\<close>: opening or creating has returned the block;
  \<^item> \<open>Uncounted\<close>: closing has given back the descriptor and the reference and knows the count before that;
  \<^item> \<open>Unlinking\<close>: closing was the last one and has unmapped everything, the name is left to be removed;
  \<^item> \<open>Returned\<close>: a call has returned and there is no block.
\<close>

datatype thread =
    Outside
  | Opened ipm_access_mode int
  | Mapped ipm_shared_memory_block
  | Awake ipm_shared_memory_block
  | Matched ipm_shared_memory_block
  | Counted ipm_shared_memory_block
  | Holding ipm_shared_memory_block
  | Uncounted ptr ptr uint32
  | Unlinking string ipm_id
  | Returned ipm_result

definition open_begin ::
  "'h ipm_context \<Rightarrow> string \<Rightarrow> ipm_id \<Rightarrow> ipm_access_mode \<Rightarrow> 'h world \<Rightarrow> (thread \<times> 'h world) outcome" where
  "open_begin ctx bname bid acc w =
     c_assert (ndebug w) (length bname \<le> IPM_MAX_NAME_LEN)
     (let name_buffer = make_block_name_based_on_id name_buffer_size bname bid;
          (fd, w) = shm_open name_buffer False w
      in if fd < 0 then
           (if errno w = EEXIST then Ret (Returned IPM_RESULT_ERR_EXISTS, w)
            else
              (let w = shm_report ctx
                         ([Lit ''Could not open block with id '', HexId bid] @ errno_reason w) 160
                         ''shared_memory_block_open'' w
               in Ret (Returned (open_error (errno w)), w)))
         else Ret (Opened acc fd, w))"

definition open_map ::
  "'h ipm_context \<Rightarrow> ipm_access_mode \<Rightarrow> int \<Rightarrow> 'h world \<Rightarrow> (thread \<times> 'h world) outcome" where
  "open_map ctx acc fd w =
     (let (hdr, w) = mmap IPM_MEMORY_PAGE_SIZE True fd 0 w
      in if hdr = NULL then
           (let w = shm_report ctx (Lit ''Could not map shared memory to memory'' # errno_reason w) 182
                      ''shared_memory_block_open'' w
            in Ret (Returned (mmap_error (errno w)), w))
         else
           bind_outcome (read_header hdr w) (\<lambda>h.
           let sz = block_size h;
               (block_memory, w) = mmap sz (acc \<noteq> IPM_ACCESS_MODE_READ_ONLY) fd IPM_MEMORY_PAGE_SIZE w
           in if block_memory = MAP_FAILED then
                (let w = sys_close fd w;
                     w = munmap hdr IPM_MEMORY_PAGE_SIZE w;
                     w = shm_report ctx (Lit ''Could not map shared memory to memory'' # errno_reason w) 205
                           ''shared_memory_block_open'' w
                 in Ret (Returned (mmap_error (errno w)), w))
              else Ret (Mapped (new_block 0 sz acc fd hdr block_memory), w)))"

text \<open>One test of the loop; the thread stays in it, after \<^verbatim>\<open>sched_yield()\<close>, as long as the count is 0.\<close>

definition open_poll :: "ipm_shared_memory_block \<Rightarrow> 'h world \<Rightarrow> (thread \<times> 'h world) outcome" where
  "open_poll b w =
     bind_outcome (read_header (header b) w) (\<lambda>h. Ret (if refcount h = 0 then Mapped b else Awake b, w))"

definition open_compare ::
  "'h ipm_context \<Rightarrow> string \<Rightarrow> ipm_id \<Rightarrow> ipm_shared_memory_block \<Rightarrow> 'h world \<Rightarrow> (thread \<times> 'h world) outcome" where
  "open_compare ctx bname bid b w =
     bind_outcome (read_header (header b) w) (\<lambda>h.
     if block_id h \<noteq> bid then
       (let w = sys_close (mem_fd b) w;
            w = shm_report ctx
                  [Lit ''Block id ('', HexId (block_id h), Lit '') did not match the specified id ('',
                   HexId bid, Lit '')''] 231 ''shared_memory_block_open'' w;
            w = munmap (header b) IPM_MEMORY_PAGE_SIZE w;
            w = munmap (memory b) (mapped_size b) w
        in Ret (Returned IPM_RESULT_ERR_BAD_ID, w))
     else if length (block_name h) < length bname then UB
     else if take (length bname) (block_name h) \<noteq> bname then
       (let w = sys_close (mem_fd b) w;
            w = shm_report ctx
                  [Lit ''Block id ('', Str bname, Lit '') did not match the specified id ('',
                   StrN IPM_MAX_NAME_LEN (c_string (block_name h)), Lit '')''] 239
                  ''shared_memory_block_open'' w;
            w = munmap (header b) IPM_MEMORY_PAGE_SIZE w;
            w = munmap (memory b) (mapped_size b) w
        in Ret (Returned IPM_RESULT_ERR_BAD_ID, w))
     else Ret (Matched b, w))"

definition open_count :: "ipm_shared_memory_block \<Rightarrow> 'h world \<Rightarrow> (thread \<times> 'h world) outcome" where
  "open_count b w =
     bind_outcome (write_header (header b) (\<lambda>h. h\<lparr>refcount := refcount h + 1\<rparr>) w) (\<lambda>w. Ret (Counted b, w))"

definition open_number :: "ipm_shared_memory_block \<Rightarrow> 'h world \<Rightarrow> (thread \<times> 'h world) outcome" where
  "open_number b w =
     bind_outcome (read_header (header b) w) (\<lambda>h.
     bind_outcome (write_header (header b) (\<lambda>h. h\<lparr>id_counter := id_counter h + 1\<rparr>) w) (\<lambda>w.
     Ret (Holding (b\<lparr>access_id := id_counter h\<rparr>), w)))"

definition close_begin :: "ipm_shared_memory_block \<Rightarrow> 'h world \<Rightarrow> (thread \<times> 'h world) outcome" where
  "close_begin b w =
     c_assert (ndebug w) (has_ownership b = 0)
     (let w = sys_close (mem_fd b) w
      in bind_outcome (read_header (header b) w) (\<lambda>h.
         bind_outcome (write_header (header b) (\<lambda>h. h\<lparr>refcount := refcount h - 1\<rparr>) w) (\<lambda>w.
         Ret (Uncounted (header b) (memory b) (refcount h), w))))"

definition close_leave ::
  "('h world \<Rightarrow> 'h world outcome) option \<Rightarrow> ptr \<Rightarrow> ptr \<Rightarrow> uint32 \<Rightarrow> 'h world \<Rightarrow> (thread \<times> 'h world) outcome" where
  "close_leave callback hdr mem refs w =
     (if refs = 1 then
        bind_outcome (case callback of None \<Rightarrow> Ret w | Some f \<Rightarrow> f w) (\<lambda>w.
        bind_outcome (read_header hdr w) (\<lambda>h.
        bind_outcome
          (write_header hdr (\<lambda>h. h\<lparr>segment_mutex := snd (ipm_mutex_destroy (segment_mutex h) w)\<rparr>) w) (\<lambda>w.
        let bid = block_id h;
            name_buffer = make_block_name_based_on_id name_buffer_size (c_string (block_name h)) bid;
            w = munmap mem (block_size h) w;
            w = munmap hdr IPM_MEMORY_PAGE_SIZE w
        in Ret (Unlinking name_buffer bid, w))))
      else
        bind_outcome (read_header hdr w) (\<lambda>h.
        let w = munmap mem (block_size h) w;
            w = munmap hdr IPM_MEMORY_PAGE_SIZE w
        in Ret (Returned IPM_RESULT_SUCCESS, w)))"

definition close_unlink ::
  "'h ipm_context \<Rightarrow> string \<Rightarrow> ipm_id \<Rightarrow> 'h world \<Rightarrow> (thread \<times> 'h world) outcome" where
  "close_unlink ctx name_buffer bid w =
     (let (res, w) = shm_unlink name_buffer w
      in if res < 0 then
           (let w = shm_report ctx
                      ([Lit ''Could not unlink memory block '', Str name_buffer, Lit ''-'', HexId bid] @
                       errno_reason w) 287 ''shared_memory_block_close'' w
            in Ret (Returned (unlink_error (errno w)), w))
         else Ret (Returned IPM_RESULT_SUCCESS, w))"

text \<open>The next piece of the call that a thread is in.\<close>

fun advance ::
  "'h ipm_context \<Rightarrow> string \<Rightarrow> ipm_id \<Rightarrow> ('h world \<Rightarrow> 'h world outcome) option \<Rightarrow> thread \<Rightarrow> 'h world \<Rightarrow>
     (thread \<times> 'h world) outcome" where
  "advance ctx bname bid cb (Opened acc fd) w = open_map ctx acc fd w"
| "advance ctx bname bid cb (Mapped b) w = open_poll b w"
| "advance ctx bname bid cb (Awake b) w = open_compare ctx bname bid b w"
| "advance ctx bname bid cb (Matched b) w = open_count b w"
| "advance ctx bname bid cb (Counted b) w = open_number b w"
| "advance ctx bname bid cb (Uncounted hdr mem refs) w = close_leave cb hdr mem refs w"
| "advance ctx bname bid cb (Unlinking nm i) w = close_unlink ctx nm i w"
| "advance ctx bname bid cb th w = Ret (th, w)"

primrec advances ::
  "nat \<Rightarrow> 'h ipm_context \<Rightarrow> string \<Rightarrow> ipm_id \<Rightarrow> ('h world \<Rightarrow> 'h world outcome) option \<Rightarrow> thread \<Rightarrow> 'h world \<Rightarrow>
     (thread \<times> 'h world) outcome" where
  "advances 0 ctx bname bid cb th w = Ret (th, w)"
| "advances (Suc n) ctx bname bid cb th w =
     bind_outcome (advance ctx bname bid cb th w) (\<lambda>(th, w). advances n ctx bname bid cb th w)"

section \<open>The pieces together are the calls\<close>

text \<open>What a whole call leaves a thread with.\<close>

definition returned :: "ipm_result \<Rightarrow> ipm_shared_memory_block \<Rightarrow> thread" where
  "returned r b = (if r = IPM_RESULT_SUCCESS then Holding b else Returned r)"

lemma advances_idle [simp]: "advances n ctx bname bid cb (Returned r) w = Ret (Returned r, w)"
  by (induction n) simp_all

lemma advances_holding [simp]: "advances n ctx bname bid cb (Holding b) w = Ret (Holding b, w)"
  by (induction n) simp_all

lemma bind_outcome_unit [simp]: "bind_outcome m Ret = m" "bind_outcome m (\<lambda>(x, y). Ret (x, y)) = m"
  by (cases m; simp add: case_prod_unfold)+

text \<open>A thread that finds the count at 0 stays in the loop as long as it is alone.\<close>

lemma polls_alone:
  assumes "read_header (header b) w = Ret h" and "refcount h = 0"
  shows "advances n ctx bname bid cb (Mapped b) w = Ret (Mapped b, w)"
  using assms by (induction n) (simp_all add: open_poll_def)

lemma live_phases:
  fixes w :: "'h world"
  assumes hd: "header_at hdr w = Some i" and live: "refcount (obj_header (objs w i)) \<noteq> 0"
  shows "case open_check_header ctx bname bid acc fd hdr mem sz p_block w of
      Ret (r, b, w') \<Rightarrow> advances 4 ctx bname bid cb (Mapped (new_block 0 sz acc fd hdr mem)) w = Ret (returned r b, w')
    | e \<Rightarrow> e = UB \<and> advances 4 ctx bname bid cb (Mapped (new_block 0 sz acc fd hdr mem)) w = UB"
proof -
  let ?b = "new_block 0 sz acc fd hdr mem" and ?h = "obj_header (objs w i)"
  have r: "read_header hdr w = Ret ?h" using hd by (simp add: read_header_def)
  have b: "header ?b = hdr" "memory ?b = mem" "mem_fd ?b = fd" "mapped_size ?b = sz" by (simp_all add: new_block_def)
  have "open_wait hdr w = Ret w" using live r by (subst open_wait.simps) simp
  then have run: "open_check_header ctx bname bid acc fd hdr mem sz p_block w =
      (if block_id ?h \<noteq> bid \<or> length (block_name ?h) < length bname \<or> take (length bname) (block_name ?h) \<noteq> bname
       then bind_outcome (open_compare ctx bname bid ?b w) (\<lambda>(th, w). Ret (IPM_RESULT_ERR_BAD_ID, p_block, w))
       else bind_outcome (write_header hdr (\<lambda>h. h\<lparr>refcount := refcount h + 1, id_counter := id_counter h + 1\<rparr>) w)
         (\<lambda>w. Ret (IPM_RESULT_SUCCESS, new_block (id_counter ?h) sz acc fd hdr mem, w)))"
    using r b by (simp add: open_check_header_def open_compare_def Let_def) (simp add: new_block_def)
  have poll: "advances 4 ctx bname bid cb (Mapped ?b) w = advances 3 ctx bname bid cb (Awake ?b) w"
    using live r b by (simp add: numeral_eq_Suc open_poll_def)
  show ?thesis
  proof (cases "block_id ?h \<noteq> bid \<or> length (block_name ?h) < length bname \<or> take (length bname) (block_name ?h) \<noteq> bname")
    case True
    have n: "advances 3 ctx bname bid cb (Awake ?b) w =
        bind_outcome (open_compare ctx bname bid ?b w) (\<lambda>(th, w). advances 2 ctx bname bid cb th w)"
      by (simp add: numeral_eq_Suc)
    show ?thesis unfolding run poll n using True r b
      by (auto simp: open_compare_def Let_def returned_def)
  next
    case False
    have "header_at hdr (w\<lparr>objs := (objs w)(i := obj_header_update f (objs w i))\<rparr>) = Some i" for f
      using hd by (rule header_at_objs) simp
    then have "advances 3 ctx bname bid cb (Awake ?b) w =
        Ret (Holding (new_block (id_counter ?h) sz acc fd hdr mem),
             w\<lparr>objs := (objs w)(i := obj_header_update (\<lambda>h. h\<lparr>refcount := refcount h + 1, id_counter := id_counter h + 1\<rparr>) (objs w i))\<rparr>)"
      using False r b hd
      by (simp add: numeral_eq_Suc open_compare_def open_count_def open_number_def write_header_def read_header_def)
        (simp add: new_block_def comp_def)
    then show ?thesis unfolding run poll using False hd by (simp add: write_header_def returned_def)
  qed
qed

lemma checked_phases:
  fixes w :: "'h world"
  assumes y: "yields w = []"
  shows "case open_check_header ctx bname bid acc fd hdr mem sz p_block w of
      Ret (r, b, w') \<Rightarrow> advances 4 ctx bname bid cb (Mapped (new_block 0 sz acc fd hdr mem)) w = Ret (returned r b, w')
    | Blocked \<Rightarrow> \<forall>n. advances n ctx bname bid cb (Mapped (new_block 0 sz acc fd hdr mem)) w =
        Ret (Mapped (new_block 0 sz acc fd hdr mem), w)
    | e \<Rightarrow> e = UB \<and> advances 4 ctx bname bid cb (Mapped (new_block 0 sz acc fd hdr mem)) w = UB"
proof (cases "header_at hdr w")
  case None
  then have "read_header hdr w = UB" by (simp add: read_header_def)
  then show ?thesis
    by (subst (1) open_check_header_def, subst open_wait.simps)
      (simp add: open_poll_def numeral_eq_Suc new_block_def)
next
  case (Some i)
  let ?b = "new_block 0 sz acc fd hdr mem" and ?h = "obj_header (objs w i)"
  have r: "read_header hdr w = Ret ?h" using Some by (simp add: read_header_def)
  have b: "header ?b = hdr" "memory ?b = mem" "mem_fd ?b = fd" "mapped_size ?b = sz" by (simp_all add: new_block_def)
  show ?thesis
  proof (cases "refcount ?h = 0")
    case True
    then have "open_wait hdr w = Blocked" using r y by (subst open_wait.simps) simp
    then show ?thesis using polls_alone [of ?b w ?h] r True b by (simp add: open_check_header_def)
  next
    case False
    show ?thesis using live_phases [OF Some False, where ctx = ctx and bname = bname and bid = bid and acc = acc and fd = fd
        and mem = mem and sz = sz and p_block = p_block and cb = cb] by (auto split: outcome.splits)
  qed
qed

lemma shm_open_yields: "shm_open nm c w = (fd, w') \<Longrightarrow> yields w' = yields w"
  by (auto simp: shm_open_def next_fault_def Let_def split: option.splits if_splits list.splits prod.splits)

lemma mmap_yields: "mmap len wr fd off w = (p, w') \<Longrightarrow> yields w' = yields w"
  by (auto simp: mmap_def next_fault_def Let_def split: option.splits if_splits list.splits prod.splits)

text \<open>The call up to the two mappings, in pieces.\<close>

lemma open_begin_cases:
  obtains "open_begin ctx bname bid acc w = Abort" "shared_memory_block_open ctx bname bid acc p_block w = Abort"
  | r w' where "open_begin ctx bname bid acc w = Ret (Returned r, w')" "r \<noteq> IPM_RESULT_SUCCESS"
      "shared_memory_block_open ctx bname bid acc p_block w = Ret (r, p_block, w')"
  | fd w' where "open_begin ctx bname bid acc w = Ret (Opened acc fd, w')" "yields w' = yields w"
      "shared_memory_block_open ctx bname bid acc p_block w =
         bind_outcome (open_map ctx acc fd w') (\<lambda>(th, w'').
         case th of Mapped b \<Rightarrow> open_check_header ctx bname bid acc fd (header b) (memory b) (mapped_size b) p_block w''
           | Returned r \<Rightarrow> Ret (r, p_block, w'') | _ \<Rightarrow> UB)"
proof -
  obtain fd w' where o: "shm_open (make_block_name_based_on_id name_buffer_size bname bid) False w = (fd, w')" by force
  consider "\<not> ndebug w" "IPM_MAX_NAME_LEN < length bname" | "ndebug w \<or> length bname \<le> IPM_MAX_NAME_LEN" "fd < 0" "errno w' = EEXIST"
    | "ndebug w \<or> length bname \<le> IPM_MAX_NAME_LEN" "fd < 0" "errno w' \<noteq> EEXIST"
    | "ndebug w \<or> length bname \<le> IPM_MAX_NAME_LEN" "\<not> fd < 0" by fastforce
  then show thesis
  proof cases
    case 1
    then show thesis by (intro that(1)) (simp_all add: open_begin_def shared_memory_block_open_def c_assert_def)
  next
    case 2
    then show thesis using o
      by (intro that(2) [of IPM_RESULT_ERR_EXISTS w']) (simp_all add: open_begin_def shared_memory_block_open_def c_assert_def)
  next
    case 3
    then show thesis using o
      by (intro that(2)) (auto simp: open_begin_def shared_memory_block_open_def c_assert_def Let_def)
  next
    case 4
    obtain hdr w1 where m: "mmap IPM_MEMORY_PAGE_SIZE True fd 0 w' = (hdr, w1)" by force
    have "shared_memory_block_open ctx bname bid acc p_block w =
         bind_outcome (open_map ctx acc fd w') (\<lambda>(th, w'').
         case th of Mapped b \<Rightarrow> open_check_header ctx bname bid acc fd (header b) (memory b) (mapped_size b) p_block w''
           | Returned r \<Rightarrow> Ret (r, p_block, w'') | _ \<Rightarrow> UB)"
      using 4 o m
      by (cases "read_header hdr w1")
        (auto simp: open_map_def shared_memory_block_open_def c_assert_def Let_def new_block_def split: prod.split)
    then show thesis using 4 o shm_open_yields [OF o]
      by (intro that(3) [of fd w']) (simp_all add: open_begin_def c_assert_def)
  qed
qed

lemma open_map_cases:
  obtains "open_map ctx acc fd w = UB"
  | r w' where "open_map ctx acc fd w = Ret (Returned r, w')" "r \<noteq> IPM_RESULT_SUCCESS"
  | sz hdr mem w' where "open_map ctx acc fd w = Ret (Mapped (new_block 0 sz acc fd hdr mem), w')" "yields w' = yields w"
proof -
  obtain hdr w1 where m: "mmap IPM_MEMORY_PAGE_SIZE True fd 0 w = (hdr, w1)" by force
  consider "hdr = NULL" | "hdr \<noteq> NULL" "header_at hdr w1 = None" | i where "hdr \<noteq> NULL" "header_at hdr w1 = Some i" by blast
  then show thesis
  proof cases
    case 1
    then show thesis using m by (intro that(2)) (auto simp: open_map_def Let_def)
  next
    case 2
    then show thesis using m by (intro that(1)) (simp add: open_map_def read_header_def)
  next
    case (3 i)
    let ?sz = "block_size (obj_header (objs w1 i))"
    obtain mem w2 where n: "mmap ?sz (acc \<noteq> IPM_ACCESS_MODE_READ_ONLY) fd IPM_MEMORY_PAGE_SIZE w1 = (mem, w2)" by force
    show thesis
    proof (cases "mem = MAP_FAILED")
      case True
      then show thesis using m n 3 by (intro that(2)) (auto simp: open_map_def read_header_def Let_def)
    next
      case False
      then show thesis using m n 3 mmap_yields [OF m] mmap_yields [OF n]
        by (intro that(3) [of ?sz hdr mem w2]) (simp_all add: open_map_def read_header_def Let_def)
    qed
  qed
qed

lemma open_phases:
  fixes w :: "'h world"
  assumes y: "yields w = []"
  shows "case shared_memory_block_open ctx bname bid acc p_block w of
      Ret (r, b, w') \<Rightarrow> bind_outcome (open_begin ctx bname bid acc w) (\<lambda>(th, w). advances 5 ctx bname bid cb th w) =
        Ret (returned r b, w')
    | Blocked \<Rightarrow> \<exists>b w'. \<forall>n. bind_outcome (open_begin ctx bname bid acc w) (\<lambda>(th, w). advances (Suc n) ctx bname bid cb th w) =
        Ret (Mapped b, w')
    | UB \<Rightarrow> bind_outcome (open_begin ctx bname bid acc w) (\<lambda>(th, w). advances 5 ctx bname bid cb th w) = UB
    | Abort \<Rightarrow> open_begin ctx bname bid acc w = Abort"
proof (rule open_begin_cases [of ctx bname bid acc w p_block])
  fix fd w1
  assume b: "open_begin ctx bname bid acc w = Ret (Opened acc fd, w1)" "yields w1 = yields w"
    and o: "shared_memory_block_open ctx bname bid acc p_block w =
         bind_outcome (open_map ctx acc fd w1) (\<lambda>(th, w'').
         case th of Mapped b \<Rightarrow> open_check_header ctx bname bid acc fd (header b) (memory b) (mapped_size b) p_block w''
           | Returned r \<Rightarrow> Ret (r, p_block, w'') | _ \<Rightarrow> UB)"
  show ?thesis
  proof (rule open_map_cases [of ctx acc fd w1])
    fix sz hdr mem w2
    assume m: "open_map ctx acc fd w1 = Ret (Mapped (new_block 0 sz acc fd hdr mem), w2)" "yields w2 = yields w1"
    have n: "advances 5 ctx bname bid cb (Opened acc fd) w1 = advances 4 ctx bname bid cb (Mapped (new_block 0 sz acc fd hdr mem)) w2"
      using m by (simp add: numeral_eq_Suc)
    have h: "header (new_block 0 sz acc fd hdr mem) = hdr" "memory (new_block 0 sz acc fd hdr mem) = mem"
      "mapped_size (new_block 0 sz acc fd hdr mem) = sz" by (simp_all add: new_block_def)
    show ?thesis using checked_phases [where w = w2 and ctx = ctx and bname = bname and bid = bid and acc = acc and fd = fd and hdr = hdr
        and mem = mem and sz = sz and p_block = p_block and cb = cb] y m(2) b(2)
      by (auto simp: o b(1) m(1) n h split: outcome.splits)
  qed (simp_all add: o b(1) numeral_eq_Suc returned_def)
qed (simp_all add: returned_def)

lemma close_phases:
  fixes w :: "'h world"
  shows "bind_outcome (close_begin b w) (\<lambda>(th, w). advances 2 ctx bname bid cb th w) =
    bind_outcome (shared_memory_block_close ctx b cb w) (\<lambda>(r, b', w'). Ret (Returned r, w'))"
proof (cases "ndebug w \<or> has_ownership b = 0")
  case True
  show ?thesis
  proof (cases "header_at (header b) (sys_close (mem_fd b) w)")
    case None
    then show ?thesis using True
      by (simp add: close_begin_def shared_memory_block_close_def c_assert_def read_header_def Let_def)
  next
    case (Some i)
    let ?h = "obj_header (objs w i)"
    define w2 where "w2 = (sys_close (mem_fd b) w)\<lparr>objs := (objs w)(i := obj_header_update (\<lambda>h. h\<lparr>refcount := refcount h - 1\<rparr>) (objs w i))\<rparr>"
    have r: "read_header (header b) (sys_close (mem_fd b) w) = Ret ?h"
      and wr: "write_header (header b) (\<lambda>h. h\<lparr>refcount := refcount h - 1\<rparr>) (sys_close (mem_fd b) w) = Ret w2"
      using Some by (simp_all add: read_header_def write_header_def w2_def)
    have l: "bind_outcome (close_begin b w) (\<lambda>(th, w). advances 2 ctx bname bid cb th w) =
        bind_outcome (close_leave cb (header b) (memory b) (refcount ?h) w2) (\<lambda>(th, w). advance ctx bname bid cb th w)"
      using True r wr by (simp add: close_begin_def c_assert_def numeral_eq_Suc Let_def)
    show ?thesis unfolding l using True r wr
      by (auto simp: shared_memory_block_close_def close_leave_def close_unlink_def c_assert_def bind_outcome_assoc Let_def
          case_prod_unfold intro!: bind_outcome_cong)
  qed
qed (simp add: close_begin_def shared_memory_block_close_def c_assert_def)

section \<open>The pieces are the calls\<close>

text \<open>
  A thread that runs the pieces of opening without interruption ends with the block or the
  error that \<^verbatim>\<open>shared_memory_block_open\<close> returns, in the world it leaves, with any failures of system calls on
  the way; it is undefined exactly when the call is; and when the call never returns the thread
  stays in the loop of the reference count after any number of pieces. The pieces of closing, with any callback, are
  \<^verbatim>\<open>shared_memory_block_close\<close>.
\<close>

lemmas block_calls_in_pieces = open_phases close_phases

end
