(* ===== verification/Block_Spec.thy ===== *)
theory Block_Spec
  imports IPM_Common
begin

text \<open>
  What threads that create, open and close one block do to each other, without descriptors, mappings and memory: for
  every object its reference count and the next access id, the object that has the name, and where each thread is. The
  steps are those of \<^verbatim>\<open>Block_Phases\<close>; \<^verbatim>\<open>Block_Races\<close> shows that the code makes exactly these steps.
\<close>

section \<open>The steps\<close>

datatype action = Create_block size_t ipm_access_mode | Open_block ipm_access_mode | Close_block | Go_on

text \<open>
  Opening goes from \<open>Opened_at\<close> through the loop \<open>Waiting_at\<close> to \<open>Holding_at\<close>, which has the access id; closing from there through
  \<open>Leaving\<close>, with the count before its own reference was given back, to \<open>Removing\<close> when that count was 1.
\<close>

datatype phase =
    Away
  | Opened_at nat
  | Waiting_at nat
  | Awake_at nat
  | Matched_at nat
  | Counted_at nat
  | Holding_at nat ipm_id
  | Leaving nat uint32
  | Removing

text \<open>The objects in \<open>spoiled\<close> have lost their mutex.\<close>

record block_state =
  current :: "nat option"
  next_object :: nat
  refs :: "nat \<Rightarrow> uint32"
  ids :: "nat \<Rightarrow> ipm_id"
  spoiled :: "nat set"
  phase_of :: "nat \<Rightarrow> phase"

fun go_on :: "nat \<Rightarrow> phase \<Rightarrow> block_state \<Rightarrow> block_state" where
  "go_on t (Opened_at i) a = a\<lparr>phase_of := (phase_of a)(t := Waiting_at i)\<rparr>"
| "go_on t (Waiting_at i) a = (if refs a i = 0 then a else a\<lparr>phase_of := (phase_of a)(t := Awake_at i)\<rparr>)"
| "go_on t (Awake_at i) a = a\<lparr>phase_of := (phase_of a)(t := Matched_at i)\<rparr>"
| "go_on t (Matched_at i) a =
     a\<lparr>refs := (refs a)(i := refs a i + 1), phase_of := (phase_of a)(t := Counted_at i)\<rparr>"
| "go_on t (Counted_at i) a =
     a\<lparr>ids := (ids a)(i := ids a i + 1), phase_of := (phase_of a)(t := Holding_at i (ids a i))\<rparr>"
| "go_on t (Leaving i r) a =
     (if r = 1 then a\<lparr>spoiled := insert i (spoiled a), phase_of := (phase_of a)(t := Removing)\<rparr>
      else a\<lparr>phase_of := (phase_of a)(t := Away)\<rparr>)"
| "go_on t Removing a = a\<lparr>current := None, phase_of := (phase_of a)(t := Away)\<rparr>"
| "go_on t ph a = a"

fun spec_act :: "nat \<times> action \<Rightarrow> block_state \<Rightarrow> block_state option" where
  "spec_act (t, Create_block sz acc) a =
     (if phase_of a t = Away then
        (case current a of
           Some i \<Rightarrow> Some a
         | None \<Rightarrow>
             Some (a\<lparr>current := Some (next_object a), next_object := Suc (next_object a),
                     refs := (refs a)(next_object a := 1), ids := (ids a)(next_object a := 2),
                     spoiled := spoiled a - {next_object a},
                     phase_of := (phase_of a)(t := Holding_at (next_object a) 1)\<rparr>))
      else None)"
| "spec_act (t, Open_block acc) a =
     (if phase_of a t = Away then
        (case current a of
           Some i \<Rightarrow> Some (a\<lparr>phase_of := (phase_of a)(t := Opened_at i)\<rparr>)
         | None \<Rightarrow> Some a)
      else None)"
| "spec_act (t, Close_block) a =
     (case phase_of a t of
        Holding_at i k \<Rightarrow>
          Some (a\<lparr>refs := (refs a)(i := refs a i - 1), phase_of := (phase_of a)(t := Leaving i (refs a i))\<rparr>)
      | _ \<Rightarrow> None)"
| "spec_act (t, Go_on) a = Some (go_on t (phase_of a t) a)"

primrec spec_acts :: "(nat \<times> action) list \<Rightarrow> block_state \<Rightarrow> block_state option" where
  "spec_acts [] a = Some a"
| "spec_acts (x # xs) a = (case spec_act x a of None \<Rightarrow> None | Some a' \<Rightarrow> spec_acts xs a')"

text \<open>Runs of any system that makes steps.\<close>

primrec schedule :: "('x \<Rightarrow> 's \<Rightarrow> 's outcome) \<Rightarrow> 'x list \<Rightarrow> 's \<Rightarrow> 's outcome" where
  "schedule f [] s = Ret s"
| "schedule f (x # xs) s = bind_outcome (f x s) (schedule f xs)"

definition no_block :: "nat \<Rightarrow> block_state" where
  "no_block n = \<lparr>current = None, next_object = n, refs = (\<lambda>_. 0), ids = (\<lambda>_. 0), spoiled = {}, phase_of = (\<lambda>_. Away)\<rparr>"

section \<open>References and access ids\<close>

fun object_of :: "phase \<Rightarrow> nat option" where
  "object_of (Opened_at i) = Some i"
| "object_of (Waiting_at i) = Some i"
| "object_of (Awake_at i) = Some i"
| "object_of (Matched_at i) = Some i"
| "object_of (Counted_at i) = Some i"
| "object_of (Holding_at i k) = Some i"
| "object_of (Leaving i r) = Some i"
| "object_of ph = None"

fun reference_of :: "phase \<Rightarrow> nat option" where
  "reference_of (Counted_at i) = Some i"
| "reference_of (Holding_at i k) = Some i"
| "reference_of ph = None"

definition referents :: "block_state \<Rightarrow> nat \<Rightarrow> nat set" where
  "referents a i = {t. reference_of (phase_of a t) = Some i}"

text \<open>
  After \<open>n\<close> steps: every reference is counted once, the objects in use exist, at most \<open>n\<close> threads are active and the access ids
  that were given out are below the counter and all different.
\<close>

definition spec_inv :: "nat \<Rightarrow> block_state \<Rightarrow> bool" where
  "spec_inv n a \<longleftrightarrow>
     finite {t. phase_of a t \<noteq> Away} \<and> card {t. phase_of a t \<noteq> Away} \<le> n \<and>
     (\<forall>t i. object_of (phase_of a t) = Some i \<longrightarrow> i < next_object a) \<and>
     (\<forall>i. current a = Some i \<longrightarrow> i < next_object a) \<and>
     (\<forall>i < next_object a. refs a i = of_nat (card (referents a i)) \<and> unat (ids a i) \<le> Suc n) \<and>
     (\<forall>t i k. phase_of a t = Holding_at i k \<longrightarrow> k < ids a i) \<and>
     (\<forall>t u i k. phase_of a t = Holding_at i k \<longrightarrow> phase_of a u = Holding_at i k \<longrightarrow> t = u)"

lemma card_without: "finite B \<Longrightarrow> card B = card (B - {t}) + of_bool (t \<in> B)"
  by (cases "t \<in> B") (simp_all add: card_Suc_Diff1 del: card_Diff_insert)

lemma card_swap:
  assumes "finite A" and "finite A'" and "A' - {t} = A - {t}"
  shows "(of_nat (card A') :: uint32) + of_bool (t \<in> A) = of_nat (card A) + of_bool (t \<in> A')"
  using card_without [OF assms(1), of t] card_without [OF assms(2), of t] assms(3) by simp

lemma finite_referents: "finite {t. phase_of a t \<noteq> Away} \<Longrightarrow> finite (referents a i)"
  by (rule finite_subset [of _ "{t. phase_of a t \<noteq> Away}"]) (auto simp: referents_def)

text \<open>What a step of the thread \<open>t\<close> may change.\<close>

lemma step_phase: "spec_act (t, x) a = Some a' \<Longrightarrow> phase_of a' = (phase_of a)(t := phase_of a' t)"
  by (cases x; cases "phase_of a t") (auto split: option.splits if_splits)

lemma step_next: "spec_act (t, x) a = Some a' \<Longrightarrow> next_object a \<le> next_object a' \<and> next_object a' \<le> Suc (next_object a)"
  by (cases x; cases "phase_of a t") (auto split: option.splits if_splits)

lemma step_current:
  "spec_act (t, x) a = Some a' \<Longrightarrow>
   current a' = current a \<or> current a' = None \<or> next_object a < next_object a' \<and> current a' = Some (next_object a)"
  by (cases x; cases "phase_of a t") (auto split: option.splits if_splits)

lemma step_object:
  "spec_act (t, x) a = Some a' \<Longrightarrow> object_of (phase_of a' t) = Some i \<Longrightarrow>
   object_of (phase_of a t) = Some i \<or> current a = Some i \<or> i = next_object a \<and> next_object a < next_object a'"
  by (cases x; cases "phase_of a t") (auto split: option.splits if_splits)

lemma step_refs:
  "spec_act (t, x) a = Some a' \<Longrightarrow> i < next_object a \<Longrightarrow>
   refs a' i + of_bool (reference_of (phase_of a t) = Some i) = refs a i + of_bool (reference_of (phase_of a' t) = Some i)"
  by (cases x; cases "phase_of a t") (auto split: option.splits if_splits)

lemma step_new:
  "spec_act (t, x) a = Some a' \<Longrightarrow> next_object a < next_object a' \<Longrightarrow>
   refs a' (next_object a) = 1 \<and> ids a' (next_object a) = 2 \<and> phase_of a' t = Holding_at (next_object a) 1 \<and> phase_of a t = Away"
  by (cases x; cases "phase_of a t") (auto split: option.splits if_splits)

lemma step_ids:
  "spec_act (t, x) a = Some a' \<Longrightarrow> i < next_object a \<Longrightarrow>
   ids a' i = ids a i \<and> (\<forall>k. phase_of a' t = Holding_at i k \<longrightarrow> phase_of a t = Holding_at i k) \<or>
   ids a' i = ids a i + 1 \<and> phase_of a' t = Holding_at i (ids a i)"
  by (cases x; cases "phase_of a t") (auto split: option.splits if_splits)

lemma spec_inv_objects:
  assumes "spec_inv n a" and "spec_act (t, x) a = Some a'"
  shows "(\<forall>u i. object_of (phase_of a' u) = Some i \<longrightarrow> i < next_object a') \<and> (\<forall>i. current a' = Some i \<longrightarrow> i < next_object a')"
proof -
  note n = step_next [OF assms(2)]
  have old: "i < next_object a" if "object_of (phase_of a u) = Some i \<or> current a = Some i" for u i
    using assms(1) that by (auto simp: spec_inv_def)
  have "i < next_object a'" if "object_of (phase_of a' u) = Some i" for u i
  proof (cases "u = t")
    case True
    then show ?thesis using step_object [OF assms(2), of i] old n that by force
  next
    case False
    then have "phase_of a' u = phase_of a u" using step_phase [OF assms(2)] by (metis fun_upd_other)
    then show ?thesis using old [of u i] that n by simp
  qed
  moreover have "i < next_object a'" if "current a' = Some i" for i
    using step_current [OF assms(2)] old [of t i] n that by fastforce
  ultimately show ?thesis by blast
qed

lemma spec_inv_active:
  assumes "spec_inv n a" and "spec_act (t, x) a = Some a'"
  shows "finite {u. phase_of a' u \<noteq> Away} \<and> card {u. phase_of a' u \<noteq> Away} \<le> Suc n"
proof -
  let ?A = "{u. phase_of a u \<noteq> Away}"
  have fin: "finite ?A" "card ?A \<le> n" using assms(1) by (simp_all add: spec_inv_def)
  have sub: "{u. phase_of a' u \<noteq> Away} \<subseteq> insert t ?A" by (subst step_phase [OF assms(2)]) auto
  then have "card {u. phase_of a' u \<noteq> Away} \<le> card (insert t ?A)" using fin by (intro card_mono) simp_all
  also have "\<dots> \<le> Suc n" using fin card_insert_le_m1 [of "Suc n" ?A t] by simp
  finally show ?thesis using sub fin finite_subset by blast
qed

lemma spec_inv_refs:
  assumes inv: "spec_inv n a" and step: "spec_act (t, x) a = Some a'" and i: "i < next_object a'"
  shows "refs a' i = of_nat (card (referents a' i))"
proof -
  have "referents a' i - {t} = referents a i - {t}"
    by (subst referents_def, subst step_phase [OF step]) (auto simp: referents_def)
  moreover have "finite (referents a i)" "finite (referents a' i)"
    using inv spec_inv_active [OF inv step] by (simp_all add: spec_inv_def finite_referents)
  ultimately have swap: "(of_nat (card (referents a' i)) :: uint32) + of_bool (reference_of (phase_of a t) = Some i) =
      of_nat (card (referents a i)) + of_bool (reference_of (phase_of a' t) = Some i)"
    using card_swap [of "referents a i" "referents a' i" t] by (simp add: referents_def)
  show ?thesis
  proof (cases "i < next_object a")
    case True
    then have "refs a i = of_nat (card (referents a i))" using inv by (simp add: spec_inv_def)
    then show ?thesis using step_refs [OF step True] swap by (metis add_right_cancel)
  next
    case False
    then have "i = next_object a" "next_object a < next_object a'" using i step_next [OF step] by auto
    moreover have "reference_of (phase_of a u) \<noteq> Some (next_object a)" for u
    proof
      assume "reference_of (phase_of a u) = Some (next_object a)"
      then have "object_of (phase_of a u) = Some (next_object a)" by (cases "phase_of a u") simp_all
      then show False using inv by (auto simp: spec_inv_def)
    qed
    ultimately show ?thesis using step_new [OF step] swap by (simp add: referents_def)
  qed
qed

lemma holding_below:
  assumes "spec_inv n a" and "phase_of a u = Holding_at i k"
  shows "i < next_object a" "k < ids a i"
proof -
  have "object_of (phase_of a u) = Some i" using assms(2) by simp
  then show "i < next_object a" "k < ids a i" using assms unfolding spec_inv_def by blast+
qed

lemma holding_unique:
  "spec_inv n a \<Longrightarrow> phase_of a u = Holding_at i k \<Longrightarrow> phase_of a v = Holding_at i k \<Longrightarrow> u = v"
  unfolding spec_inv_def by blast

lemma ids_up:
  assumes "spec_inv n a" and "i < next_object a" and "n < 2 ^ 64 - 2"
  shows "ids a i < ids a i + 1" "unat (ids a i + 1) = Suc (unat (ids a i))" "unat (ids a i) \<le> Suc n"
proof -
  show le: "unat (ids a i) \<le> Suc n" using assms by (simp add: spec_inv_def)
  then show up: "unat (ids a i + 1) = Suc (unat (ids a i))" using assms(3) by (subst unat_word_ariths) simp
  then show "ids a i < ids a i + 1" by (simp add: word_less_nat_alt)
qed

text \<open>Where the access id of the thread that made the step comes from.\<close>

lemma holding_origin:
  assumes inv: "spec_inv n a" and step: "spec_act (t, x) a = Some a'" and h: "phase_of a' t = Holding_at i k"
  obtains "i < next_object a" "phase_of a t = Holding_at i k"
    | "i < next_object a" "k = ids a i" "ids a' i = ids a i + 1"
    | "i = next_object a" "k = 1" "ids a' i = 2"
proof (cases "i < next_object a")
  case True
  then show thesis using that(1,2) step_ids [OF step True] h by auto
next
  case False
  have "object_of (phase_of a' t) = Some i" using h by simp
  then have "i < next_object a'" using spec_inv_objects [OF inv step] by blast
  then have "next_object a < next_object a'" using False by simp
  then show thesis using that(3) step_new [OF step] h by simp
qed

lemma ids_mono:
  assumes "spec_inv n a" and "spec_act (t, x) a = Some a'" and "n < 2 ^ 64 - 2" and "i < next_object a"
  shows "ids a i \<le> ids a' i"
  using step_ids [OF assms(2,4)] ids_up(1) [OF assms(1,4,3)] by auto

lemma holding_new:
  assumes inv: "spec_inv n a" and step: "spec_act (t, x) a = Some a'" and n: "n < 2 ^ 64 - 2" and h: "phase_of a' t = Holding_at i k"
  shows "k < ids a' i" and "u \<noteq> t \<Longrightarrow> phase_of a u \<noteq> Holding_at i k"
proof -
  note below = holding_below [OF inv]
  have "k < ids a' i \<and> (\<forall>u. u \<noteq> t \<longrightarrow> phase_of a u \<noteq> Holding_at i k)"
    using inv step h
  proof (cases rule: holding_origin)
    case 1
    then have "k < ids a' i" using below(2) [OF 1(2)] ids_mono [OF inv step n 1(1)] by simp
    then show ?thesis using holding_unique [OF inv 1(2)] by blast
  next
    case 2
    have "phase_of a u \<noteq> Holding_at i k" for u using below(2) [of u i k] 2(2) by auto
    then show ?thesis using ids_up(1) [OF inv 2(1) n] 2 by simp
  next
    case 3
    have "phase_of a u \<noteq> Holding_at i k" for u using below(1) [of u i k] 3(1) by auto
    then show ?thesis using 3 by (simp add: word_less_nat_alt)
  qed
  then show "k < ids a' i" and "u \<noteq> t \<Longrightarrow> phase_of a u \<noteq> Holding_at i k" by simp_all
qed

lemma spec_inv_ids:
  assumes inv: "spec_inv n a" and step: "spec_act (t, x) a = Some a'" and n: "n < 2 ^ 64 - 2"
  shows "(\<forall>i < next_object a'. unat (ids a' i) \<le> Suc (Suc n)) \<and>
    (\<forall>u i k. phase_of a' u = Holding_at i k \<longrightarrow> k < ids a' i) \<and>
    (\<forall>u v i k. phase_of a' u = Holding_at i k \<longrightarrow> phase_of a' v = Holding_at i k \<longrightarrow> u = v)"
proof -
  note mine = holding_new [OF inv step n]
  have other: "phase_of a' u = phase_of a u" if "u \<noteq> t" for u using step_phase [OF step] that by (metis fun_upd_other)
  have bound: "unat (ids a' i) \<le> Suc (Suc n)" if "i < next_object a'" for i
  proof (cases "i < next_object a")
    case True
    then show ?thesis using step_ids [OF step True] ids_up [OF inv True n] by auto
  next
    case False
    then have "i = next_object a" "next_object a < next_object a'" using that step_next [OF step] by auto
    then show ?thesis using step_new [OF step] by simp
  qed
  have less: "k < ids a' i" if h: "phase_of a' u = Holding_at i k" for u i k
  proof (cases "u = t")
    case False
    then have "phase_of a u = Holding_at i k" using h other by simp
    then show ?thesis using holding_below [OF inv] ids_mono [OF inv step n] by (meson order_less_le_trans)
  qed (use h mine(1) in blast)
  have one: "u = v" if h: "phase_of a' u = Holding_at i k" "phase_of a' v = Holding_at i k" for u v i k
  proof (cases "u = t \<or> v = t")
    case True
    then show ?thesis using h other [of u] other [of v] mine(2) [of i k] by metis
  next
    case False
    then show ?thesis using h other holding_unique [OF inv] by simp
  qed
  show ?thesis using bound less one by blast
qed

lemma spec_inv_start: "spec_inv 0 (no_block n)"
  by (simp add: spec_inv_def no_block_def referents_def)

lemma spec_inv_step:
  assumes "spec_inv n a" and "spec_act x a = Some a'" and "n < 2 ^ 64 - 2"
  shows "spec_inv (Suc n) a'"
proof -
  obtain t y where x: "x = (t, y)" by force
  note step = assms(2) [unfolded x]
  show ?thesis using spec_inv_active [OF assms(1) step] spec_inv_objects [OF assms(1) step] spec_inv_refs [OF assms(1) step]
      spec_inv_ids [OF assms(1) step assms(3)] by (subst spec_inv_def) blast
qed

lemma spec_inv_acts:
  "spec_acts xs a = Some a' \<Longrightarrow> spec_inv n a \<Longrightarrow> n + length xs < 2 ^ 64 - 2 \<Longrightarrow> spec_inv (n + length xs) a'"
proof (induction xs arbitrary: a n)
  case (Cons x xs)
  then obtain a1 where "spec_act x a = Some a1" "spec_acts xs a1 = Some a'" by (auto split: option.splits)
  then show ?case using Cons.IH [of a1 "Suc n"] spec_inv_step [of n a x a1] Cons.prems by simp
qed simp

text \<open>With fewer than \<open>2\<^sup>3\<^sup>2\<close> steps the count is the number of references.\<close>

lemma refs_exact:
  assumes "spec_inv n a" and "n < 2 ^ 32" and "i < next_object a"
  shows "unat (refs a i) = card (referents a i)"
proof -
  have "card (referents a i) \<le> card {t. phase_of a t \<noteq> Away}"
    using assms(1) by (intro card_mono) (auto simp: spec_inv_def referents_def)
  then have "card (referents a i) < 2 ^ 32" using assms(1,2) by (simp add: spec_inv_def)
  then show ?thesis using assms by (simp add: spec_inv_def unat_of_nat take_bit_nat_eq_self)
qed

section \<open>A handle that stays\<close>

text \<open>
  The thread \<open>k\<close> holds the object \<open>i\<close>, which has the name; every thread works on this object and none has found itself
  to be the last one.
\<close>

definition guarded :: "nat \<Rightarrow> nat \<Rightarrow> block_state \<Rightarrow> bool" where
  "guarded k i a \<longleftrightarrow>
     current a = Some i \<and> reference_of (phase_of a k) = Some i \<and>
     (\<forall>t. phase_of a t \<noteq> Removing \<and> (\<forall>j. phase_of a t \<noteq> Leaving j 1) \<and>
        (\<forall>j. object_of (phase_of a t) = Some j \<longrightarrow> j = i))"

lemma two_references:
  assumes "spec_inv n a" and "n < 2 ^ 32" and "i < next_object a"
    and "reference_of (phase_of a k) = Some i" and "reference_of (phase_of a t) = Some i" and "t \<noteq> k"
  shows "refs a i \<noteq> 1"
proof
  assume "refs a i = 1"
  then have "card (referents a i) = 1" using refs_exact [OF assms(1-3)] by simp
  then obtain u where "referents a i = {u}" by (rule card_1_singletonE)
  moreover have "{k, t} \<subseteq> referents a i" using assms(4,5) by (simp add: referents_def)
  ultimately show False using assms(6) by auto
qed

lemma guarded_step:
  assumes inv: "spec_inv n a" and n: "n < 2 ^ 32" and g: "guarded k i a" and step: "spec_act (t, x) a = Some a'" and t: "t \<noteq> k"
  shows "guarded k i a'"
proof -
  have i: "i < next_object a" using inv g by (simp add: spec_inv_def guarded_def)
  have ph: "phase_of a t \<noteq> Removing" "\<And>j. phase_of a t \<noteq> Leaving j 1" "\<And>j. object_of (phase_of a t) = Some j \<Longrightarrow> j = i"
    and l: "current a = Some i" and k: "reference_of (phase_of a k) = Some i"
    using g by (simp_all add: guarded_def)
  have "refs a i \<noteq> 1" if "reference_of (phase_of a t) = Some i" by (rule two_references [OF inv n i k that t])
  then have "current a' = Some i \<and> phase_of a' t \<noteq> Removing \<and> (\<forall>j. phase_of a' t \<noteq> Leaving j 1) \<and>
      (\<forall>j. object_of (phase_of a' t) = Some j \<longrightarrow> j = i)"
    using step ph l by (cases x; cases "phase_of a t") (auto split: if_splits)
  moreover have "phase_of a' u = phase_of a u" if "u \<noteq> t" for u using step_phase [OF step] that by (metis fun_upd_other)
  ultimately show ?thesis using g t unfolding guarded_def by metis
qed

lemma guarded_acts:
  "spec_acts xs a = Some a' \<Longrightarrow> spec_inv n a \<Longrightarrow> n + length xs < 2 ^ 32 \<Longrightarrow> guarded k i a \<Longrightarrow> k \<notin> fst ` set xs \<Longrightarrow> guarded k i a'"
proof (induction xs arbitrary: a n)
  case (Cons x xs)
  obtain t y where x: "x = (t, y)" by force
  obtain a1 where a1: "spec_act x a = Some a1" "spec_acts xs a1 = Some a'" using Cons.prems(1) by (auto split: option.splits)
  have "guarded k i a1" using guarded_step [of n a k i t y a1] Cons.prems a1(1) x by simp
  then show ?case using Cons.IH [of a1 "Suc n"] spec_inv_step [of n a x a1] Cons.prems a1 by simp
qed simp

section \<open>An object that has lost its last reference\<close>

text \<open>Nobody has or is about to take a reference to the object \<open>i\<close>.\<close>

fun committed :: "phase \<Rightarrow> nat option" where
  "committed (Awake_at i) = Some i"
| "committed (Matched_at i) = Some i"
| "committed (Counted_at i) = Some i"
| "committed (Holding_at i k) = Some i"
| "committed ph = None"

definition abandoned :: "nat \<Rightarrow> block_state \<Rightarrow> bool" where
  "abandoned i a \<longleftrightarrow> i < next_object a \<and> (\<forall>t. committed (phase_of a t) \<noteq> Some i)"

lemma abandoned_refs: "spec_inv n a \<Longrightarrow> abandoned i a \<Longrightarrow> refs a i = 0"
proof -
  assume a: "spec_inv n a" "abandoned i a"
  have "reference_of ph = Some i \<Longrightarrow> committed ph = Some i" for ph by (cases ph) simp_all
  then have "referents a i = {}" using a(2) by (auto simp: abandoned_def referents_def)
  then show "refs a i = 0" using a by (simp add: spec_inv_def abandoned_def)
qed

lemma abandoned_step:
  assumes inv: "spec_inv n a" and ab: "abandoned i a" and step: "spec_act (t, x) a = Some a'"
  shows "abandoned i a' \<and> (phase_of a u = Waiting_at i \<longrightarrow> phase_of a' u = Waiting_at i)"
proof -
  have r: "refs a i = 0" by (rule abandoned_refs [OF inv ab])
  have c: "committed (phase_of a t) \<noteq> Some i" "i < next_object a" using ab by (simp_all add: abandoned_def)
  have "committed (phase_of a' t) \<noteq> Some i \<and> (phase_of a t = Waiting_at i \<longrightarrow> phase_of a' t = Waiting_at i)"
    using step c r by (cases x; cases "phase_of a t") (auto split: if_splits option.splits)
  moreover have "phase_of a' u = phase_of a u" if "u \<noteq> t" for u using step_phase [OF step] that by (metis fun_upd_other)
  ultimately show ?thesis using ab step_next [OF step] unfolding abandoned_def by (metis order_less_le_trans)
qed

lemma abandoned_acts:
  "spec_acts xs a = Some a' \<Longrightarrow> spec_inv n a \<Longrightarrow> n + length xs < 2 ^ 64 - 2 \<Longrightarrow> abandoned i a \<Longrightarrow>
   abandoned i a' \<and> (phase_of a u = Waiting_at i \<longrightarrow> phase_of a' u = Waiting_at i)"
proof (induction xs arbitrary: a n)
  case (Cons x xs)
  obtain t y where x: "x = (t, y)" by force
  obtain a1 where a1: "spec_act x a = Some a1" "spec_acts xs a1 = Some a'" using Cons.prems(1) by (auto split: option.splits)
  have "abandoned i a1 \<and> (phase_of a u = Waiting_at i \<longrightarrow> phase_of a1 u = Waiting_at i)"
    using abandoned_step [of n a i t y a1 u] Cons.prems a1(1) x by simp
  then show ?case using Cons.IH [of a1 "Suc n"] spec_inv_step [of n a x a1] Cons.prems a1 by simp
qed simp

section \<open>Systems that make these steps\<close>

text \<open>
  What a system owes for the facts above to hold of it: wherever it shows a state, it makes the steps of the specification
  and shows the state after them, and it blocks where there is no step.
\<close>

locale block_machine =
  fixes do_act :: "nat \<times> action \<Rightarrow> 'm \<Rightarrow> 'm outcome"
    and shows_state :: "'m \<Rightarrow> block_state \<Rightarrow> bool"
    and fit :: "action \<Rightarrow> bool"
  assumes act_follows: "shows_state m a \<Longrightarrow> fit (snd x) \<Longrightarrow> spec_act x a = Some a' \<Longrightarrow>
      \<exists>m'. do_act x m = Ret m' \<and> shows_state m' a'"
    and act_blocks: "shows_state m a \<Longrightarrow> fit (snd x) \<Longrightarrow> spec_act x a = None \<Longrightarrow> do_act x m = Blocked"
begin

lemma schedule_follows:
  "shows_state m a \<Longrightarrow> \<forall>x \<in> set xs. fit (snd x) \<Longrightarrow>
   (case spec_acts xs a of
      Some a' \<Rightarrow> \<exists>m'. schedule do_act xs m = Ret m' \<and> shows_state m' a'
    | None \<Rightarrow> schedule do_act xs m = Blocked)"
proof (induction xs arbitrary: m a)
  case (Cons x xs)
  show ?case
  proof (cases "spec_act x a")
    case None
    then show ?thesis using act_blocks [OF Cons.prems(1)] Cons.prems(2) by simp
  next
    case (Some a1)
    then obtain m1 where "do_act x m = Ret m1" "shows_state m1 a1" using act_follows [OF Cons.prems(1) _ Some] Cons.prems(2) by auto
    then have run: "schedule do_act (x # xs) m = schedule do_act xs m1" "spec_acts (x # xs) a = spec_acts xs a1" "shows_state m1 a1"
      using Some by simp_all
    show ?thesis unfolding run(1,2) using Cons.IH [OF run(3)] Cons.prems(2) by simp
  qed
qed simp

lemma schedule_end:
  assumes "shows_state m a" and "\<forall>x \<in> set xs. fit (snd x)" and "schedule do_act xs m = Ret m'"
  obtains a' where "spec_acts xs a = Some a'" "shows_state m' a'"
  using schedule_follows [OF assms(1,2)] assms(3) that by (auto split: option.splits)

lemma schedule_reaches:
  assumes "shows_state m a" and "\<forall>x \<in> set xs. fit (snd x)" and "spec_acts xs a = Some a'"
  obtains m' where "schedule do_act xs m = Ret m'" "shows_state m' a'"
  using schedule_follows [OF assms(1,2)] assms(3) that by auto

end

text \<open>The specification is such a system.\<close>

interpretation spec_machine: block_machine
  "\<lambda>x a. case spec_act x a of None \<Rightarrow> Blocked | Some a' \<Rightarrow> Ret a'" "(=)" "\<lambda>_. True"
  by unfold_locales simp_all

end
