(* ===== verification/Block_Races.thy ===== *)
theory Block_Races
  imports Block_Phases Block_Spec
begin

text \<open>
  Threads that create, open and close one block, interleaved at the pieces of \<^verbatim>\<open>Block_Phases\<close>, on one kernel. What the
  state of the threads, their descriptors and mappings, the objects and the name stand for in the specification of \<^verbatim>\<open>Block_Spec\<close>,
  and that every step of the code is the step of the specification.
\<close>

section \<open>Threads in any order\<close>

text \<open>
  Creating is one step: nobody else runs between its accesses to the name and to the header. So the runs say nothing of an opening
  that comes while a creation is going on, which can be undefined; that is the subject of \<^verbatim>\<open>open_during_creation\<close> in \<^verbatim>\<open>Block_Lifetime\<close>.
  An action that is not possible where the thread is, is \<open>Blocked\<close>.
\<close>

record 'h race =
  kernel :: "'h world"
  thread_of :: "nat \<Rightarrow> thread"

fun idle :: "thread \<Rightarrow> bool" where
  "idle Outside = True"
| "idle (Returned r) = True"
| "idle th = False"

definition place :: "nat \<Rightarrow> 'h race \<Rightarrow> thread \<times> 'h world \<Rightarrow> 'h race outcome" where
  "place t s = (\<lambda>(th, w). Ret (s\<lparr>kernel := w, thread_of := (thread_of s)(t := th)\<rparr>))"

fun act :: "'h ipm_context \<Rightarrow> string \<Rightarrow> ipm_id \<Rightarrow> nat \<times> action \<Rightarrow> 'h race \<Rightarrow> 'h race outcome" where
  "act ctx bname bid (t, Create_block sz acc) s =
     (if idle (thread_of s t) then
        bind_outcome (shared_memory_block_create ctx bname bid sz acc poisoned (kernel s)) (\<lambda>(r, b, w).
        place t s (returned r b, w))
      else Blocked)"
| "act ctx bname bid (t, Open_block acc) s =
     (if idle (thread_of s t) then bind_outcome (open_begin ctx bname bid acc (kernel s)) (place t s) else Blocked)"
| "act ctx bname bid (t, Close_block) s =
     (case thread_of s t of Holding b \<Rightarrow> bind_outcome (close_begin b (kernel s)) (place t s) | _ \<Rightarrow> Blocked)"
| "act ctx bname bid (t, Go_on) s =
     bind_outcome (advance ctx bname bid None (thread_of s t) (kernel s)) (place t s)"

text \<open>Sizes as \<^verbatim>\<open>source/ipm_memory.c\<close> passes them.\<close>

fun proper_action :: "action \<Rightarrow> bool" where
  "proper_action (Create_block sz acc) \<longleftrightarrow> 0 < sz \<and> unat sz mod 4096 = 0 \<and> unat sz + 4096 < 2 ^ 63"
| "proper_action a \<longleftrightarrow> True"

section \<open>What belongs to a thread\<close>

fun block_of :: "thread \<Rightarrow> ipm_shared_memory_block option" where
  "block_of (Mapped b) = Some b"
| "block_of (Awake b) = Some b"
| "block_of (Matched b) = Some b"
| "block_of (Counted b) = Some b"
| "block_of (Holding b) = Some b"
| "block_of th = None"

definition fds_of :: "thread \<Rightarrow> int set" where
  "fds_of th = (case th of Opened acc fd \<Rightarrow> {fd} | _ \<Rightarrow> (case block_of th of Some b \<Rightarrow> {mem_fd b} | None \<Rightarrow> {}))"

definition ptrs_of :: "thread \<Rightarrow> ptr set" where
  "ptrs_of th = (case th of Uncounted hdr mem r \<Rightarrow> {hdr, mem}
     | _ \<Rightarrow> (case block_of th of Some b \<Rightarrow> {header b, memory b} | None \<Rightarrow> {}))"

text \<open>The two mappings of the object \<open>i\<close>, and the threads that work on it.\<close>

definition both_mapped :: "'h world \<Rightarrow> nat \<Rightarrow> ptr \<Rightarrow> ptr \<Rightarrow> bool" where
  "both_mapped w i hdr mem \<longleftrightarrow>
     (case (hdr, mem) of
        (Addr a, Addr c) \<Rightarrow>
          a \<noteq> c \<and>
          maps w a = Some \<lparr>map_obj = i, map_off = 0, map_len = 4096, map_write = True, map_gone = 0\<rparr> \<and>
          (\<exists>wr. maps w c = Some \<lparr>map_obj = i, map_off = 4096,
             map_len = page_ceil (unat (block_size (obj_header (objs w i)))), map_write = wr, map_gone = 0\<rparr>)
      | _ \<Rightarrow> False)"

definition whole_handle :: "'h world \<Rightarrow> nat \<Rightarrow> ipm_shared_memory_block \<Rightarrow> bool" where
  "whole_handle w i b \<longleftrightarrow> handle_ok w i b \<and> mapped_size b = block_size (obj_header (objs w i))"

fun attached :: "'h world \<Rightarrow> nat \<Rightarrow> thread \<Rightarrow> bool" where
  "attached w i (Opened acc fd) \<longleftrightarrow> fds w fd = Some i"
| "attached w i (Uncounted hdr mem r) \<longleftrightarrow> both_mapped w i hdr mem"
| "attached w i th \<longleftrightarrow> (case block_of th of Some b \<Rightarrow> whole_handle w i b | None \<Rightarrow> False)"

fun detached_thread :: "thread \<Rightarrow> bool" where
  "detached_thread (Unlinking nm k) = True"
| "detached_thread th = idle th"

lemma whole_handle_mapped: "whole_handle w i b \<Longrightarrow> both_mapped w i (header b) (memory b)"
  by (auto simp: whole_handle_def handle_ok_def both_mapped_def split: ptr.splits)

lemma both_mappedE:
  assumes "both_mapped w i hdr mem"
  obtains a c wr where "hdr = Addr a" "mem = Addr c" "a \<noteq> c"
    "maps w a = Some \<lparr>map_obj = i, map_off = 0, map_len = 4096, map_write = True, map_gone = 0\<rparr>"
    "maps w c = Some \<lparr>map_obj = i, map_off = 4096,
       map_len = page_ceil (unat (block_size (obj_header (objs w i)))), map_write = wr, map_gone = 0\<rparr>"
  using assms by (auto simp: both_mapped_def split: ptr.splits)

lemma both_mapped_header:
  assumes "both_mapped w i hdr mem" and "block_obj bname bid (objs w i)"
  shows "header_at hdr w = Some i"
  using assms header_at_mapped [of w _ i] block_objD(3) [OF assms(2)] by (auto elim!: both_mappedE)

lemma whole_handle_fd: "whole_handle w i b \<Longrightarrow> fds w (mem_fd b) = Some i"
  by (simp add: whole_handle_def handle_ok_def)

lemma both_mapped_unique: "both_mapped w i hdr mem \<Longrightarrow> both_mapped w j hdr mem \<Longrightarrow> i = j"
  by (simp add: both_mapped_def split: ptr.splits)

lemma whole_handle_unique: "whole_handle w i b \<Longrightarrow> whole_handle w j b \<Longrightarrow> i = j"
  by (drule whole_handle_fd)+ simp

lemma attached_unique: "attached w i th \<Longrightarrow> attached w j th \<Longrightarrow> i = j"
  by (cases th) (auto dest: whole_handle_unique both_mapped_unique)

lemma both_mapped_frame:
  assumes "both_mapped w i hdr mem" and "\<And>a. Addr a \<in> {hdr, mem} \<Longrightarrow> maps w' a = maps w a"
    and "block_size (obj_header (objs w' i)) = block_size (obj_header (objs w i))"
  shows "both_mapped w' i hdr mem"
  using assms(1)
proof (rule both_mappedE)
  fix a c wr
  assume "hdr = Addr a" "mem = Addr c" "a \<noteq> c"
    "maps w a = Some \<lparr>map_obj = i, map_off = 0, map_len = 4096, map_write = True, map_gone = 0\<rparr>"
    "maps w c = Some \<lparr>map_obj = i, map_off = 4096,
       map_len = page_ceil (unat (block_size (obj_header (objs w i)))), map_write = wr, map_gone = 0\<rparr>"
  then show ?thesis using assms(2,3) by (simp add: both_mapped_def)
qed

lemma whole_handle_frame:
  assumes "whole_handle w i b" and "fds w' (mem_fd b) = fds w (mem_fd b)"
    and "\<And>a. Addr a \<in> {header b, memory b} \<Longrightarrow> maps w' a = maps w a"
    and "block_size (obj_header (objs w' i)) = block_size (obj_header (objs w i))"
  shows "whole_handle w' i b"
proof -
  have "handle_ok w i b" using assms(1) by (simp add: whole_handle_def)
  then have "handle_ok w' i b"
  proof (rule handle_okE)
  qed (use assms(2,3) in \<open>simp add: handle_ok_def\<close>)
  then show ?thesis using assms(1,4) by (simp add: whole_handle_def)
qed

lemma attached_frame:
  assumes "attached w i th"
    and "\<And>fd. fd \<in> fds_of th \<Longrightarrow> fds w' fd = fds w fd"
    and "\<And>a. Addr a \<in> ptrs_of th \<Longrightarrow> maps w' a = maps w a"
    and "block_size (obj_header (objs w' i)) = block_size (obj_header (objs w i))"
  shows "attached w' i th"
  using assms
  by (cases th) (auto simp: fds_of_def ptrs_of_def intro!: both_mapped_frame [of w] whole_handle_frame [of w])

lemma kernel_okD:
  assumes "kernel_ok w"
  shows "fds w fd = Some i \<Longrightarrow> fd < int (next_fd w) \<and> i < next_obj w"
    "maps w a = Some m \<Longrightarrow> a < next_map w \<and> map_obj m < next_obj w" "names w nm = Some i \<Longrightarrow> i < next_obj w"
  using assms unfolding kernel_ok_iff by blast+

lemma both_mapped_bounds:
  assumes "kernel_ok w" and "both_mapped w i hdr mem"
  shows "i < next_obj w \<and> (\<forall>p \<in> {hdr, mem}. \<exists>a < next_map w. p = Addr a)"
proof -
  obtain a c wr where ac: "hdr = Addr a" "mem = Addr c"
    "maps w a = Some \<lparr>map_obj = i, map_off = 0, map_len = 4096, map_write = True, map_gone = 0\<rparr>"
    "maps w c = Some \<lparr>map_obj = i, map_off = 4096,
       map_len = page_ceil (unat (block_size (obj_header (objs w i)))), map_write = wr, map_gone = 0\<rparr>"
    using assms(2) by (rule both_mappedE)
  show ?thesis using kernel_okD(2) [OF assms(1) ac(3)] kernel_okD(2) [OF assms(1) ac(4)] ac(1,2) by simp
qed

lemma attached_resources:
  assumes ker: "kernel_ok w" and at: "attached w i th"
  shows "i < next_obj w" "fd \<in> fds_of th \<Longrightarrow> fd < int (next_fd w)" "p \<in> ptrs_of th \<Longrightarrow> \<exists>a < next_map w. p = Addr a"
proof -
  note fd = kernel_okD(1) [OF ker] and m = both_mapped_bounds [OF ker] and b = whole_handle_fd whole_handle_mapped
  show "i < next_obj w" using at by (cases th) (auto dest: fd b m)
  show "fd < int (next_fd w)" if "fd \<in> fds_of th" using at that by (cases th) (auto simp: fds_of_def dest: fd b)
  show "\<exists>a < next_map w. p = Addr a" if "p \<in> ptrs_of th" using at that by (cases th) (auto simp: ptrs_of_def dest!: b(2) m)
qed

section \<open>What each piece does\<close>

definition edit_header :: "nat \<Rightarrow> (ipm_shared_memory_header \<Rightarrow> ipm_shared_memory_header) \<Rightarrow> 'h world \<Rightarrow> 'h world" where
  "edit_header i f w = w\<lparr>objs := (objs w)(i := obj_header_update f (objs w i))\<rparr>"

text \<open>Reading and changing the header through the mapping of a thread.\<close>

lemma mapped_access:
  assumes "both_mapped w i hdr mem" and "block_obj bname bid (objs w i)"
  shows "read_header hdr w = Ret (obj_header (objs w i))" "write_header hdr f w = Ret (edit_header i f w)"
  using both_mapped_header [OF assms] by (simp_all add: read_header_def write_header_def edit_header_def)

lemma both_mapped_edit:
  "both_mapped w i hdr mem \<Longrightarrow> (\<And>h. block_size (f h) = block_size h) \<Longrightarrow> both_mapped (edit_header j f w) i hdr mem"
  by (rule both_mapped_frame) (auto simp: edit_header_def)

lemma open_begin_present:
  assumes "quiet w" and "length bname \<le> IPM_MAX_NAME_LEN"
    and "names w (make_block_name_based_on_id name_buffer_size bname bid) = Some i"
  shows "open_begin ctx bname bid acc w =
    Ret (Opened acc (int (next_fd w)),
         w\<lparr>faults := tl (faults w), fds := (fds w)(int (next_fd w) \<mapsto> i), next_fd := Suc (next_fd w)\<rparr>)"
  using assms by (simp add: open_begin_def shm_open_def next_fault_quiet)

lemma open_begin_absent:
  assumes "quiet w" and "length bname \<le> IPM_MAX_NAME_LEN"
    and "names w (make_block_name_based_on_id name_buffer_size bname bid) = None"
  shows "\<exists>r e h. open_begin ctx bname bid acc w = Ret (Returned r, w\<lparr>faults := tl (faults w), errno := e, host := h\<rparr>) \<and>
    r \<noteq> IPM_RESULT_SUCCESS"
  using assms by (auto simp: open_begin_def shm_open_def next_fault_quiet Let_def shm_report_def IPM_ERROR_def split: prod.split)

definition views_added :: "nat \<Rightarrow> ipm_access_mode \<Rightarrow> 'h world \<Rightarrow> 'h world" where
  "views_added i acc w =
     w\<lparr>faults := tl (tl (faults w)), maps := (maps w)
         (next_map w \<mapsto> \<lparr>map_obj = i, map_off = 0, map_len = 4096, map_write = True, map_gone = 0\<rparr>,
          Suc (next_map w) \<mapsto>
            \<lparr>map_obj = i, map_off = 4096, map_len = page_ceil (unat (block_size (obj_header (objs w i)))),
             map_write = (acc \<noteq> IPM_ACCESS_MODE_READ_ONLY), map_gone = 0\<rparr>),
       next_map := Suc (Suc (next_map w))\<rparr>"

lemma open_map_attached:
  assumes q: "quiet w" and fd: "fds w fd = Some i" and obj: "block_obj bname bid (objs w i)"
  shows "open_map ctx acc fd w =
    Ret (Mapped (new_block 0 (block_size (obj_header (objs w i))) acc fd (Addr (next_map w)) (Addr (Suc (next_map w)))),
         views_added i acc w)"
proof -
  note d = block_objD [OF obj]
  let ?w1 = "w\<lparr>faults := tl (faults w), maps := (maps w)(next_map w \<mapsto>
      \<lparr>map_obj = i, map_off = 0, map_len = 4096, map_write = True, map_gone = 0\<rparr>), next_map := Suc (next_map w)\<rparr>"
  have m: "mmap IPM_MEMORY_PAGE_SIZE True fd 0 w = (Addr (next_map w), ?w1)"
    using mmap_quiet [OF q _ fd, of IPM_MEMORY_PAGE_SIZE] by (simp add: IPM_MEMORY_PAGE_SIZE_def)
  have q1: "quiet ?w1" using quiet_tl [OF q] by (simp add: quiet_def)
  have r: "read_header (Addr (next_map w)) ?w1 = Ret (obj_header (objs w i))"
    using d(3) by (simp add: read_header_def header_at_def page_at_def)
  show ?thesis using m r mmap_quiet [OF q1, of "block_size (obj_header (objs w i))" fd i] d(2) fd
    by (simp add: open_map_def Let_def views_added_def)
qed

lemma open_pieces:
  assumes "whole_handle w i b" and obj: "block_obj bname bid (objs w i)"
  shows "open_poll b w = Ret (if refcount (obj_header (objs w i)) = 0 then Mapped b else Awake b, w)"
    "open_compare ctx bname bid b w = Ret (Matched b, w)"
    "open_count b w = Ret (Counted b, edit_header i (\<lambda>h. h\<lparr>refcount := refcount h + 1\<rparr>) w)"
    "open_number b w = Ret (Holding (b\<lparr>access_id := id_counter (obj_header (objs w i))\<rparr>),
       edit_header i (\<lambda>h. h\<lparr>id_counter := id_counter h + 1\<rparr>) w)"
  using mapped_access [OF whole_handle_mapped [OF assms(1)] obj] block_objD [OF obj]
  by (simp_all add: open_poll_def open_compare_def open_count_def open_number_def not_less)

lemma close_begin_attached:
  assumes "whole_handle w i b" and "block_obj bname bid (objs w i)"
  shows "close_begin b w = Ret (Uncounted (header b) (memory b) (refcount (obj_header (objs w i))),
    edit_header i (\<lambda>h. h\<lparr>refcount := refcount h - 1\<rparr>) (w\<lparr>fds := (fds w)(mem_fd b := None)\<rparr>))"
proof -
  let ?w1 = "w\<lparr>fds := (fds w)(mem_fd b := None)\<rparr>"
  have "sys_close (mem_fd b) w = ?w1" using whole_handle_fd [OF assms(1)] by (simp add: sys_close_def)
  moreover have "both_mapped ?w1 i (header b) (memory b)"
    using whole_handle_mapped [OF assms(1)] by (rule both_mapped_frame) simp_all
  moreover have "has_ownership b = 0" using assms(1) by (simp add: whole_handle_def handle_ok_def)
  ultimately show ?thesis using mapped_access [of ?w1 i "header b" "memory b" bname bid] assms(2) by (simp add: close_begin_def)
qed

definition views_removed :: "ptr \<Rightarrow> ptr \<Rightarrow> 'h world \<Rightarrow> 'h world" where
  "views_removed hdr mem w =
     (case (hdr, mem) of (Addr a, Addr c) \<Rightarrow> w\<lparr>maps := (maps w)(c := None, a := None)\<rparr> | _ \<Rightarrow> w)"

lemma unmap_views:
  assumes "both_mapped w i hdr mem" and "0 < block_size (obj_header (objs w i))"
  shows "munmap hdr IPM_MEMORY_PAGE_SIZE (munmap mem (block_size (obj_header (objs w i))) w) = views_removed hdr mem w"
  using assms(1)
proof (rule both_mappedE)
  fix a c wr
  assume ac: "hdr = Addr a" "mem = Addr c" "a \<noteq> c"
    "maps w a = Some \<lparr>map_obj = i, map_off = 0, map_len = 4096, map_write = True, map_gone = 0\<rparr>"
    "maps w c = Some \<lparr>map_obj = i, map_off = 4096,
       map_len = page_ceil (unat (block_size (obj_header (objs w i)))), map_write = wr, map_gone = 0\<rparr>"
  show ?thesis using unmap_both(2) [OF ac(4) _ ac(5), of "block_size (obj_header (objs w i))"] assms(2) ac(1-3)
    by (simp add: views_removed_def)
qed

lemma close_leave_attached:
  assumes m: "both_mapped w i hdr mem" and obj: "block_obj bname bid (objs w i)" and nm: "good_name bname"
  shows "close_leave None hdr mem r w =
    (if r = 1
     then Ret (Unlinking (make_block_name_based_on_id name_buffer_size bname bid) bid,
            views_removed hdr mem (edit_header i (\<lambda>h. h\<lparr>segment_mutex := snd (ipm_mutex_destroy (segment_mutex h) w)\<rparr>) w))
     else Ret (Returned IPM_RESULT_SUCCESS, views_removed hdr mem w))"
proof -
  let ?f = "\<lambda>h. h\<lparr>segment_mutex := snd (ipm_mutex_destroy (segment_mutex h) w)\<rparr>"
  note d = block_objD [OF obj] and rw = mapped_access [OF m obj]
  have e: "both_mapped (edit_header i ?f w) i hdr mem" using m by (rule both_mapped_edit) simp
  have s: "block_size (obj_header (objs (edit_header i ?f w) i)) = block_size (obj_header (objs w i))"
    by (simp add: edit_header_def)
  show ?thesis using rw d nm unmap_views [OF m d(2)] unmap_views [OF e] s
    by (simp add: close_leave_def good_name_def Let_def)
qed

lemma close_unlink_quiet:
  assumes "quiet w"
  shows "\<exists>r e h. close_unlink ctx nm k w = Ret (Returned r, w\<lparr>faults := tl (faults w), names := (names w)(nm := None), errno := e, host := h\<rparr>) \<and>
    (r = IPM_RESULT_SUCCESS \<longleftrightarrow> names w nm \<noteq> None)"
proof (cases "names w nm")
  case None
  then have n: "(names w)(nm := None) = names w" by (rule fun_upd_idem)
  show ?thesis unfolding n using assms None
    by (auto simp: close_unlink_def shm_unlink_def next_fault_quiet Let_def shm_report_def IPM_ERROR_def split: prod.split)
next
  case (Some i)
  then have "close_unlink ctx nm k w = Ret (Returned IPM_RESULT_SUCCESS, w\<lparr>faults := tl (faults w), names := (names w)(nm := None)\<rparr>)"
    using assms by (simp add: close_unlink_def shm_unlink_def next_fault_quiet)
  moreover have "w\<lparr>faults := tl (faults w), names := (names w)(nm := None), errno := errno w, host := host w\<rparr> =
      w\<lparr>faults := tl (faults w), names := (names w)(nm := None)\<rparr>" by simp
  ultimately show ?thesis using Some by (metis option.distinct(1))
qed

section \<open>What the threads stand for\<close>

abbreviation block_path :: "string \<Rightarrow> ipm_id \<Rightarrow> string" where
  "block_path bname bid \<equiv> make_block_name_based_on_id name_buffer_size bname bid"

text \<open>Where a thread is, in terms of the specification.\<close>

fun at_phase :: "string \<Rightarrow> 'h world \<Rightarrow> phase \<Rightarrow> thread \<Rightarrow> bool" where
  "at_phase nb w Away th \<longleftrightarrow> idle th"
| "at_phase nb w (Opened_at i) th \<longleftrightarrow> (\<exists>acc fd. th = Opened acc fd) \<and> attached w i th"
| "at_phase nb w (Waiting_at i) th \<longleftrightarrow> (\<exists>b. th = Mapped b) \<and> attached w i th"
| "at_phase nb w (Awake_at i) th \<longleftrightarrow> (\<exists>b. th = Awake b) \<and> attached w i th"
| "at_phase nb w (Matched_at i) th \<longleftrightarrow> (\<exists>b. th = Matched b) \<and> attached w i th"
| "at_phase nb w (Counted_at i) th \<longleftrightarrow> (\<exists>b. th = Counted b) \<and> attached w i th"
| "at_phase nb w (Holding_at i k) th \<longleftrightarrow> (\<exists>b. th = Holding b \<and> access_id b = k) \<and> attached w i th"
| "at_phase nb w (Leaving i r) th \<longleftrightarrow> (\<exists>hdr mem. th = Uncounted hdr mem r) \<and> attached w i th"
| "at_phase nb w Removing th \<longleftrightarrow> (\<exists>k. th = Unlinking nb k)"

text \<open>The header of an object: its counters, and the mutex that nobody holds as long as it exists.\<close>

definition header_shown :: "block_state \<Rightarrow> nat \<Rightarrow> ipm_shared_memory_header \<Rightarrow> bool" where
  "header_shown a i h \<longleftrightarrow>
     refcount h = refs a i \<and> id_counter h = ids a i \<and>
     segment_mutex h = (if i \<in> spoiled a then Mut_raw else Mut shared_robust Unlocked)"

text \<open>Objects from the number \<open>from\<close> on are those that were created for this block.\<close>

definition objects_shown :: "string \<Rightarrow> ipm_id \<Rightarrow> nat \<Rightarrow> 'h world \<Rightarrow> block_state \<Rightarrow> bool" where
  "objects_shown bname bid from w a \<longleftrightarrow>
     (\<forall>i. from \<le> i \<longrightarrow> i < next_obj w \<longrightarrow>
        block_obj bname bid (objs w i) \<and> header_shown a i (obj_header (objs w i)))"

definition threads_apart :: "'h race \<Rightarrow> bool" where
  "threads_apart s \<longleftrightarrow>
     (\<forall>t u. t \<noteq> u \<longrightarrow> fds_of (thread_of s t) \<inter> fds_of (thread_of s u) = {} \<and>
        ptrs_of (thread_of s t) \<inter> ptrs_of (thread_of s u) = {})"

definition represents :: "string \<Rightarrow> ipm_id \<Rightarrow> nat \<Rightarrow> 'h race \<Rightarrow> block_state \<Rightarrow> bool" where
  "represents bname bid from s a \<longleftrightarrow>
     kernel_ok (kernel s) \<and> quiet (kernel s) \<and> from \<le> next_obj (kernel s) \<and>
     next_object a = next_obj (kernel s) \<and> current a = names (kernel s) (block_path bname bid) \<and>
     (\<forall>i. current a = Some i \<longrightarrow> from \<le> i) \<and> objects_shown bname bid from (kernel s) a \<and>
     (\<forall>t. at_phase (block_path bname bid) (kernel s) (phase_of a t) (thread_of s t)) \<and>
     (\<forall>t i. object_of (phase_of a t) = Some i \<longrightarrow> from \<le> i) \<and> threads_apart s"

text \<open>
  What the step of a thread from \<open>th\<close> to \<open>th'\<close> does to the world: it leaves the descriptors and mappings of others alone,
  takes only new ones, and keeps the shape of objects.
\<close>

definition moves :: "'h world \<Rightarrow> thread \<Rightarrow> 'h world \<Rightarrow> thread \<Rightarrow> bool" where
  "moves w th w' th' \<longleftrightarrow>
     kernel_ok w' \<and> quiet w' \<and> next_obj w \<le> next_obj w' \<and>
     (\<forall>fd. fd < int (next_fd w) \<longrightarrow> fd \<notin> fds_of th \<longrightarrow> fds w' fd = fds w fd) \<and>
     (\<forall>a. a < next_map w \<longrightarrow> Addr a \<notin> ptrs_of th \<longrightarrow> maps w' a = maps w a) \<and>
     (\<forall>fd \<in> fds_of th'. fd \<in> fds_of th \<or> int (next_fd w) \<le> fd) \<and>
     (\<forall>p \<in> ptrs_of th'. p \<in> ptrs_of th \<or> (\<exists>a \<ge> next_map w. p = Addr a)) \<and>
     (\<forall>i < next_obj w. block_size (obj_header (objs w' i)) = block_size (obj_header (objs w i)))"

lemma detached_thread_nothing [simp]:
  "detached_thread th \<Longrightarrow> fds_of th = {}" "detached_thread th \<Longrightarrow> ptrs_of th = {}" "detached_thread th \<Longrightarrow> \<not> attached w i th"
  by (cases th; simp add: fds_of_def ptrs_of_def)+

lemma at_phase_object:
  "at_phase nb w ph th \<Longrightarrow> (case object_of ph of Some i \<Rightarrow> attached w i th | None \<Rightarrow> detached_thread th)"
  by (cases ph; cases th) simp_all

lemma at_phase_frame:
  "at_phase nb w ph th \<Longrightarrow> (\<And>i. attached w i th \<Longrightarrow> attached w' i th) \<Longrightarrow> at_phase nb w' ph th"
  by (cases ph) auto

lemma thread_bounds:
  assumes "kernel_ok w" and "at_phase nb w ph th"
  shows "fd \<in> fds_of th \<Longrightarrow> fd < int (next_fd w)" "p \<in> ptrs_of th \<Longrightarrow> \<exists>a < next_map w. p = Addr a"
  using at_phase_object [OF assms(2)] attached_resources(2,3) [OF assms(1), of _ th] by (auto split: option.splits)

text \<open>Another thread does not notice.\<close>

lemma moves_attached:
  assumes mv: "moves w th w' th'" and ker: "kernel_ok w"
    and apart: "fds_of th \<inter> fds_of v = {}" "ptrs_of th \<inter> ptrs_of v = {}" and v: "attached w i v"
  shows "attached w' i v"
  using v
proof (rule attached_frame)
  note r = attached_resources [OF ker v]
  show "fds w' fd = fds w fd" if "fd \<in> fds_of v" for fd
    using mv that r(2) [OF that] apart(1) by (auto simp: moves_def)
  show "maps w' a = maps w a" if "Addr a \<in> ptrs_of v" for a
    using mv that r(3) [OF that] apart(2) by (auto simp: moves_def)
  show "block_size (obj_header (objs w' i)) = block_size (obj_header (objs w i))"
    using mv r(1) by (simp add: moves_def)
qed

lemma moves_apart:
  assumes "moves w (thread_of s t) w' th'" and "threads_apart s" and ker: "kernel_ok w"
    and ph: "\<And>u. at_phase nb w (phase_of a u) (thread_of s u)"
  shows "threads_apart (s\<lparr>kernel := w', thread_of := (thread_of s)(t := th')\<rparr>)"
proof -
  have "fds_of th' \<inter> fds_of (thread_of s u) = {} \<and> ptrs_of th' \<inter> ptrs_of (thread_of s u) = {}" if "u \<noteq> t" for u
  proof -
    have "fds_of (thread_of s t) \<inter> fds_of (thread_of s u) = {}" "ptrs_of (thread_of s t) \<inter> ptrs_of (thread_of s u) = {}"
      using assms(2) that unfolding threads_apart_def by blast+
    then show ?thesis using assms(1) thread_bounds [OF ker ph, of _ u] unfolding moves_def by (auto simp: disjoint_iff) force+
  qed
  then show ?thesis using assms(2) unfolding threads_apart_def by (auto simp: disjoint_iff)
qed

lemma representsD:
  assumes "represents bname bid from s a"
  shows "kernel_ok (kernel s)" "quiet (kernel s)" "from \<le> next_obj (kernel s)" "next_object a = next_obj (kernel s)"
    "current a = names (kernel s) (block_path bname bid)" "current a = Some i \<Longrightarrow> from \<le> i"
    "objects_shown bname bid from (kernel s) a" "at_phase (block_path bname bid) (kernel s) (phase_of a t) (thread_of s t)"
    "object_of (phase_of a t) = Some i \<Longrightarrow> from \<le> i" "threads_apart s"
  using assms by (simp_all add: represents_def)

lemma represents_moves:
  assumes rep: "represents bname bid from s a" and mv: "moves (kernel s) (thread_of s t) w' th'"
    and ph: "phase_of a' = (phase_of a)(t := ph')" and at: "at_phase (block_path bname bid) w' ph' th'"
    and new: "next_object a' = next_obj w'" "current a' = names w' (block_path bname bid)" "\<And>i. current a' = Some i \<Longrightarrow> from \<le> i"
    and obj: "objects_shown bname bid from w' a'" "\<And>i. object_of ph' = Some i \<Longrightarrow> from \<le> i"
  shows "represents bname bid from (s\<lparr>kernel := w', thread_of := (thread_of s)(t := th')\<rparr>) a'"
proof -
  note d = representsD [OF rep]
  have "at_phase (block_path bname bid) w' (phase_of a u) (thread_of s u)" if "u \<noteq> t" for u
    using d(8) [of u]
  proof (rule at_phase_frame)
    have apart: "fds_of (thread_of s t) \<inter> fds_of (thread_of s u) = {}" "ptrs_of (thread_of s t) \<inter> ptrs_of (thread_of s u) = {}"
      using d(10) that unfolding threads_apart_def by blast+
    show "attached w' i (thread_of s u)" if "attached (kernel s) i (thread_of s u)" for i
      by (rule moves_attached [OF mv d(1) apart that])
  qed
  then have "at_phase (block_path bname bid) w' (phase_of a' u) (((thread_of s)(t := th')) u)" for u using at by (simp add: ph)
  moreover have "from \<le> i" if "object_of (phase_of a' u) = Some i" for u i
    using that obj(2) d(9) by (cases "u = t") (simp_all add: ph)
  moreover have "kernel_ok w'" "quiet w'" "from \<le> next_obj w'" using mv d(3) by (simp_all add: moves_def)
  ultimately show ?thesis using new obj(1) moves_apart [OF mv d(10,1,8)] unfolding represents_def by simp
qed

section \<open>The code makes the steps of the specification\<close>

lemma edit_header_frame [simp]:
  "kernel_ok (edit_header i f w) = kernel_ok w" "quiet (edit_header i f w) = quiet w" "fds (edit_header i f w) = fds w"
  "maps (edit_header i f w) = maps w" "names (edit_header i f w) = names w" "next_obj (edit_header i f w) = next_obj w"
  "next_fd (edit_header i f w) = next_fd w" "next_map (edit_header i f w) = next_map w"
  by (simp_all add: edit_header_def kernel_ok_def quiet_def)

lemma objs_edit: "objs (edit_header i f w) j = (if j = i then obj_header_update f (objs w i) else objs w j)"
  by (simp add: edit_header_def)

lemma views_removed_frame [simp]:
  "quiet (views_removed hdr mem w) = quiet w" "fds (views_removed hdr mem w) = fds w"
  "names (views_removed hdr mem w) = names w" "objs (views_removed hdr mem w) = objs w"
  "next_obj (views_removed hdr mem w) = next_obj w"
  "next_fd (views_removed hdr mem w) = next_fd w" "next_map (views_removed hdr mem w) = next_map w"
  by (simp_all add: views_removed_def quiet_def split: ptr.split)

lemma views_removed_maps: "Addr a \<notin> {hdr, mem} \<Longrightarrow> maps (views_removed hdr mem w) a = maps w a"
  by (cases hdr; cases mem) (auto simp: views_removed_def)

lemma kernel_ok_views_removed: "kernel_ok w \<Longrightarrow> kernel_ok (views_removed hdr mem w)"
  unfolding kernel_ok_iff by (auto simp: views_removed_def split: ptr.splits if_splits)

lemma kernel_ok_views_added:
  assumes "kernel_ok w" and "i < next_obj w"
  shows "kernel_ok (views_added i acc w)"
  using assms unfolding kernel_ok_iff by (fastforce simp: views_added_def less_Suc_eq split: if_splits)

lemma kernel_ok_new_fd:
  assumes "kernel_ok w" and "i < next_obj w"
  shows "kernel_ok (w\<lparr>faults := fs, fds := (fds w)(int (next_fd w) \<mapsto> i), next_fd := Suc (next_fd w)\<rparr>)"
proof -
  have "fd < int (Suc (next_fd w))" if "fds w fd = Some j" for fd j using kernel_okD(1) [OF assms(1) that] by simp
  then show ?thesis using assms unfolding kernel_ok_iff by (auto split: if_splits)
qed

lemma whole_handle_renumber:
  assumes "whole_handle w i b"
  shows "whole_handle w i (b\<lparr>access_id := k\<rparr>)"
proof -
  have "handle_ok w i b" using assms by (simp add: whole_handle_def)
  then have "handle_ok w i (b\<lparr>access_id := k\<rparr>)"
  proof (rule handle_okE)
  qed (simp add: handle_ok_def)
  then show ?thesis using assms by (simp add: whole_handle_def)
qed

lemma objects_shown_cong:
  assumes "objects_shown bname bid from w a" and "objs w' = objs w" and "next_obj w' = next_obj w"
    and "refs a' = refs a" and "ids a' = ids a" and "spoiled a' = spoiled a"
  shows "objects_shown bname bid from w' a'"
  using assms by (simp add: objects_shown_def header_shown_def)

lemma objects_shown_edit:
  assumes "objects_shown bname bid from w a" and "objs w' = objs (edit_header i f w)" and "next_obj w' = next_obj w"
    and "\<And>h. block_size (f h) = block_size h" "\<And>h. block_id (f h) = block_id h" "\<And>h. block_name (f h) = block_name h"
    and "\<And>h. header_shown a i h \<Longrightarrow> header_shown a' i (f h)"
    and "\<And>j. j \<noteq> i \<Longrightarrow> refs a' j = refs a j \<and> ids a' j = ids a j \<and> (j \<in> spoiled a' \<longleftrightarrow> j \<in> spoiled a)"
  shows "objects_shown bname bid from w' a'"
  unfolding objects_shown_def assms(2,3)
proof (intro allI impI)
  fix j assume "from \<le> j" "j < next_obj w"
  then have o: "block_obj bname bid (objs w j)" "header_shown a j (obj_header (objs w j))"
    using assms(1) by (simp_all add: objects_shown_def)
  then show "block_obj bname bid (objs (edit_header i f w) j) \<and> header_shown a' j (obj_header (objs (edit_header i f w) j))"
    using assms(4-8) by (cases "j = i") (simp_all add: objs_edit block_obj_def Let_def header_shown_def)
qed

lemma represents_same:
  assumes "represents bname bid from s a"
  shows "represents bname bid from (s\<lparr>kernel := kernel s, thread_of := (thread_of s)(t := thread_of s t)\<rparr>) a"
  using assms by simp

lemma shown_object:
  assumes "represents bname bid from s a" and "object_of (phase_of a t) = Some i"
  shows "attached (kernel s) i (thread_of s t)" "block_obj bname bid (objs (kernel s) i)" "header_shown a i (obj_header (objs (kernel s) i))"
    "from \<le> i" "i < next_obj (kernel s)"
proof -
  note d = representsD [OF assms(1)]
  show at: "attached (kernel s) i (thread_of s t)" using at_phase_object [OF d(8), of t] assms(2) by simp
  show i: "from \<le> i" "i < next_obj (kernel s)" using d(9) [OF assms(2)] attached_resources(1) [OF d(1) at] by simp_all
  show "block_obj bname bid (objs (kernel s) i)" "header_shown a i (obj_header (objs (kernel s) i))"
    using d(7) i by (simp_all add: objects_shown_def)
qed

text \<open>A thread on its way through opening, which keeps its descriptor and mappings and at most changes the header.\<close>

lemma represents_edit:
  assumes rep: "represents bname bid from s a" and o: "object_of (phase_of a t) = Some i"
    and th: "fds_of th' = fds_of (thread_of s t)" "ptrs_of th' = ptrs_of (thread_of s t)"
    and at: "at_phase (block_path bname bid) (edit_header i f (kernel s)) ph' th'" "object_of ph' = Some i"
    and f: "\<And>h. block_size (f h) = block_size h" "\<And>h. block_id (f h) = block_id h" "\<And>h. block_name (f h) = block_name h"
      "\<And>h. header_shown a i h \<Longrightarrow> header_shown a' i (f h)"
    and a': "\<And>j. j \<noteq> i \<Longrightarrow> refs a' j = refs a j \<and> ids a' j = ids a j \<and> (j \<in> spoiled a' \<longleftrightarrow> j \<in> spoiled a)"
      "phase_of a' = (phase_of a)(t := ph')" "next_object a' = next_object a" "current a' = current a"
  shows "represents bname bid from (s\<lparr>kernel := edit_header i f (kernel s), thread_of := (thread_of s)(t := th')\<rparr>) a'"
proof -
  note d = representsD [OF rep]
  have "moves (kernel s) (thread_of s t) (edit_header i f (kernel s)) th'"
    using d(1,2) th f(1) by (auto simp: moves_def objs_edit)
  then show ?thesis using objects_shown_edit [OF d(7) refl _ f a'(1)] d shown_object(4) [OF rep o] at(2)
    by (intro represents_moves [OF rep _ a'(2) at(1)]) (simp_all add: a')
qed

lemma edit_header_id [simp]: "edit_header i (\<lambda>h. h) w = w"
proof -
  have "obj_header_update (\<lambda>h. h) (objs w i) = objs w i" by (cases "objs w i") simp
  then show ?thesis unfolding edit_header_def by (simp only: fun_upd_triv) simp
qed

definition follows :: "'h ipm_context \<Rightarrow> string \<Rightarrow> ipm_id \<Rightarrow> nat \<Rightarrow> nat \<times> action \<Rightarrow> 'h race \<Rightarrow> block_state \<Rightarrow> bool" where
  "follows ctx bname bid from x s a \<longleftrightarrow>
     (case spec_act x a of
        Some a' \<Rightarrow> \<exists>s'. act ctx bname bid x s = Ret s' \<and> represents bname bid from s' a'
      | None \<Rightarrow> act ctx bname bid x s = Blocked)"

lemma follows_waiting:
  assumes rep: "represents bname bid from s a" and ph: "phase_of a t = Waiting_at i"
  shows "follows ctx bname bid from (t, Go_on) s a"
proof -
  have o: "object_of (phase_of a t) = Some i" using ph by simp
  note d = shown_object [OF rep o]
  obtain b where b: "thread_of s t = Mapped b" "whole_handle (kernel s) i b" using representsD(8) [OF rep, of t] ph by auto
  have h: "refcount (obj_header (objs (kernel s) i)) = refs a i" using d(3) by (simp add: header_shown_def)
  note run = open_pieces(1) [OF b(2) d(2), unfolded h]
  show ?thesis
  proof (cases "refs a i = 0")
    case True
    then show ?thesis using rep represents_same [OF rep, of t] b ph run by (simp add: follows_def place_def)
  next
    case False
    have "represents bname bid from (s\<lparr>kernel := edit_header i (\<lambda>h. h) (kernel s), thread_of := (thread_of s)(t := Awake b)\<rparr>)
        (a\<lparr>phase_of := (phase_of a)(t := Awake_at i)\<rparr>)"
      by (rule represents_edit [OF rep o]) (use b in \<open>simp_all add: fds_of_def ptrs_of_def header_shown_def\<close>)
    then show ?thesis using False b ph run by (simp add: follows_def place_def)
  qed
qed

lemma follows_opening:
  assumes rep: "represents bname bid from s a" and ph: "phase_of a t \<in> {Awake_at i, Matched_at i, Counted_at i}"
  shows "follows ctx bname bid from (t, Go_on) s a"
proof -
  have o: "object_of (phase_of a t) = Some i" using ph by auto
  note d = shown_object [OF rep o] and edit = represents_edit [OF rep o]
  have h: "id_counter (obj_header (objs (kernel s) i)) = ids a i" using d(3) by (simp add: header_shown_def)
  consider b where "phase_of a t = Awake_at i" "thread_of s t = Awake b" | b where "phase_of a t = Matched_at i" "thread_of s t = Matched b"
    | b where "phase_of a t = Counted_at i" "thread_of s t = Counted b"
    using ph representsD(8) [OF rep, of t] by auto
  then show ?thesis
  proof cases
    case (1 b)
    then have b: "whole_handle (kernel s) i b" using d(1) by simp
    have "represents bname bid from (s\<lparr>kernel := edit_header i (\<lambda>h. h) (kernel s), thread_of := (thread_of s)(t := Matched b)\<rparr>)
        (a\<lparr>phase_of := (phase_of a)(t := Matched_at i)\<rparr>)"
      by (rule edit) (use b 1 in \<open>simp_all add: fds_of_def ptrs_of_def header_shown_def\<close>)
    then show ?thesis using 1 open_pieces(2) [OF b d(2)] by (simp add: follows_def place_def)
  next
    case (2 b)
    then have b: "whole_handle (kernel s) i b" using d(1) by simp
    let ?f = "\<lambda>h. h\<lparr>refcount := refcount h + 1\<rparr>"
    have "whole_handle (edit_header i ?f (kernel s)) i b" using b by (rule whole_handle_frame) (simp_all add: objs_edit)
    then have "represents bname bid from (s\<lparr>kernel := edit_header i ?f (kernel s), thread_of := (thread_of s)(t := Counted b)\<rparr>)
        (go_on t (Matched_at i) a)"
      by (intro edit [where ph' = "Counted_at i"]) (use 2 in \<open>simp_all add: fds_of_def ptrs_of_def header_shown_def\<close>)
    then show ?thesis using 2 open_pieces(3) [OF b d(2)] by (simp add: follows_def place_def)
  next
    case (3 b)
    then have b: "whole_handle (kernel s) i b" using d(1) by simp
    let ?f = "\<lambda>h. h\<lparr>id_counter := id_counter h + 1\<rparr>" and ?b = "b\<lparr>access_id := ids a i\<rparr>"
    have "whole_handle (edit_header i ?f (kernel s)) i ?b"
      using whole_handle_renumber [OF b] by (rule whole_handle_frame) (simp_all add: objs_edit)
    then have "represents bname bid from (s\<lparr>kernel := edit_header i ?f (kernel s), thread_of := (thread_of s)(t := Holding ?b)\<rparr>)
        (go_on t (Counted_at i) a)"
      by (intro edit [where ph' = "Holding_at i (ids a i)"]) (use 3 in \<open>simp_all add: fds_of_def ptrs_of_def header_shown_def\<close>)
    then show ?thesis using 3 h open_pieces(4) [OF b d(2)] by (simp add: follows_def place_def)
  qed
qed

lemma follows_opened:
  assumes rep: "represents bname bid from s a" and ph: "phase_of a t = Opened_at i"
  shows "follows ctx bname bid from (t, Go_on) s a"
proof -
  have o: "object_of (phase_of a t) = Some i" using ph by simp
  note d = representsD [OF rep] and obj = shown_object [OF rep o]
  let ?w = "kernel s"
  obtain acc fd where th: "thread_of s t = Opened acc fd" "fds ?w fd = Some i" using d(8) [of t] ph by auto
  let ?b = "new_block 0 (block_size (obj_header (objs ?w i))) acc fd (Addr (next_map ?w)) (Addr (Suc (next_map ?w)))"
  have q: "quiet (views_added i acc ?w)" using quiet_tl [OF quiet_tl [OF d(2)]] by (simp add: quiet_def views_added_def)
  have mv: "moves ?w (thread_of s t) (views_added i acc ?w) (Mapped ?b)"
    using kernel_ok_views_added [OF d(1) obj(5), of acc] q
    by (auto simp: moves_def th(1) views_added_def fds_of_def ptrs_of_def new_block_def)
  have at: "at_phase (block_path bname bid) (views_added i acc ?w) (Waiting_at i) (Mapped ?b)"
    using th(2) by (simp add: whole_handle_def handle_ok_def new_block_def views_added_def)
  have shown: "objects_shown bname bid from (views_added i acc ?w) (go_on t (Opened_at i) a)"
    using d(7) by (rule objects_shown_cong) (simp_all add: views_added_def)
  have "represents bname bid from (s\<lparr>kernel := views_added i acc ?w, thread_of := (thread_of s)(t := Mapped ?b)\<rparr>) (go_on t (Opened_at i) a)"
    by (rule represents_moves [OF rep mv _ at _ _ _ shown]) (use d obj(4) in \<open>simp_all add: views_added_def\<close>)
  then show ?thesis using open_map_attached [OF d(2) th(2) obj(2)] ph th(1) by (simp add: follows_def place_def)
qed

lemma follows_closing:
  assumes rep: "represents bname bid from s a"
  shows "follows ctx bname bid from (t, Close_block) s a"
proof (cases "\<exists>i k. phase_of a t = Holding_at i k")
  case True
  then obtain i k where ph: "phase_of a t = Holding_at i k" by blast
  then have o: "object_of (phase_of a t) = Some i" by simp
  note d = representsD [OF rep] and obj = shown_object [OF rep o]
  let ?w = "kernel s"
  obtain b where b: "thread_of s t = Holding b" "whole_handle ?w i b" using d(8) [of t] ph by auto
  let ?f = "\<lambda>h :: ipm_shared_memory_header. h\<lparr>refcount := refcount h - 1\<rparr>"
  let ?w1 = "?w\<lparr>fds := (fds ?w)(mem_fd b := None)\<rparr>" and ?th = "Uncounted (header b) (memory b) (refs a i)"
  let ?a = "a\<lparr>refs := (refs a)(i := refs a i - 1), phase_of := (phase_of a)(t := Leaving i (refs a i))\<rparr>"
  have "kernel_ok ?w1" "quiet ?w1" using d(1,2) unfolding kernel_ok_iff quiet_def by (auto split: if_splits)
  then have mv: "moves ?w (thread_of s t) (edit_header i ?f ?w1) ?th"
    by (auto simp: moves_def b(1) fds_of_def ptrs_of_def objs_edit)
  have "both_mapped (edit_header i ?f ?w1) i (header b) (memory b)"
    using whole_handle_mapped [OF b(2)] by (rule both_mapped_frame) (simp_all add: objs_edit)
  then have at: "at_phase (block_path bname bid) (edit_header i ?f ?w1) (Leaving i (refs a i)) ?th" by simp
  have shown: "objects_shown bname bid from (edit_header i ?f ?w1) ?a"
    by (rule objects_shown_edit [OF d(7), where i = i and f = ?f]) (auto simp: objs_edit header_shown_def fun_eq_iff)
  have "represents bname bid from (s\<lparr>kernel := edit_header i ?f ?w1, thread_of := (thread_of s)(t := ?th)\<rparr>) ?a"
    by (rule represents_moves [OF rep mv _ at _ _ _ shown]) (use d obj(4) in simp_all)
  then show ?thesis using close_begin_attached [OF b(2) obj(2)] obj(3) ph b(1)
    by (simp add: follows_def place_def header_shown_def)
next
  case False
  then have "\<not> (\<exists>b. thread_of s t = Holding b)" using representsD(8) [OF rep, of t] by (cases "phase_of a t") auto
  then show ?thesis using False by (cases "phase_of a t"; cases "thread_of s t") (auto simp: follows_def)
qed

lemma follows_leaving:
  assumes rep: "represents bname bid from s a" and nm: "good_name bname" and ph: "phase_of a t = Leaving i r"
  shows "follows ctx bname bid from (t, Go_on) s a"
proof -
  have o: "object_of (phase_of a t) = Some i" using ph by simp
  note d = representsD [OF rep] and obj = shown_object [OF rep o]
  let ?w = "kernel s" and ?a = "go_on t (Leaving i r) a"
  let ?f = "if r = 1 then (\<lambda>h. h\<lparr>segment_mutex := snd (ipm_mutex_destroy (segment_mutex h) ?w)\<rparr>) else (\<lambda>h. h)"
  let ?th = "if r = 1 then Unlinking (block_path bname bid) bid else Returned IPM_RESULT_SUCCESS"
  obtain hdr mem where th: "thread_of s t = Uncounted hdr mem r" "both_mapped ?w i hdr mem" using d(8) [of t] ph by auto
  let ?w' = "views_removed hdr mem (edit_header i ?f ?w)"
  have run: "act ctx bname bid (t, Go_on) s = Ret (s\<lparr>kernel := ?w', thread_of := (thread_of s)(t := ?th)\<rparr>)"
    using close_leave_attached [OF th(2) obj(2) nm, of r] th(1) by (simp add: place_def)
  have mv: "moves ?w (thread_of s t) ?w' ?th"
    using d(1,2) by (auto simp: moves_def th(1) fds_of_def ptrs_of_def objs_edit kernel_ok_views_removed views_removed_maps)
  have mutex: "snd (ipm_mutex_destroy m ?w) = Mut_raw" if "m = Mut_raw \<or> m = Mut shared_robust Unlocked" for m
    using that by (auto simp: snd_mutex_calls)
  have shown: "objects_shown bname bid from ?w' ?a"
    by (rule objects_shown_edit [OF d(7), where i = i and f = ?f]) (auto simp: header_shown_def mutex)
  have "represents bname bid from (s\<lparr>kernel := ?w', thread_of := (thread_of s)(t := ?th)\<rparr>) ?a"
    by (rule represents_moves [OF rep mv, where ph' = "if r = 1 then Removing else Away"])
      (use d shown in \<open>simp_all split: if_splits\<close>)
  then show ?thesis using run ph by (simp add: follows_def)
qed

text \<open>A step that touches no object and at most takes the name away.\<close>

lemma represents_outside:
  assumes rep: "represents bname bid from s a" and th: "detached_thread th'"
    and w': "kernel_ok w'" "quiet w'" "next_obj w' = next_obj (kernel s)" "objs w' = objs (kernel s)"
      "fds w' = fds (kernel s)" "maps w' = maps (kernel s)"
    and at: "at_phase (block_path bname bid) w' ph' th'" "object_of ph' = None"
    and nm: "current a' = names w' (block_path bname bid)" "current a' = None \<or> current a' = current a"
    and a': "refs a' = refs a" "ids a' = ids a" "spoiled a' = spoiled a" "next_object a' = next_object a"
      "phase_of a' = (phase_of a)(t := ph')"
  shows "represents bname bid from (s\<lparr>kernel := w', thread_of := (thread_of s)(t := th')\<rparr>) a'"
proof -
  note d = representsD [OF rep]
  have "moves (kernel s) (thread_of s t) w' th'" using w' th by (simp add: moves_def)
  moreover have "objects_shown bname bid from w' a'" using d(7) by (rule objects_shown_cong) (simp_all add: w' a')
  moreover have "from \<le> i" if "current a' = Some i" for i using nm(2) that d(6) by auto
  ultimately show ?thesis using d(4) at nm by (intro represents_moves [OF rep _ a'(5)]) (simp_all add: w' a')
qed

lemma follows_removing:
  assumes rep: "represents bname bid from s a" and ph: "phase_of a t = Removing"
  shows "follows ctx bname bid from (t, Go_on) s a"
proof -
  note d = representsD [OF rep]
  let ?w = "kernel s"
  obtain k where th: "thread_of s t = Unlinking (block_path bname bid) k" using d(8) [of t] ph by auto
  obtain r e h where u: "close_unlink ctx (block_path bname bid) k ?w = Ret (Returned r,
      ?w\<lparr>faults := tl (faults ?w), names := (names ?w)(block_path bname bid := None), errno := e, host := h\<rparr>)" (is "_ = Ret (_, ?w')")
    using close_unlink_quiet [OF d(2)] by blast
  have q: "quiet ?w'" "kernel_ok ?w'" using quiet_tl [OF d(2)] d(1) unfolding kernel_ok_iff quiet_def by (auto split: if_splits)
  have "represents bname bid from (s\<lparr>kernel := ?w', thread_of := (thread_of s)(t := Returned r)\<rparr>) (go_on t Removing a)"
    by (rule represents_outside [OF rep, where ph' = Away]) (use q in simp_all)
  then show ?thesis using u ph th by (simp add: follows_def place_def)
qed

lemma follows_go_on:
  assumes rep: "represents bname bid from s a" and nm: "good_name bname"
  shows "follows ctx bname bid from (t, Go_on) s a"
proof -
  have rest: "follows ctx bname bid from (t, Go_on) s a" if "idle (thread_of s t) \<or> (\<exists>b. thread_of s t = Holding b)" "go_on t (phase_of a t) a = a"
    using that represents_same [OF rep, of t] rep by (cases "thread_of s t") (simp_all add: follows_def place_def)
  show ?thesis
  proof (cases "phase_of a t")
    case (Opened_at i)
    then show ?thesis by (rule follows_opened [OF rep])
  next
    case (Waiting_at i)
    then show ?thesis by (rule follows_waiting [OF rep])
  next
    case (Leaving i r)
    then show ?thesis by (rule follows_leaving [OF rep nm])
  next
    case Removing
    then show ?thesis by (rule follows_removing [OF rep])
  qed (use rest representsD(8) [OF rep, of t] follows_opening [OF rep] in auto)
qed

lemma away_idle:
  assumes "represents bname bid from s a"
  shows "phase_of a t = Away \<longleftrightarrow> idle (thread_of s t)"
  using representsD(8) [OF assms, of t] by (cases "phase_of a t"; cases "thread_of s t") auto

lemma follows_open:
  assumes rep: "represents bname bid from s a" and nm: "good_name bname"
  shows "follows ctx bname bid from (t, Open_block acc) s a"
proof (cases "phase_of a t = Away")
  case True
  note d = representsD [OF rep]
  let ?w = "kernel s"
  have len: "length bname \<le> IPM_MAX_NAME_LEN" using nm by (simp add: good_name_def)
  have th: "idle (thread_of s t)" "detached_thread (thread_of s t)" using d(8) [of t] True by (cases "thread_of s t"; simp)+
  show ?thesis
  proof (cases "current a")
    case None
    then obtain r e h where o: "open_begin ctx bname bid acc ?w = Ret (Returned r, ?w\<lparr>faults := tl (faults ?w), errno := e, host := h\<rparr>)"
      (is "_ = Ret (_, ?w')")
      using open_begin_absent [OF d(2) len, of bid ctx acc] d(5) by auto
    have "quiet ?w'" "kernel_ok ?w'" using quiet_tl [OF d(2)] d(1) by (simp_all add: quiet_def kernel_ok_def)
    then have "represents bname bid from (s\<lparr>kernel := ?w', thread_of := (thread_of s)(t := Returned r)\<rparr>) a"
      by (intro represents_outside [OF rep, where ph' = Away]) (use d(5) True in \<open>simp_all add: fun_upd_idem\<close>)
    then show ?thesis using o True None th(1) by (simp add: follows_def place_def)
  next
    case (Some i)
    let ?w' = "?w\<lparr>faults := tl (faults ?w), fds := (fds ?w)(int (next_fd ?w) \<mapsto> i), next_fd := Suc (next_fd ?w)\<rparr>"
    let ?a = "a\<lparr>phase_of := (phase_of a)(t := Opened_at i)\<rparr>" and ?th = "Opened acc (int (next_fd ?w))"
    have nb: "names ?w (block_path bname bid) = Some i" using d(5) Some by simp
    have i: "from \<le> i" "i < next_obj ?w" using d(6) [OF Some] kernel_okD(3) [OF d(1) nb] by simp_all
    have q: "quiet ?w'" using quiet_tl [OF d(2)] by (simp add: quiet_def)
    then have mv: "moves ?w (thread_of s t) ?w' ?th"
      using kernel_ok_new_fd [OF d(1) i(2)] th(2) by (simp add: moves_def fds_of_def ptrs_of_def)
    have shown: "objects_shown bname bid from ?w' ?a" using d(7) by (rule objects_shown_cong) simp_all
    have "represents bname bid from (s\<lparr>kernel := ?w', thread_of := (thread_of s)(t := ?th)\<rparr>) ?a"
      by (rule represents_moves [OF rep mv, where ph' = "Opened_at i"]) (use d i shown in simp_all)
    then show ?thesis using open_begin_present [OF d(2) len nb] True Some th(1) by (simp add: follows_def place_def)
  qed
next
  case False
  then show ?thesis using away_idle [OF rep, of t] by (simp add: follows_def)
qed

lemma create_exists_follows:
  assumes rep: "represents bname bid from s a" and nm: "good_name bname" and sz: "proper_action (Create_block sz acc)"
    and ph: "phase_of a t = Away" and th: "idle (thread_of s t)" and cur: "current a = Some i"
  shows "follows ctx bname bid from (t, Create_block sz acc) s a"
proof -
  note d = representsD [OF rep]
  let ?w' = "(kernel s)\<lparr>faults := tl (faults (kernel s)), errno := EEXIST\<rparr>"
  have "quiet ?w'" "kernel_ok ?w'" using quiet_tl [OF d(2)] d(1) by (simp_all add: quiet_def kernel_ok_def)
  then have "represents bname bid from (s\<lparr>kernel := ?w', thread_of := (thread_of s)(t := Returned IPM_RESULT_ERR_EXISTS)\<rparr>) a"
    by (intro represents_outside [OF rep, where ph' = Away]) (use d(5) ph in \<open>simp_all add: fun_upd_idem\<close>)
  moreover have "shared_memory_block_create ctx bname bid sz acc poisoned (kernel s) = Ret (IPM_RESULT_ERR_EXISTS, poisoned, ?w')"
    using d(5) cur nm sz by (intro block_create_exists [OF d(2), where i = i]) (simp_all add: good_name_def)
  ultimately show ?thesis using ph cur th by (simp add: follows_def place_def returned_def)
qed

lemma create_new_follows:
  assumes rep: "represents bname bid from s a" and nm: "good_name bname" and sz: "proper_action (Create_block sz acc)"
    and ph: "phase_of a t = Away" and th: "idle (thread_of s t)" and cur: "current a = None"
  shows "follows ctx bname bid from (t, Create_block sz acc) s a"
proof -
  note d = representsD [OF rep]
  let ?w = "kernel s"
  let ?i = "next_obj ?w"
  let ?b = "new_block 1 sz acc (int (next_fd ?w)) (Addr (Suc (next_map ?w))) (Addr (next_map ?w))"
  have nb: "names ?w (block_path bname bid) = None" using d(5) cur by simp
  have sz': "0 < sz" "unat sz mod 4096 = 0" "unat sz + 4096 < 2 ^ 63" using sz by simp_all
  have th': "detached_thread (thread_of s t)" using th by (cases "thread_of s t") simp_all
  obtain fs where fs: "set fs \<subseteq> set (faults ?w)" and c: "shared_memory_block_create ctx bname bid sz acc poisoned ?w =
      Ret (IPM_RESULT_SUCCESS, ?b, (created bname bid sz acc ?w)\<lparr>faults := fs\<rparr>)" (is "_ = Ret (_, _, ?w')")
    using block_create_cases [OF d(1) quiet_one_fault [OF d(2)] nm sz' nb, of ctx acc poisoned] d(2) nth_mem [of 3 "faults ?w"]
    unfolding quiet_def by blast
  have "quiet ?w'" "kernel_ok ?w'" using d(2) fs kernel_ok_created [OF d(1)] by (auto simp: quiet_def created_def)
  then have mv: "moves ?w (thread_of s t) ?w' (Holding ?b)"
    using th' by (auto simp: moves_def created_def fds_of_def ptrs_of_def new_block_def)
  have hd: "obj_header (new_obj bname bid sz) = new_header bname bid sz zero_header"
    by (simp add: new_obj_def resize_obj_def empty_obj_def)
  have at: "at_phase (block_path bname bid) ?w' (Holding_at ?i 1) (Holding ?b)"
    by (simp add: whole_handle_def handle_ok_def new_block_def created_def hd new_header_def)
  obtain a' where a': "spec_act (t, Create_block sz acc) a = Some a'" using ph cur by simp
  have shown: "objects_shown bname bid from ?w' a'"
    using d(7) block_obj_new [OF nm sz'(1), of bid] d(4) a' ph cur
    by (auto simp: objects_shown_def header_shown_def created_def hd new_header_def less_Suc_eq)
  have "represents bname bid from (s\<lparr>kernel := ?w', thread_of := (thread_of s)(t := Holding ?b)\<rparr>) a'"
    by (rule represents_moves [OF rep mv _ at]) (use d a' ph cur shown in \<open>auto simp: created_def\<close>)
  then show ?thesis using c a' th by (simp add: follows_def place_def returned_def)
qed

lemma follows_create:
  assumes rep: "represents bname bid from s a" and nm: "good_name bname" and sz: "proper_action (Create_block sz acc)"
  shows "follows ctx bname bid from (t, Create_block sz acc) s a"
proof (cases "phase_of a t = Away")
  case True
  then show ?thesis using create_exists_follows [OF assms True] create_new_follows [OF assms True] away_idle [OF rep, of t]
    by (cases "current a") simp_all
next
  case False
  then show ?thesis using away_idle [OF rep, of t] by (simp add: follows_def)
qed

lemma follows_every:
  assumes "represents bname bid from s a" and "good_name bname" and "proper_action (snd x)"
  shows "follows ctx bname bid from x s a"
proof -
  obtain t y where x: "x = (t, y)" by force
  show ?thesis unfolding x
    using follows_create [OF assms(1,2)] follows_open [OF assms(1,2)] follows_closing [OF assms(1)] follows_go_on [OF assms(1,2)]
      assms(3) x by (cases y) auto
qed

end
