(* ===== verification/Block_Race_Runs.thy ===== *)
theory Block_Race_Runs
  imports Block_Races
begin

text \<open>
  All runs of the threads of \<^verbatim>\<open>Block_Races\<close>: what holds in every interleaving, what a handle that stays protects, and what
  goes wrong between the last closing and an opening.
\<close>

section \<open>All schedules\<close>

locale named_block =
  fixes ctx :: "'h ipm_context" and bname :: string and bid :: ipm_id and lo :: nat
  assumes name_ok: "good_name bname"

sublocale named_block \<subseteq> races: block_machine "act ctx bname bid" "represents bname bid lo" proper_action
proof
  fix s :: "'h race" and a a' and x :: "nat \<times> action"
  assume r: "represents bname bid lo s a" and p: "proper_action (snd x)"
  note f = follows_every [OF r name_ok p, of ctx, unfolded follows_def]
  show "\<exists>s'. act ctx bname bid x s = Ret s' \<and> represents bname bid lo s' a'" if "spec_act x a = Some a'"
    using f that by simp
  show "act ctx bname bid x s = Blocked" if "spec_act x a = None" using f that by simp
qed

text \<open>Nobody has the block open, and it does not exist.\<close>

definition unshared :: "string \<Rightarrow> ipm_id \<Rightarrow> 'h race \<Rightarrow> bool" where
  "unshared bname bid s \<longleftrightarrow>
     kernel_ok (kernel s) \<and> quiet (kernel s) \<and> names (kernel s) (block_path bname bid) = None \<and> (\<forall>t. thread_of s t = Outside)"

lemma unshared_represents:
  "unshared bname bid s \<Longrightarrow> represents bname bid (next_obj (kernel s)) s (no_block (next_obj (kernel s)))"
  by (simp add: unshared_def represents_def no_block_def objects_shown_def threads_apart_def fds_of_def ptrs_of_def)

context named_block
begin

text \<open>A run of the code and the run of the specification it shows.\<close>

lemma races_end:
  assumes "unshared bname bid s0" and "\<forall>x \<in> set xs. proper_action (snd x)" and "length xs < 2 ^ 64 - 2"
    and "schedule (act ctx bname bid) xs s0 = Ret s" and "lo = next_obj (kernel s0)"
  obtains a where "represents bname bid lo s a" "spec_inv (length xs) a" "spec_acts xs (no_block lo) = Some a"
proof -
  have "represents bname bid lo s0 (no_block lo)" using unshared_represents [OF assms(1)] assms(5) by simp
  then obtain a where a: "spec_acts xs (no_block lo) = Some a" "represents bname bid lo s a"
    by (rule races.schedule_end [OF _ assms(2,4)])
  then have "spec_inv (length xs) a" using spec_inv_acts [OF a(1) spec_inv_start] assms(3) by simp
  with a show thesis using that by blast
qed

lemma races_continue:
  assumes "represents bname bid lo s a" and "\<forall>x \<in> set ys. proper_action (snd x)" and "schedule (act ctx bname bid) ys s = Ret s'"
  obtains a' where "spec_acts ys a = Some a'" "represents bname bid lo s' a'"
  using assms by (rule races.schedule_end)

lemma races_reach:
  assumes "represents bname bid lo s a" and "\<forall>x \<in> set ys. proper_action (snd x)" and "spec_acts ys a = Some a'"
  obtains s' where "schedule (act ctx bname bid) ys s = Ret s'" "represents bname bid lo s' a'"
  using assms by (rule races.schedule_reaches)

end

interpretation cool_races: named_block test_ctx cool_block 1 0
  by unfold_locales (rule cool_block_ok(1))

text \<open>What a represented thread is.\<close>

lemma phase_holding:
  assumes "represents bname bid from s a" and "thread_of s t = Holding b"
  obtains i where "phase_of a t = Holding_at i (access_id b)" "whole_handle (kernel s) i b" "from \<le> i"
proof -
  note d = representsD [OF assms(1)]
  show thesis using d(8) [of t] d(9) [of t] assms(2) that by (cases "phase_of a t") auto
qed

lemma phase_mapped:
  assumes "represents bname bid from s a" and "thread_of s t = Mapped b"
  obtains i where "phase_of a t = Waiting_at i" "whole_handle (kernel s) i b"
  using representsD(8) [OF assms(1), of t] assms(2) that by (cases "phase_of a t") auto

fun has_reference :: "thread \<Rightarrow> bool" where
  "has_reference (Counted b) = True"
| "has_reference (Holding b) = True"
| "has_reference th = False"

lemma phase_reference:
  assumes "represents bname bid from s a"
  shows "reference_of (phase_of a t) = Some i \<longleftrightarrow> has_reference (thread_of s t) \<and> attached (kernel s) i (thread_of s t)"
  using representsD(8) [OF assms, of t] attached_unique [of "kernel s" _ "thread_of s t" i]
  by (cases "phase_of a t"; cases "thread_of s t") (auto simp del: attached.simps)

lemma refcount_exact:
  assumes rep: "represents bname bid from s a" and inv: "spec_inv n a" and "n < 2 ^ 32" and i: "from \<le> i" "i < next_obj (kernel s)"
  shows "unat (refcount (obj_header (objs (kernel s) i))) =
    card {t. has_reference (thread_of s t) \<and> attached (kernel s) i (thread_of s t)}"
proof -
  have "unat (refcount (obj_header (objs (kernel s) i))) = unat (refs a i)"
    using representsD(7) [OF rep] i by (simp add: objects_shown_def header_shown_def)
  also have "\<dots> = card (referents a i)" using refs_exact [OF inv assms(3)] i(2) representsD(4) [OF rep] by simp
  finally show ?thesis by (simp only: referents_def phase_reference [OF rep])
qed

text \<open>A thread that does nothing stays where it is.\<close>

lemma act_other: "act ctx bname bid (t, x) s = Ret s' \<Longrightarrow> u \<noteq> t \<Longrightarrow> thread_of s' u = thread_of s u"
  by (cases x) (auto simp: place_def bind_outcome_Ret_iff split: thread.splits if_splits)

lemma schedule_other:
  "schedule (act ctx bname bid) xs s = Ret s' \<Longrightarrow> u \<notin> fst ` set xs \<Longrightarrow> thread_of s' u = thread_of s u"
proof (induction xs arbitrary: s)
  case (Cons x xs)
  then obtain s1 where "act ctx bname bid x s = Ret s1" "schedule (act ctx bname bid) xs s1 = Ret s'"
    by (auto simp: bind_outcome_Ret_iff)
  then show ?case using Cons act_other [of ctx bname bid "fst x" "snd x" s s1 u] by simp
qed simp

text \<open>A thread that opens the block of the name without interruption, while somebody holds it.\<close>

definition whole_open :: "nat \<Rightarrow> ipm_access_mode \<Rightarrow> (nat \<times> action) list" where
  "whole_open t acc = (t, Open_block acc) # replicate 5 (t, Go_on)"

lemma spec_whole_open:
  assumes "phase_of a t = Away" and "current a = Some i" and "refs a i \<noteq> 0"
  shows "\<exists>a'. spec_acts (whole_open t acc) a = Some a' \<and> phase_of a' t = Holding_at i (ids a i)"
  using assms by (simp add: whole_open_def numeral_eq_Suc)

text \<open>All threads work on the object that has the name, and no thread is about to remove it.\<close>

definition undisturbed :: "string \<Rightarrow> ipm_id \<Rightarrow> nat \<Rightarrow> 'h race \<Rightarrow> bool" where
  "undisturbed bname bid i s \<longleftrightarrow>
     names (kernel s) (block_path bname bid) = Some i \<and>
     (\<forall>t j. attached (kernel s) j (thread_of s t) \<longrightarrow> j = i) \<and>
     (\<forall>t nm k hdr mem. thread_of s t \<noteq> Unlinking nm k \<and> thread_of s t \<noteq> Uncounted hdr mem 1)"

lemma undisturbed_guarded:
  assumes rep: "represents bname bid from s a" and u: "undisturbed bname bid i s" and k: "thread_of s k = Holding b"
  shows "guarded k i a"
proof -
  have "phase_of a t \<noteq> Removing \<and> (\<forall>j. phase_of a t \<noteq> Leaving j 1) \<and> (\<forall>j. object_of (phase_of a t) = Some j \<longrightarrow> j = i)" for t
  proof (intro conjI allI impI)
    note at = representsD(8) [OF rep, of t]
    show "phase_of a t \<noteq> Removing" using at u by (auto simp: undisturbed_def)
    show "phase_of a t \<noteq> Leaving j 1" for j using at u by (auto simp: undisturbed_def)
    show "j = i" if "object_of (phase_of a t) = Some j" for j using at_phase_object [OF at] that u by (auto simp: undisturbed_def)
  qed
  moreover obtain j where "phase_of a k = Holding_at j (access_id b)" "whole_handle (kernel s) j b"
    by (rule phase_holding [OF rep k])
  moreover have "attached (kernel s) j (thread_of s k) \<Longrightarrow> j = i" for j using u unfolding undisturbed_def by blast
  ultimately show ?thesis using representsD(5) [OF rep] u k by (simp add: guarded_def undisturbed_def)
qed

lemma attached_object:
  assumes "represents bname bid from s a" and "attached (kernel s) j (thread_of s t)"
  shows "object_of (phase_of a t) = Some j"
proof (cases "object_of (phase_of a t)")
  case None
  then show ?thesis using at_phase_object [OF representsD(8) [OF assms(1)], of t] assms(2) by simp
next
  case (Some i)
  then have "attached (kernel s) i (thread_of s t)" using at_phase_object [OF representsD(8) [OF assms(1)], of t] by simp
  then show ?thesis using attached_unique [OF _ assms(2)] Some by blast
qed

lemma guarded_undisturbed:
  assumes rep: "represents bname bid from s a" and g: "guarded k i a"
  shows "undisturbed bname bid i s"
proof -
  have "thread_of s t \<noteq> Unlinking nm l \<and> thread_of s t \<noteq> Uncounted hdr mem 1" for t nm l hdr mem
    using representsD(8) [OF rep, of t] g by (cases "phase_of a t") (auto simp: guarded_def)
  moreover have "j = i" if "attached (kernel s) j (thread_of s t)" for t j
    using attached_object [OF rep that] g by (simp add: guarded_def)
  ultimately show ?thesis using g representsD(5) [OF rep] by (simp add: undisturbed_def guarded_def)
qed

lemma guarded_refs:
  assumes "spec_inv n a" and "n < 2 ^ 32" and "guarded k i a"
  shows "refs a i \<noteq> 0"
proof
  assume "refs a i = 0"
  moreover have "i < next_object a" using assms(1,3) by (simp add: spec_inv_def guarded_def)
  ultimately have "card (referents a i) = 0" using refs_exact [OF assms(1,2)] by (metis unsigned_0)
  moreover have "finite (referents a i)" using assms(1) by (simp add: finite_referents spec_inv_def)
  moreover have "k \<in> referents a i" using assms(3) by (simp add: referents_def guarded_def)
  ultimately show False by (metis card_0_eq empty_iff)
qed

text \<open>What a guarded system does for its threads.\<close>

lemma guarded_services:
  assumes rep: "represents bname bid from s a" and nm: "good_name bname" and g: "guarded k i a" and r: "refs a i \<noteq> 0"
  shows "thread_of s t = Mapped c \<Longrightarrow> \<exists>s'. act ctx bname bid (t, Go_on) s = Ret s' \<and> thread_of s' t = Awake c"
    and "idle (thread_of s t) \<Longrightarrow> proper_action (Create_block sz acc) \<Longrightarrow>
      \<exists>s'. act ctx bname bid (t, Create_block sz acc) s = Ret s' \<and> thread_of s' t = Returned IPM_RESULT_ERR_EXISTS"
    and "idle (thread_of s t) \<Longrightarrow> \<exists>s' c. schedule (act ctx bname bid) (whole_open t acc) s = Ret s' \<and>
      thread_of s' t = Holding c \<and> handle_ok (kernel s') i c"
proof -
  note d = representsD [OF rep]
  have len: "length bname \<le> IPM_MAX_NAME_LEN" using nm by (simp add: good_name_def)
  have cur: "current a = Some i" using g by (simp add: guarded_def)
  show "\<exists>s'. act ctx bname bid (t, Go_on) s = Ret s' \<and> thread_of s' t = Awake c" if th: "thread_of s t = Mapped c"
  proof -
    obtain j where j: "phase_of a t = Waiting_at j" "whole_handle (kernel s) j c" by (rule phase_mapped [OF rep th])
    then have "object_of (phase_of a t) = Some j" by simp
    moreover from this g have "j = i" unfolding guarded_def by blast
    ultimately have "open_poll c (kernel s) = Ret (Awake c, kernel s)"
      using open_pieces(1) [OF j(2), of bname bid] shown_object(2,3) [OF rep, of t j] r by (simp add: header_shown_def)
    then show ?thesis using th by (simp add: place_def)
  qed
  show "\<exists>s'. act ctx bname bid (t, Create_block sz acc) s = Ret s' \<and> thread_of s' t = Returned IPM_RESULT_ERR_EXISTS"
    if "idle (thread_of s t)" "proper_action (Create_block sz acc)"
    using that block_create_exists [OF d(2) len, of sz bid i ctx acc poisoned] d(5) cur by (simp add: place_def returned_def)
  show "\<exists>s' c. schedule (act ctx bname bid) (whole_open t acc) s = Ret s' \<and> thread_of s' t = Holding c \<and> handle_ok (kernel s') i c"
    if idle: "idle (thread_of s t)"
  proof -
    have "phase_of a t = Away" using d(8) [of t] idle by (cases "phase_of a t") auto
    then obtain a' where a': "spec_acts (whole_open t acc) a = Some a'" "phase_of a' t = Holding_at i (ids a i)"
      using spec_whole_open [OF _ cur r] by blast
    have "\<forall>x \<in> set (whole_open t acc). proper_action (snd x)" by (auto simp: whole_open_def)
    then obtain s' where s': "schedule (act ctx bname bid) (whole_open t acc) s = Ret s'" "represents bname bid from s' a'"
      by (rule named_block.races_reach [OF named_block.intro [OF nm] rep _ a'(1)])
    then show ?thesis using representsD(8) [OF s'(2), of t] a'(2) by (auto simp: whole_handle_def)
  qed
qed

text \<open>A thread in the loop, on an object that nobody will count again.\<close>

lemma abandoned_polls:
  assumes rep: "represents bname bid from s a" and inv: "spec_inv n a" and ab: "abandoned i a"
    and t: "phase_of a t = Waiting_at i" "thread_of s t = Mapped b"
  shows "refcount (obj_header (objs (kernel s) i)) = 0" "whole_handle (kernel s) i b" "act ctx bname bid (t, Go_on) s = Ret s"
proof -
  have o: "object_of (phase_of a t) = Some i" using t(1) by simp
  note d = shown_object [OF rep o]
  show r: "refcount (obj_header (objs (kernel s) i)) = 0" using d(3) abandoned_refs [OF inv ab] by (simp add: header_shown_def)
  show b: "whole_handle (kernel s) i b" using d(1) t(2) by simp
  have "(thread_of s)(t := Mapped b) = thread_of s" using t(2) by (simp add: fun_upd_idem)
  then show "act ctx bname bid (t, Go_on) s = Ret s" using open_pieces(1) [OF b d(2)] r t(2) by (simp add: place_def)
qed

lemma abandoned_stays:
  assumes rep: "represents bname bid from s a" and inv: "spec_inv n a" and ab: "abandoned i a"
    and t: "phase_of a t = Waiting_at i" "thread_of s t = Mapped b" and step: "act ctx bname bid x s = Ret s'"
  shows "thread_of s' t = Mapped b"
proof (cases "fst x = t")
  case True
  then show ?thesis using step t(2) abandoned_polls(3) [OF rep inv ab t, of ctx] by (cases x; cases "snd x") auto
next
  case False
  then show ?thesis using step t(2) act_other [of ctx bname bid "fst x" "snd x" s s' t] by simp
qed

lemma abandoned_schedule:
  assumes nm: "good_name bname"
  shows "schedule (act ctx bname bid) ys s = Ret s' \<Longrightarrow> \<forall>x \<in> set ys. proper_action (snd x) \<Longrightarrow>
    represents bname bid from s a \<Longrightarrow> spec_inv n a \<Longrightarrow> n + length ys < 2 ^ 64 - 2 \<Longrightarrow> abandoned i a \<Longrightarrow>
    phase_of a t = Waiting_at i \<Longrightarrow> thread_of s t = Mapped b \<Longrightarrow>
    \<exists>a' m. represents bname bid from s' a' \<and> spec_inv m a' \<and> abandoned i a' \<and> phase_of a' t = Waiting_at i \<and> thread_of s' t = Mapped b"
proof (induction ys arbitrary: s a n)
  case (Cons y ys)
  then obtain s1 where s1: "act ctx bname bid y s = Ret s1" "schedule (act ctx bname bid) ys s1 = Ret s'"
    by (auto simp: bind_outcome_Ret_iff)
  have "proper_action (snd y)" using Cons.prems(2) by simp
  then obtain a1 where a1: "spec_act y a = Some a1" "represents bname bid from s1 a1"
    using follows_every [OF Cons.prems(3) nm, of y ctx] s1(1) by (auto simp: follows_def split: option.splits)
  have "abandoned i a1" "phase_of a1 t = Waiting_at i"
    using abandoned_step [OF Cons.prems(4,6), of "fst y" "snd y" a1 t] a1(1) Cons.prems(7) by simp_all
  moreover have "spec_inv (Suc n) a1" using spec_inv_step [OF Cons.prems(4) a1(1)] Cons.prems(5) by simp
  moreover have "thread_of s1 t = Mapped b" by (rule abandoned_stays [OF Cons.prems(3,4,6,7,8) s1(1)])
  ultimately show ?case using Cons.IH [OF s1(2) _ a1(2), of "Suc n"] Cons.prems(2,5) by simp
qed auto

text \<open>
  The thread 0 creates the block and closes it while the thread 1 opens it: the reference count is seen by the opening before and
  raised after the closing has given its reference back. The thread 2 creates the block when the name is free.
\<close>

definition crossing_run :: "size_t \<Rightarrow> ipm_access_mode \<Rightarrow> (nat \<times> action) list" where
  "crossing_run sz acc =
     [(0, Create_block sz acc), (1, Open_block acc), (1, Go_on), (1, Go_on), (1, Go_on), (0, Close_block), (1, Go_on), (1, Go_on),
      (0, Go_on), (0, Go_on), (2, Create_block sz acc)]"

definition closing_run :: "nat \<Rightarrow> (nat \<times> action) list" where
  "closing_run t = [(t, Close_block), (t, Go_on), (t, Go_on)]"

lemma spec_crossing:
  "\<exists>a. spec_acts (crossing_run sz acc) (no_block n) = Some a \<and> current a = Some (Suc n) \<and>
     phase_of a 1 = Holding_at n 2 \<and> phase_of a 2 = Holding_at (Suc n) 1 \<and> refs a n = 1 \<and> refs a (Suc n) = 1 \<and>
     n \<in> spoiled a \<and> next_object a = Suc (Suc n) \<and>
     (\<exists>a'. spec_acts (closing_run 1) a = Some a' \<and> current a' = None)"
  by (simp add: crossing_run_def closing_run_def no_block_def)

lemma holding_phase:
  assumes "represents bname bid from s a" and "phase_of a t = Holding_at i k"
  obtains b where "thread_of s t = Holding b" "handle_ok (kernel s) i b"
  using representsD(8) [OF assms(1), of t] assms(2) that by (auto simp: whole_handle_def)

lemma not_committed:
  assumes rep: "represents bname bid from s a" and ab: "abandoned i a"
  shows "\<forall>u c. thread_of s u \<in> {Awake c, Matched c, Counted c, Holding c} \<longrightarrow> \<not> handle_ok (kernel s) i c"
proof (intro allI impI notI)
  fix u c assume c: "thread_of s u \<in> {Awake c, Matched c, Counted c, Holding c}" and h: "handle_ok (kernel s) i c"
  obtain j where j: "committed (phase_of a u) = Some j" "attached (kernel s) j (thread_of s u)"
    using representsD(8) [OF rep, of u] c by (cases "phase_of a u") auto
  then have "whole_handle (kernel s) j c" using c by auto
  then have "j = i" using whole_handle_fd [of "kernel s" j c] h by (simp add: handle_ok_def)
  then show False using j(1) ab by (simp add: abandoned_def)
qed

lemma unshared_reach:
  assumes "unshared bname bid s0" and "good_name bname" and "\<forall>x \<in> set xs. proper_action (snd x)"
    and "spec_acts xs (no_block (next_obj (kernel s0))) = Some a"
  obtains s where "schedule (act ctx bname bid) xs s0 = Ret s" "represents bname bid (next_obj (kernel s0)) s a"
  by (rule named_block.races_reach [OF named_block.intro [OF assms(2)] unshared_represents [OF assms(1)] assms(3,4)])

text \<open>The example of the test programs.\<close>

definition sample_race :: "test_host race" where
  "sample_race = \<lparr>kernel = sample_world, thread_of = (\<lambda>_. Outside)\<rparr>"

lemma sample_race_ok [simp]:
  "unshared cool_block 1 sample_race" "next_obj (kernel sample_race) = 0"
  by (simp_all add: unshared_def sample_race_def)

lemma sample_action [simp]: "proper_action (Create_block 4096 acc)"
  by (simp add: word_less_nat_alt)

section \<open>Properties\<close>

text \<open>
  C10. Any number of threads open and close a block, interleaved at every access to the shared header and to the name, and create it,
  each creation in one uninterrupted step (what an opening meets inside a creation is \<^verbatim>\<open>open_during_creation\<close>), in any order, without
  failing system calls and in fewer than \<open>2\<^sup>3\<^sup>2\<close> steps: no next step is undefined or fails an assertion, and a call that
  was begun can go on, also after the name was removed; the reference count of every object is the number of threads that
  have taken a reference and not given it back; every handle that opening or creating has returned maps one whole
  object; two handles share no descriptor and no mapping, and no access id of the same object.
\<close>

theorem block_races_safe:
  assumes "unshared bname bid s0" and "good_name bname" and "\<forall>x \<in> set xs. proper_action (snd x)" and "length xs < 2 ^ 32"
    and "schedule (act ctx bname bid) xs s0 = Ret s"
  shows "(\<forall>t x. proper_action x \<longrightarrow> act ctx bname bid (t, x) s \<noteq> UB \<and> act ctx bname bid (t, x) s \<noteq> Abort) \<and>
    (\<forall>t. \<exists>s'. act ctx bname bid (t, Go_on) s = Ret s') \<and>
    (\<forall>t b. thread_of s t = Holding b \<longrightarrow> (\<exists>s'. act ctx bname bid (t, Close_block) s = Ret s')) \<and>
    (\<forall>i. next_obj (kernel s0) \<le> i \<longrightarrow> i < next_obj (kernel s) \<longrightarrow> unat (refcount (obj_header (objs (kernel s) i))) =
       card {t. has_reference (thread_of s t) \<and> attached (kernel s) i (thread_of s t)}) \<and>
    (\<forall>t b. thread_of s t = Holding b \<longrightarrow>
       (\<exists>i \<ge> next_obj (kernel s0). handle_ok (kernel s) i b \<and> mapped_size b = block_size (obj_header (objs (kernel s) i)))) \<and>
    (\<forall>t u b c. thread_of s t = Holding b \<longrightarrow> thread_of s u = Holding c \<longrightarrow> t \<noteq> u \<longrightarrow>
       mem_fd b \<noteq> mem_fd c \<and> {header b, memory b} \<inter> {header c, memory c} = {} \<and>
       (\<forall>i. handle_ok (kernel s) i b \<longrightarrow> handle_ok (kernel s) i c \<longrightarrow> access_id b \<noteq> access_id c))"
proof -
  let ?n = "next_obj (kernel s0)"
  have nb: "named_block bname" using assms(2) by (rule named_block.intro)
  obtain a where rep: "represents bname bid ?n s a" and inv: "spec_inv (length xs) a"
    by (rule named_block.races_end [OF nb assms(1,3) _ assms(5) refl]) (use assms(4) in simp_all)
  have safe: "act ctx bname bid (t, x) s \<noteq> UB \<and> act ctx bname bid (t, x) s \<noteq> Abort" if "proper_action x" for t x
    using follows_every [OF rep assms(2), of "(t, x)" ctx] that by (auto simp: follows_def split: option.splits)
  have go: "\<exists>s'. act ctx bname bid (t, Go_on) s = Ret s'" for t
    using follows_every [OF rep assms(2), of "(t, Go_on)" ctx] by (auto simp: follows_def)
  have cl: "\<exists>s'. act ctx bname bid (t, Close_block) s = Ret s'" if h: "thread_of s t = Holding b" for t b
  proof -
    obtain i where "phase_of a t = Holding_at i (access_id b)" by (rule phase_holding [OF rep h])
    then show ?thesis using follows_every [OF rep assms(2), of "(t, Close_block)" ctx] by (auto simp: follows_def)
  qed
  have whole: "\<exists>i \<ge> ?n. handle_ok (kernel s) i b \<and> mapped_size b = block_size (obj_header (objs (kernel s) i))"
    if "thread_of s t = Holding b" for t b
    by (rule phase_holding [OF rep that]) (auto simp: whole_handle_def)
  have two: "mem_fd b \<noteq> mem_fd c \<and> {header b, memory b} \<inter> {header c, memory c} = {} \<and>
      (\<forall>i. handle_ok (kernel s) i b \<longrightarrow> handle_ok (kernel s) i c \<longrightarrow> access_id b \<noteq> access_id c)"
    if t: "thread_of s t = Holding b" and u: "thread_of s u = Holding c" and tu: "t \<noteq> u" for t u b c
  proof -
    obtain i where i: "phase_of a t = Holding_at i (access_id b)" "fds (kernel s) (mem_fd b) = Some i"
      using phase_holding [OF rep t] whole_handle_fd by metis
    obtain j where j: "phase_of a u = Holding_at j (access_id c)" "fds (kernel s) (mem_fd c) = Some j"
      using phase_holding [OF rep u] whole_handle_fd by metis
    have "access_id b \<noteq> access_id c" if "handle_ok (kernel s) k b" "handle_ok (kernel s) k c" for k
    proof -
      have "i = j" using i(2) j(2) that by (simp add: handle_ok_def)
      then show ?thesis using holding_unique [OF inv i(1)] j(1) tu by metis
    qed
    moreover have "fds_of (thread_of s t) \<inter> fds_of (thread_of s u) = {}" "ptrs_of (thread_of s t) \<inter> ptrs_of (thread_of s u) = {}"
      using representsD(10) [OF rep] tu unfolding threads_apart_def by blast+
    ultimately show ?thesis using t u by (simp add: fds_of_def ptrs_of_def)
  qed
  show ?thesis using safe go cl refcount_exact [OF rep inv assms(4)] whole two by blast
qed

theorem block_races_safe_witness:
  "\<exists>s b c. schedule (act test_ctx cool_block 1)
      ((0, Create_block 4096 IPM_ACCESS_MODE_READ_WRITE) # whole_open 1 IPM_ACCESS_MODE_READ_ONLY) sample_race = Ret s \<and>
    thread_of s 0 = Holding b \<and> thread_of s 1 = Holding c \<and> mem_fd b \<noteq> mem_fd c"
proof -
  let ?xs = "(0, Create_block 4096 IPM_ACCESS_MODE_READ_WRITE) # whole_open 1 IPM_ACCESS_MODE_READ_ONLY"
  have p: "\<forall>x \<in> set ?xs. proper_action (snd x)" "length ?xs < 2 ^ 32"
    by (auto simp: whole_open_def sample_action simp del: proper_action.simps(1))
  obtain a where a: "spec_acts ?xs (no_block (next_obj (kernel sample_race))) = Some a"
    "phase_of a 0 = Holding_at 0 1" "phase_of a 1 = Holding_at 0 2"
    by (simp add: whole_open_def no_block_def numeral_eq_Suc)
  obtain s where s: "schedule (act test_ctx cool_block 1) ?xs sample_race = Ret s" "represents cool_block 1 (next_obj (kernel sample_race)) s a"
    by (rule unshared_reach [OF sample_race_ok(1) cool_block_ok(1) p(1) a(1)])
  obtain b where b: "thread_of s 0 = Holding b" by (rule holding_phase [OF s(2) a(2)])
  obtain c where c: "thread_of s 1 = Holding c" by (rule holding_phase [OF s(2) a(3)])
  have "mem_fd b \<noteq> mem_fd c"
    using block_races_safe [OF sample_race_ok(1) cool_block_ok(1) p s(1)] b c by (metis zero_neq_one)
  with s(1) b c show ?thesis by blast
qed

text \<open>
  C11. A handle that stays protects the block: from a state in which all threads work on the object that has the name and none
  is about to remove it, whatever the other threads do, in any interleaving, as long as the holder \<open>k\<close> does nothing:
  the name stays, the handle stays sound, a thread in the loop of the reference count leaves it at its next
  step, a creation returns \<^verbatim>\<open>IPM_RESULT_ERR_EXISTS\<close>, and an opening that is not interrupted succeeds on the same object.
\<close>

theorem holder_protects_block:
  assumes "unshared bname bid s0" and "good_name bname" and "\<forall>x \<in> set (xs @ ys). proper_action (snd x)"
    and "length xs + length ys < 2 ^ 32"
    and "schedule (act ctx bname bid) xs s0 = Ret s" and "schedule (act ctx bname bid) ys s = Ret s'"
    and "thread_of s k = Holding b" and "undisturbed bname bid i s" and "k \<notin> fst ` set ys"
  shows "undisturbed bname bid i s' \<and> thread_of s' k = Holding b \<and> handle_ok (kernel s') i b \<and>
    (\<forall>t c. thread_of s' t = Mapped c \<longrightarrow> (\<exists>s''. act ctx bname bid (t, Go_on) s' = Ret s'' \<and> thread_of s'' t = Awake c)) \<and>
    (\<forall>t sz acc. idle (thread_of s' t) \<longrightarrow> proper_action (Create_block sz acc) \<longrightarrow>
       (\<exists>s''. act ctx bname bid (t, Create_block sz acc) s' = Ret s'' \<and> thread_of s'' t = Returned IPM_RESULT_ERR_EXISTS)) \<and>
    (\<forall>t acc. idle (thread_of s' t) \<longrightarrow>
       (\<exists>s'' c. schedule (act ctx bname bid) (whole_open t acc) s' = Ret s'' \<and> thread_of s'' t = Holding c \<and> handle_ok (kernel s'') i c))"
proof -
  let ?n = "next_obj (kernel s0)"
  have nb: "named_block bname" using assms(2) by (rule named_block.intro)
  obtain a where rep: "represents bname bid ?n s a" and inv: "spec_inv (length xs) a"
    by (rule named_block.races_end [OF nb assms(1) _ _ assms(5) refl]) (use assms(3,4) in simp_all)
  obtain a' where a': "spec_acts ys a = Some a'" and rep': "represents bname bid ?n s' a'"
    by (rule named_block.races_continue [OF nb rep _ assms(6)]) (use assms(3) in simp_all)
  have inv': "spec_inv (length xs + length ys) a'" using spec_inv_acts [OF a' inv] assms(4) by simp
  have g: "guarded k i a'"
    using guarded_acts [OF a' inv assms(4) undisturbed_guarded [OF rep assms(8,7)] assms(9)] .
  have r: "refs a' i \<noteq> 0" by (rule guarded_refs [OF inv' assms(4) g])
  have k: "thread_of s' k = Holding b" using schedule_other [OF assms(6,9)] assms(7) by simp
  have "handle_ok (kernel s') i b"
  proof (rule phase_holding [OF rep' k])
    fix j assume "phase_of a' k = Holding_at j (access_id b)" "whole_handle (kernel s') j b"
    then show ?thesis using g by (simp add: guarded_def whole_handle_def)
  qed
  then show ?thesis using guarded_undisturbed [OF rep' g] k guarded_services [OF rep' assms(2) g r] by blast
qed

theorem holder_protects_block_witness:
  "\<exists>s s' b. schedule (act test_ctx cool_block 1) [(0, Create_block 4096 IPM_ACCESS_MODE_READ_WRITE)] sample_race = Ret s \<and>
    schedule (act test_ctx cool_block 1) (whole_open 1 IPM_ACCESS_MODE_READ_WRITE @ closing_run 1) s = Ret s' \<and>
    thread_of s' 0 = Holding b \<and> handle_ok (kernel s') 0 b \<and>
    names (kernel s') (make_block_name_based_on_id name_buffer_size cool_block 1) = Some 0"
proof -
  let ?rw = IPM_ACCESS_MODE_READ_WRITE
  let ?xs = "[(0, Create_block 4096 ?rw)]" and ?ys = "whole_open 1 ?rw @ closing_run 1"
  have p: "\<forall>x \<in> set (?xs @ ?ys). proper_action (snd x)" "length ?xs + length ?ys < 2 ^ 32" "0 \<notin> fst ` set ?ys"
    by (auto simp: whole_open_def closing_run_def sample_action simp del: proper_action.simps(1))
  obtain a where a: "spec_acts ?xs (no_block (next_obj (kernel sample_race))) = Some a" "guarded 0 0 a" "phase_of a 0 = Holding_at 0 1"
    and more: "\<exists>a'. spec_acts ?ys a = Some a'"
    by (simp add: whole_open_def closing_run_def no_block_def guarded_def numeral_eq_Suc)
  obtain s where s: "schedule (act test_ctx cool_block 1) ?xs sample_race = Ret s" "represents cool_block 1 (next_obj (kernel sample_race)) s a"
    by (rule unshared_reach [OF sample_race_ok(1) cool_block_ok(1) _ a(1)]) (use p(1) in simp)
  obtain a' where a': "spec_acts ?ys a = Some a'" using more by blast
  obtain s' where s': "schedule (act test_ctx cool_block 1) ?ys s = Ret s'"
    by (rule named_block.races_reach [OF named_block.intro [OF cool_block_ok(1)] s(2) _ a']) (use p(1) in simp)
  obtain b where b: "thread_of s 0 = Holding b" by (rule holding_phase [OF s(2) a(3)])
  from holder_protects_block [OF sample_race_ok(1) cool_block_ok(1) p(1,2) s(1) s' b guarded_undisturbed [OF s(2) a(2)] p(3)]
  show ?thesis using s(1) s' unfolding undisturbed_def by blast
qed

text \<open>
  C25. When no thread has a reference to an object and none has passed the loop of the reference count on it, an opening that is
  in that loop never leaves it, whatever any thread does later and although the name may be free again or belong to a new
  block: it yields for ever and keeps its descriptor and both mappings.
\<close>

theorem open_spins_after_last_close:
  assumes "unshared bname bid s0" and "good_name bname" and "\<forall>x \<in> set (xs @ ys). proper_action (snd x)"
    and "length xs + length ys < 2 ^ 64 - 2"
    and "schedule (act ctx bname bid) xs s0 = Ret s" and "schedule (act ctx bname bid) ys s = Ret s'"
    and "thread_of s t = Mapped b" and "handle_ok (kernel s) i b"
    and "\<forall>u c. thread_of s u \<in> {Awake c, Matched c, Counted c, Holding c} \<longrightarrow> \<not> handle_ok (kernel s) i c"
  shows "thread_of s' t = Mapped b \<and> handle_ok (kernel s') i b \<and> refcount (obj_header (objs (kernel s') i)) = 0 \<and>
    act ctx bname bid (t, Go_on) s' = Ret s'"
proof -
  let ?n = "next_obj (kernel s0)"
  have nb: "named_block bname" using assms(2) by (rule named_block.intro)
  obtain a where rep: "represents bname bid ?n s a" and inv: "spec_inv (length xs) a"
    by (rule named_block.races_end [OF nb assms(1) _ _ assms(5) refl]) (use assms(3,4) in simp_all)
  obtain j where "phase_of a t = Waiting_at j" "whole_handle (kernel s) j b" by (rule phase_mapped [OF rep assms(7)])
  then have ph: "phase_of a t = Waiting_at i" using whole_handle_fd [of "kernel s" j b] assms(8) by (simp add: handle_ok_def)
  have "committed (phase_of a u) \<noteq> Some i" for u
    using representsD(8) [OF rep, of u] assms(9) by (cases "phase_of a u") (auto simp: whole_handle_def)
  moreover have "i < next_object a" using shown_object(5) [OF rep, of t i] ph representsD(4) [OF rep] by simp
  ultimately have "abandoned i a" by (simp add: abandoned_def)
  then obtain a' m where a': "represents bname bid ?n s' a'" "spec_inv m a'" "abandoned i a'" "phase_of a' t = Waiting_at i"
    "thread_of s' t = Mapped b"
    using abandoned_schedule [OF assms(2,6) _ rep inv assms(4) _ ph assms(7)] assms(3) by auto
  then show ?thesis using abandoned_polls [OF a'] by (simp add: whole_handle_def)
qed

theorem open_spins_after_last_close_witness:
  "\<exists>s s' b. schedule (act test_ctx cool_block 1)
      ([(0, Create_block 4096 IPM_ACCESS_MODE_READ_WRITE), (1, Open_block IPM_ACCESS_MODE_READ_WRITE), (1, Go_on)] @ closing_run 0)
      sample_race = Ret s \<and>
    schedule (act test_ctx cool_block 1) [(2, Create_block 4096 IPM_ACCESS_MODE_READ_WRITE), (1, Go_on), (1, Go_on)] s = Ret s' \<and>
    thread_of s' 1 = Mapped b \<and> act test_ctx cool_block 1 (1, Go_on) s' = Ret s'"
proof -
  let ?rw = IPM_ACCESS_MODE_READ_WRITE
  let ?xs = "[(0, Create_block 4096 ?rw), (1, Open_block ?rw), (1, Go_on)] @ closing_run 0"
    and ?ys = "[(2, Create_block 4096 ?rw), (1, Go_on), (1, Go_on)]"
  have p: "\<forall>x \<in> set (?xs @ ?ys). proper_action (snd x)" "length ?xs + length ?ys < 2 ^ 64 - 2"
    by (auto simp: closing_run_def sample_action simp del: proper_action.simps(1))
  obtain a where a: "spec_acts ?xs (no_block (next_obj (kernel sample_race))) = Some a" "abandoned 0 a" "phase_of a 1 = Waiting_at 0"
    and more: "\<exists>a'. spec_acts ?ys a = Some a'"
    by (simp add: closing_run_def no_block_def abandoned_def)
  obtain s where s: "schedule (act test_ctx cool_block 1) ?xs sample_race = Ret s" "represents cool_block 1 (next_obj (kernel sample_race)) s a"
    by (rule unshared_reach [OF sample_race_ok(1) cool_block_ok(1) _ a(1)]) (use p(1) in simp)
  obtain a' where a': "spec_acts ?ys a = Some a'" using more by blast
  obtain s' where s': "schedule (act test_ctx cool_block 1) ?ys s = Ret s'"
    by (rule named_block.races_reach [OF named_block.intro [OF cool_block_ok(1)] s(2) _ a']) (use p(1) in simp)
  obtain b where b: "thread_of s 1 = Mapped b" "handle_ok (kernel s) 0 b"
    using representsD(8) [OF s(2), of 1] a(3) by (auto simp: whole_handle_def)
  from open_spins_after_last_close [OF sample_race_ok(1) cool_block_ok(1) p s(1) s' b] not_committed [OF s(2) a(2)]
  show ?thesis using s(1) s' by blast
qed

text \<open>
  C26. The last closing and an opening can cross: for every block there is an interleaving after which the thread 1 has
  successfully opened an object that no longer has a name and whose mutex is destroyed, while the thread 2 has successfully created a block
  of the same name in another object. When the thread 1 closes its handle, it finds itself to be the last one again
  and removes the name of the block that the thread 2 holds.
\<close>

theorem last_close_crosses_open:
  assumes "unshared bname bid s0" and "good_name bname" and "proper_action (Create_block sz acc)"
  shows "\<exists>s b c i j. schedule (act ctx bname bid) (crossing_run sz acc) s0 = Ret s \<and>
    thread_of s 1 = Holding b \<and> thread_of s 2 = Holding c \<and> handle_ok (kernel s) i b \<and> handle_ok (kernel s) j c \<and> i \<noteq> j \<and>
    names (kernel s) (make_block_name_based_on_id name_buffer_size bname bid) = Some j \<and>
    segment_mutex (obj_header (objs (kernel s) i)) = Mut_raw \<and>
    (\<exists>s'. schedule (act ctx bname bid) (closing_run 1) s = Ret s' \<and> thread_of s' 2 = Holding c \<and>
       names (kernel s') (make_block_name_based_on_id name_buffer_size bname bid) = None)"
proof -
  let ?n = "next_obj (kernel s0)"
  have nb: "named_block bname" using assms(2) by (rule named_block.intro)
  obtain a a' where a: "spec_acts (crossing_run sz acc) (no_block ?n) = Some a" "current a = Some (Suc ?n)"
    "phase_of a 1 = Holding_at ?n 2" "phase_of a 2 = Holding_at (Suc ?n) 1" "?n \<in> spoiled a" "next_object a = Suc (Suc ?n)"
    and a': "spec_acts (closing_run 1) a = Some a'" "current a' = None"
    using spec_crossing [of sz acc ?n] by blast
  have "\<forall>x \<in> set (crossing_run sz acc). proper_action (snd x)" using assms(3) by (simp add: crossing_run_def)
  then obtain s where s: "schedule (act ctx bname bid) (crossing_run sz acc) s0 = Ret s" "represents bname bid ?n s a"
    by (rule unshared_reach [OF assms(1,2) _ a(1)])
  have "\<forall>x \<in> set (closing_run 1). proper_action (snd x)" by (simp add: closing_run_def)
  then obtain s' where s': "schedule (act ctx bname bid) (closing_run 1) s = Ret s'" "represents bname bid ?n s' a'"
    by (rule named_block.races_reach [OF nb s(2) _ a'(1)])
  obtain b where b: "thread_of s 1 = Holding b" "handle_ok (kernel s) ?n b" by (rule holding_phase [OF s(2) a(3)])
  obtain c where c: "thread_of s 2 = Holding c" "handle_ok (kernel s) (Suc ?n) c" by (rule holding_phase [OF s(2) a(4)])
  have "thread_of s' 2 = Holding c" using schedule_other [OF s'(1), of 2] c(1) by (simp add: closing_run_def)
  moreover have "segment_mutex (obj_header (objs (kernel s) ?n)) = Mut_raw"
    using representsD(4,7) [OF s(2)] a(5,6) by (simp add: objects_shown_def header_shown_def)
  moreover have "names (kernel s) (block_path bname bid) = Some (Suc ?n)" "names (kernel s') (block_path bname bid) = None"
    using representsD(5) [OF s(2)] representsD(5) [OF s'(2)] a(2) a'(2) by simp_all
  ultimately show ?thesis using s(1) s'(1) b c n_not_Suc_n [of ?n] by blast
qed

theorem last_close_crosses_open_witness:
  "\<exists>s b c. schedule (act test_ctx cool_block 1) (crossing_run 4096 IPM_ACCESS_MODE_READ_WRITE) sample_race = Ret s \<and>
    thread_of s 1 = Holding b \<and> thread_of s 2 = Holding c"
  using last_close_crosses_open [OF sample_race_ok(1) cool_block_ok(1) sample_action, of test_ctx] by blast

end
