(* ===== verification/Spec2Isabelle.thy ===== *)
theory Spec2Isabelle
  imports Fork_Test Block_Race_Runs
begin

text \<open>
  A verification development for \<^verbatim>\<open>ipm\<close>, a C library with which processes share named memory and
  claim regions of it for reading or writing. Paths are relative to \<^verbatim>\<open>src/\<close>.

  \<^bold>\<open>The program.\<close> A memory consists of two POSIX shared memory objects: the memory itself and a list of
  the active claims. Each object starts with a header page that counts its handles and hands out access ids
  (\<^verbatim>\<open>source/shared_memory.c\<close>). The claim list is an array of claims with a process-shared robust
  mutex and a condition variable (\<^verbatim>\<open>source/memory_claim.c\<close> over the wrappers of
  \<^verbatim>\<open>source/ipm_platform.c\<close>). A handle (\<^verbatim>\<open>source/ipm_memory.c\<close>) owns one
  reference of each object; claiming a region locks the list, sleeps while another handle's claim conflicts or the list is
  full, and adds the claim; releasing removes it and notifies one sleeper. Memory for handles and the reports of errors go
  through callbacks of the user (\<^verbatim>\<open>source/ipm_common.c\<close>), results are the enum of
  \<^verbatim>\<open>include/ipm/ipm_error.h\<close>.

  \<^bold>\<open>The theories, in the order of the layers.\<close>
  \<^item> \<^verbatim>\<open>IPM_Prelude\<close>: fixed-width types, pointers, error numbers, the type
    \<open>outcome\<close> of C computations (\<open>Ret\<close>, \<open>Abort\<close> for a failed assertion,
    \<open>UB\<close> for undefined behaviour, \<open>Blocked\<close> for sleeping for ever),
    \<^verbatim>\<open>memmove\<close> and array stores with their bounds, the scanning loop, word arithmetic.
  \<^item> \<^verbatim>\<open>IPM_Error\<close> (\<^verbatim>\<open>source/ipm_error.c\<close>): the results and their texts.
  \<^item> \<^verbatim>\<open>IPM_Common\<close> (\<^verbatim>\<open>source/ipm_common.c\<close>,
    \<^verbatim>\<open>include/ipm/ipm_common.h\<close>): the context with its callbacks, allocation, error reports. The
    contract of the callbacks is the locale \<open>callback_contract\<close>, interpreted on the callbacks of
    \<^verbatim>\<open>tests/test_common.c\<close>; so is \<open>reliable_callbacks\<close>, the contract of callbacks that
    do not fail for a number of calls.
  \<^item> \<^verbatim>\<open>IPM_Platform\<close> (\<^verbatim>\<open>source/ipm_platform.c\<close>): semaphores, mutexes
    and condition variables: first the functions of the system as POSIX describes them, then the wrappers that call them.
    What the other components rely on is the locale \<open>mutex_interface\<close>, interpreted on the wrappers.
  \<^item> \<^verbatim>\<open>Memory_Claim\<close> (\<^verbatim>\<open>source/memory_claim.c\<close>): the claim list as a
    record with the fields of the struct; conflict test, adding, removing, visiting, initialising. The discipline under
    which it behaves as a stack is the locale \<open>claim_stack\<close>, interpreted on it.
  \<^item> \<^verbatim>\<open>Claim_Region\<close> (\<^verbatim>\<open>source/ipm_memory.c\<close>): the critical sections
    of the claim handlers, from taking the list mutex to releasing it, with the other processes as a script of changes at
    every sleep.
  \<^item> \<^verbatim>\<open>Claim_Protocol\<close>: all handles of a memory as a step relation whose steps are those
    critical sections, runs under a discipline, the invariant of orderly runs, progress, and a run that loses exclusion.
  \<^item> \<^verbatim>\<open>Shared_Memory\<close> (\<^verbatim>\<open>source/shared_memory.c\<close>): the kernel state
    (objects, names, descriptors, mappings of the process) as the record \<open>world\<close>, the system calls, and every
    function on blocks.
  \<^item> \<^verbatim>\<open>Block_Lifetime\<close>: runs of creations, openings and closings of one block as a step
    relation, with the reference count.
  \<^item> \<^verbatim>\<open>Block_Phases\<close> (\<^verbatim>\<open>source/shared_memory.c\<close>): opening and closing
    cut at their accesses to the header and to the name, with the place where a thread is as the datatype
    \<open>thread\<close>; the pieces one after the other are the calls.
  \<^item> \<^verbatim>\<open>Block_Spec\<close>: what threads that create, open and close one block do to each other, as
    the function \<open>spec_act\<close> on counts, ids, the name and the places of the threads; its invariant, what a
    holder protects (\<open>guarded\<close>) and objects that nobody will count again (\<open>abandoned\<close>). A system
    that makes these steps is the locale \<open>block_machine\<close>.
  \<^item> \<^verbatim>\<open>Block_Races\<close>: threads that run the pieces in any order on one kernel, the relation
    \<open>represents\<close> to the specification, and that every step of the code is the step of the specification.
  \<^item> \<^verbatim>\<open>Block_Race_Runs\<close>: the locale \<open>named_block\<close>, in which the threads are a
    \<open>block_machine\<close>, and the theorems on all interleavings.
  \<^item> \<^verbatim>\<open>IPM_Memory\<close> (\<^verbatim>\<open>source/ipm_memory.c\<close>): handles and every
    function of the public interface; creating and closing.
  \<^item> \<^verbatim>\<open>Memory_Calls\<close>: the interface under failures, opening, leaving after
    \<^verbatim>\<open>fork\<close>, refused arguments, growing.
  \<^item> \<^verbatim>\<open>Library_Spec\<close>: what the library promises for one memory, as a function
    \<open>spec_call\<close> from calls to replies on a small state (handles, inherited handles, size, held claims), the use
    it is promised for (\<open>proper\<close>), its invariant, and clients: programs that say which process makes which call
    next, depending on all replies. What an implementation owes its clients is the locale \<open>library_interface\<close>.
  \<^item> \<^verbatim>\<open>Library_Machine\<close>: any number of processes, each with its own descriptors, mappings and
    heap, on one kernel; \<open>library_call\<close> runs the function of \<^verbatim>\<open>source/ipm_memory.c\<close> for
    a call, from its beginning to its end, in the world of its process; the abstraction \<open>promised\<close> and the
    invariant \<open>machine_ok\<close>.
  \<^item> \<^verbatim>\<open>Library_Calls\<close>: every call implements its specification, in the locale
    \<open>reliable_callbacks\<close> of callbacks that do not fail.
  \<^item> \<^verbatim>\<open>Library_Runs\<close>: the locale \<open>named_memory\<close>, in which the machine is a
    \<open>library_interface\<close>, and the theorems on all clients.
  \<^item> \<^verbatim>\<open>Test_Programs\<close> (\<^verbatim>\<open>tests/single_test.c\<close>): the single process
    test as a program on the world.
  \<^item> \<^verbatim>\<open>Fork_Test\<close> (\<^verbatim>\<open>tests/fork_test.c\<close>): the test with two processes
    as a client, in all orders of their steps.

  \<^bold>\<open>Modelling.\<close> \<^verbatim>\<open>size_t\<close>, \<^verbatim>\<open>unsigned\<close> and ids are words
  of their width, so counts and sums wrap as in C. Array indices are natural numbers; a claim list has fewer than $2^{32}$
  slots, which \<open>list_wf\<close> states, and the computations that wrap in 32 bits are done on words. Calls into the
  system that may fail for reasons outside the program take their result from a script of faults in the state; a theorem
  about all scripts covers every pattern of failures, \<open>quiet\<close> is the script without failure and
  \<open>one_fault\<close> one with at most one. A pthread function returns its error and leaves
  \<^verbatim>\<open>errno\<close> alone, so the \<^verbatim>\<open>switch (errno)\<close> of the wrappers reads whatever an
  earlier call left there. Loops are recursive functions with a measure; no fuel is used. The loop that sleeps ends because
  every sleep takes one entry of the script of the other processes, and it is \<open>Blocked\<close> at the end of the
  script.
  The runs of clients (\<^verbatim>\<open>Library_Runs\<close>, \<^verbatim>\<open>Fork_Test\<close>) are serial: a call
  runs alone from its beginning to its end, no system call fails, and a call that would have to wait is
  \<open>Blocked\<close> and ends the run; a process that sleeps takes its claim id before it sleeps, which is modelled in
  \<^verbatim>\<open>Claim_Protocol\<close> and not there. A client makes fewer than $2^{32} - 2$ calls, so that the 32-bit
  reference counts and the counters of ids do not wrap, and each call takes at most three callbacks.
  In the interleavings of \<^verbatim>\<open>Block_Races\<close> a step is one access to shared state with the private work
  around it, but a whole creation is one step (\<^verbatim>\<open>Block_Lifetime\<close> has what an opening meets inside a
  creation); the descriptors and mappings of all threads stand in one table, in which no two threads share an entry.
  Structure sizes are those of x86-64 Linux. The source lines in error messages are those of \<^verbatim>\<open>src/\<close>.

  \<^bold>\<open>What is shown.\<close>
  The library as a whole, in serial runs: for every client that uses it properly, every call of every process returns what the
  specification says and leaves the machine in the state it says; in particular claims exclude each other, reference
  counts and names follow the handles, no descriptor or mapping is lost, and the queries are right. Both test programs
  pass, the one with two processes in every order of their steps that the claims allow.
  Claims: on regions whose ends do not wrap the conflict test ignores the regions, and so misses no overlap, but a region
  that wraps is accepted and can be granted beside another one that it overlaps; adding and removing on every branch, with
  exact conditions under which they agree with sorted insertion and with removal (the moves of both are one element short);
  a granted claim conflicts with nothing active; a caller sleeps exactly until its claim is grantable. Over whole runs: if
  regions do not wrap, claims are appended in the order of offsets and released in reverse, and nothing is released while
  the list is full, the list is exactly the claims that are held and overlapping claims of different handles are both for
  reading; with writers only, at most one claim is held; sleepers can be served, but releasing all claims of a handle
  notifies none of them; and a run of four successful calls that releases in another order gives two handles conflicting
  claims. For every memory that \<^verbatim>\<open>ipm_memory_create\<close> sets up the exclusion of writers follows.
  Blocks and memories: creation is complete or leaves nothing, up to named exceptions; the name exists exactly while handles
  exist; opening adds a reference and a new access id, but while the creator is still at work it is undefined, fails or
  waits, depending on how far the creator is; closing the last handle restores everything; in every interleaving of
  openings, closings and uninterrupted creations the counts, handles and access ids stay right and nothing is undefined, and
  while one holder stays on a block that nobody is about to remove, the name stays, no opening waits and no creation
  succeeds; but the last closing can cross an opening, which then spins for ever or succeeds on an object without a name and
  without a mutex; \<^verbatim>\<open>ipm_memory_clean\<close> keeps the memory; growing and changing access work on the
  block but lose the pointer.
  Platform: the mutex excludes, also after the death of an owner, unless \<^verbatim>\<open>errno\<close> holds a stale
  value; initialisation is complete or without effect, except for one path of the condition variable; the semaphore wrappers
  report every failure except that of a post.

  \<^bold>\<open>Not modelled.\<close> The bytes of the shared memory itself, which the library never reads. Concurrency
  inside a critical section (the mutex excludes it), between the unlocked reads of a header in growing and remapping, and
  between a creation and other calls except for an opening that meets it; weak memory ordering of the atomics. Which sleeper
  a signal wakes: a sleeper may be granted its claim whenever it is grantable, so the missing notification after
  \<^verbatim>\<open>ipm_memory_release_all\<close> shows only in the count of notifications. Signals and process death
  other than through the state of a robust mutex. In the serial runs of many processes: calls that overlap and what a call
  that waits does later, calls that do not follow \<open>proper\<close> (the order of releases that the claim list needs,
  among others), failing system calls, and \<^verbatim>\<open>ipm_memory_change_access\<close>,
  \<^verbatim>\<open>ipm_memory_resize_grow\<close> and \<^verbatim>\<open>ipm_memory_sync\<close>, after which a handle has
  lost its pointer; each of these is treated in the theory of its component. Several memories in one run.
  \<^verbatim>\<open>fprintf\<close>, \<^verbatim>\<open>printf\<close> and \<^verbatim>\<open>vsnprintf\<close> beyond the
  text they produce. The build files.
\<close>

section \<open>From creation to exclusion\<close>

lemma fresh_list_starting: "starting_list fresh_list" "2 \<le> capacity fresh_list"
  using fresh_list_ready by (simp_all add: starting_list_def fresh_list_def)

text \<open>
  C6. The library from end to end: when \<^verbatim>\<open>ipm_memory_create\<close> meets no failure it returns a handle through which a fresh
  claim list can be reached, and in every run of claims for writing on that list, by any number of handles with one claim
  each at a time and on regions whose ends do not wrap, at most one claim is held at any moment and the list shows exactly
  it.
\<close>

theorem created_memory_excludes_writers:
  assumes "kernel_ok w" and "quiet w" and "good_name bname" and "CHR ''/'' \<notin> set bname"
    and "valid_access acc" and "0 < sz" and "unat sz < 2 ^ 62"
    and "\<forall>bid \<in> {1, 2}. names w (make_block_name_based_on_id name_buffer_size bname bid) = None"
    and "ipm_alloc ctx sizeof_ipm_memory 31 ''ipm_memory_create'' w = (this, w0)" and "this \<noteq> NULL"
  shows "\<exists>mem w' ir ic. ipm_memory_create ctx sz bname acc w = Ret (IPM_RESULT_SUCCESS, Some mem, w') \<and>
    mem_ok w' ir ic mem \<and> ipm_memory_ref_count mem w' = Ret 1 \<and>
    unat sz \<le> unat (mapped_size (real_memory mem)) \<and>
    list_at (internal_ipm_memory_clam_list mem) w' = Some ic \<and> obj_list (objs w' ic) = fresh_list \<and>
    (\<forall>n s. run ctx writers_only (obj_list (objs w' ic)) n s \<longrightarrow> n < 2 ^ 64 \<longrightarrow>
       length (granted s) \<le> 1 \<and> active (lst s) = granted s)"
proof -
  let ?ic = "next_obj w" and ?ir = "Suc (next_obj w)"
  obtain mem w' where m: "ipm_memory_create ctx sz bname acc w = Ret (IPM_RESULT_SUCCESS, Some mem, w')"
    "mem_ok w' ?ir ?ic mem" "obj_list (objs w' ?ic) = fresh_list"
    "refcount (obj_header (objs w' ?ir)) = 1" "mapped_size (real_memory mem) = round_size sz"
    using memory_create_ok [OF assms] by blast
  have h: "handle_ok w' ?ir (real_memory mem)" "4096 \<le> obj_len (objs w' ?ir)" using m(2) by (simp_all add: mem_ok_def)
  have "ipm_memory_ref_count mem w' = Ret 1"
    using handle_header [OF h] m(4) by (simp add: ipm_memory_ref_count_def read_header_def)
  moreover have "unat sz \<le> unat (mapped_size (real_memory mem))"
    using round_size_exact [of sz] page_ceil_ge [of "unat sz"] assms(7) m(5) by simp
  moreover have "length (granted s) \<le> 1 \<and> active (lst s) = granted s"
    if "run ctx writers_only fresh_list n s" "n < 2 ^ 64" for n s
    using writers_held [OF writers_run [OF that(1) fresh_list_starting that(2)]] by simp
  ultimately show ?thesis
    using m(1,2,3) mem_ok_list(1) [OF m(2)] by (auto simp: internal_ipm_memory_clam_list_def)
qed

theorem created_memory_excludes_writers_witness:
  "\<exists>mem w' ic s. ipm_memory_create test_ctx 69 cool_block IPM_ACCESS_MODE_READ_WRITE sample_world =
      Ret (IPM_RESULT_SUCCESS, Some mem, w') \<and>
    list_at (internal_ipm_memory_clam_list mem) w' = Some ic \<and>
    run test_ctx writers_only (obj_list (objs w' ic)) 2 s \<and>
    granted s = [sample_write 0 1] \<and> asleep s = [sample_write 1 2] \<and> active (lst s) = [sample_write 0 1]"
proof -
  obtain w0 where a: "ipm_alloc test_ctx sizeof_ipm_memory 31 ''ipm_memory_create'' sample_world = (Addr 0, w0)"
    using sample_world_alloc by blast
  have p: "valid_access IPM_ACCESS_MODE_READ_WRITE" "0 < (69 :: size_t)" "unat (69 :: size_t) < 2 ^ 62"
    by (simp_all add: valid_access_def word_less_nat_alt)
  have n: "\<forall>bid \<in> {1, 2}. names sample_world (make_block_name_based_on_id name_buffer_size cool_block bid) = None"
    by (simp add: sample_world_def)
  have nz: "Addr 0 \<noteq> NULL" by simp
  obtain mem w' ic where c: "ipm_memory_create test_ctx 69 cool_block IPM_ACCESS_MODE_READ_WRITE sample_world =
      Ret (IPM_RESULT_SUCCESS, Some mem, w')"
    "list_at (internal_ipm_memory_clam_list mem) w' = Some ic" "obj_list (objs w' ic) = fresh_list"
    "\<forall>n s. run test_ctx writers_only (obj_list (objs w' ic)) n s \<longrightarrow> n < 2 ^ 64 \<longrightarrow>
       length (granted s) \<le> 1 \<and> active (lst s) = granted s"
    using created_memory_excludes_writers [OF sample_world_ok(1,2) cool_block_ok(1) cool_block_no_slash p n a nz] by blast
  obtain s where s: "run test_ctx writers_only fresh_list 2 s" "granted s = [sample_write 0 1]" "asleep s = [sample_write 1 2]"
    using sample_run_on [OF disjI2 [OF refl] fresh_list_starting] by blast
  have "active (lst s) = [sample_write 0 1]" using c(3,4) s by auto
  then show ?thesis using c(1-3) s by (intro exI [of _ mem] exI [of _ w'] exI [of _ ic] exI [of _ s]) simp
qed

end
